(* ===== verification/Rust_Prelude.thy ===== *)
theory Rust_Prelude
  imports Main "HOL-Library.Word" "HOL-Library.AList" "HOL-Library.Multiset"
begin

text \<open>
  The prelude of the development: the pieces of the Rust language and of its standard
  library that the crates use, and the generic lemmas about them.

  \<^item> Machine integers are words (\<open>u64\<close> is \<open>64 word\<close>). The workspace's release profile
    (\<open>src/Cargo.toml\<close>) leaves overflow checks off, so \<open>+\<close>, \<open>-\<close> and \<open>*\<close> wrap around, as the
    operations on words do; \<open>saturating_sub\<close>, \<open>saturating_add\<close> and \<open>div_ceil\<close> are the
    methods of the same names.
  \<^item> \<open>Result<A, E>\<close> is \<open>E + A\<close> with \<open>Err\<close> for \<^const>\<open>Inl\<close> and \<open>Ok\<close> for \<^const>\<open>Inr\<close>;
    \<open>and_then\<close> is the \<open>?\<close> operator.
  \<^item> \<open>to_le_bytes\<close>, \<open>from_le_bytes\<close>, \<open>to_be_bytes\<close>, \<open>from_be_bytes\<close> at every width.
    The interface they give to their clients is the locale \<open>fixed_codec\<close>.
  \<^item> \<open>HashMap\<close> and \<open>DashMap\<close> are lists of entries with distinct keys, in the order in which
    an iterator would visit them. That order is unspecified in Rust, so no theorem fixes it.
  \<^item> \<open>sort_by\<close> is a stable sort by a comparison; \<open>show_nat\<close> prints an unsigned integer.
\<close>

named_theorems result_simps \<open>inversion of the error monad\<close>
named_theorems codec_simps \<open>byte encodings of machine integers\<close>

section \<open>Machine integers\<close>

type_synonym u8 = "8 word"
type_synonym u16 = "16 word"
type_synonym u32 = "32 word"
type_synonym u64 = "64 word"
type_synonym u128 = "128 word"
type_synonym i32 = "32 word"
type_synonym i64 = "64 word"
type_synonym i128 = "128 word"
type_synonym bytes = "u8 list"

definition saturating_sub :: "'a::len word \<Rightarrow> 'a word \<Rightarrow> 'a word" where
  "saturating_sub a b = (if a < b then 0 else a - b)"

definition saturating_add :: "'a::len word \<Rightarrow> 'a word \<Rightarrow> 'a word" where
  "saturating_add a b = (if unat a + unat b < 2 ^ LENGTH('a) then a + b else - 1)"

definition div_ceil :: "'a::len word \<Rightarrow> 'a word \<Rightarrow> 'a word" where
  "div_ceil a b = (if a mod b = 0 then a div b else a div b + 1)"

lemma unat_saturating_sub [simp]: "unat (saturating_sub a b) = unat a - unat b"
  by (auto simp: saturating_sub_def word_less_nat_alt unat_sub word_le_nat_alt not_less)

lemma saturating_sub_le [simp]: "saturating_sub a b \<le> a"
  by (simp add: word_le_nat_alt)

lemma unat_saturating_add:
  "unat (saturating_add (a :: 'a::len word) b) = min (unat a + unat b) (2 ^ LENGTH('a) - 1)"
proof (cases "unat a + unat b < 2 ^ LENGTH('a)")
  case True
  then show ?thesis by (simp add: saturating_add_def unat_add_lem [THEN iffD1])
next
  case False
  then show ?thesis
    by (simp add: saturating_add_def unsigned_minus_1_eq_mask mask_eq_exp_minus_1)
qed

lemma unat_add_nowrap:
  "unat a + unat b < 2 ^ LENGTH('a) \<Longrightarrow> unat (a + b :: 'a::len word) = unat a + unat b"
  by (rule unat_add_lem [THEN iffD1])

lemma unat_mult_nowrap:
  "unat a * unat b < 2 ^ LENGTH('a) \<Longrightarrow> unat (a * b :: 'a::len word) = unat a * unat b"
  by (rule unat_mult_lem [THEN iffD1])

lemma unat_sub_le: "b \<le> a \<Longrightarrow> unat (a - b :: 'a::len word) = unat a - unat b"
  by (rule unat_sub)

lemma unat_Suc_nowrap:
  "unat a + 1 < 2 ^ LENGTH('a) \<Longrightarrow> unat (a + 1 :: 'a::len word) = unat a + 1"
  using unat_add_nowrap [of a 1] by simp

lemma unat_le_max: "unat (a :: 'a::len word) \<le> 2 ^ LENGTH('a) - 1"
proof -
  have "unat a < 2 ^ LENGTH('a)" by (rule unsigned_less)
  then show ?thesis by linarith
qed

text \<open>\<open>Iterator::sum\<close> over a machine type: it wraps, and is exact below the width.\<close>

lemma unat_sum_list:
  fixes ws :: "'a::len word list"
  shows "sum_list (map unat ws) < 2 ^ LENGTH('a) \<Longrightarrow> unat (sum_list ws) = sum_list (map unat ws)"
proof (induction ws)
  case (Cons w ws)
  then have "unat (sum_list ws) = sum_list (map unat ws)" by simp
  with Cons.prems show ?case by (simp add: unat_add_nowrap)
qed simp

lemma unat_sum_list_le:
  fixes ws :: "'a::len word list"
  shows "unat (sum_list ws) \<le> sum_list (map unat ws)"
proof (induction ws)
  case (Cons w ws)
  have "unat (w + sum_list ws) \<le> unat w + unat (sum_list ws)"
    by (simp add: unat_word_ariths)
  with Cons.IH show ?case by simp
qed simp

lemma nat_div_ceil:
  assumes "0 < (b :: nat)"
  shows "(a + b - 1) div b = (if a mod b = 0 then a div b else a div b + 1)"
proof -
  let ?q = "a div b" and ?r = "a mod b"
  have a: "a = ?q * b + ?r" and r: "?r < b" using assms by simp_all
  show ?thesis
  proof (cases "?r = 0")
    case True
    then have "a + b - 1 = ?q * b + (b - 1)" using a assms by linarith
    moreover have "(?q * b + (b - 1)) div b = ?q" using assms
      by (subst div_mult_self3) simp_all
    ultimately show ?thesis using True by simp
  next
    case False
    then have "a + b - 1 = ?q * b + b + (?r - 1)" using a by linarith
    then have "a + b - 1 = (?q + 1) * b + (?r - 1)" by simp
    moreover have "?r - 1 < b" using r by linarith
    then have "((?q + 1) * b + (?r - 1)) div b = ?q + 1" using assms
      by (subst div_mult_self3) simp_all
    ultimately show ?thesis using False by simp
  qed
qed

lemma unat_div_ceil:
  fixes a b :: "'a::len word"
  assumes "b \<noteq> 0" "unat a + unat b < 2 ^ LENGTH('a)"
  shows "unat (div_ceil a b) = (unat a + unat b - 1) div unat b"
proof -
  have b0: "0 < unat b" using assms(1) by (simp add: unat_gt_0)
  have m: "a mod b = 0 \<longleftrightarrow> unat a mod unat b = 0"
    by (metis unat_eq_zero unat_mod)
  have "unat a div unat b \<le> unat a" by simp
  then have "unat a div unat b + 1 < 2 ^ LENGTH('a)" using assms(2) b0 by linarith
  then have "unat (a div b) + 1 < 2 ^ LENGTH('a)" by (simp only: unat_div)
  then have "unat (a div b + 1) = unat a div unat b + 1"
    by (simp only: unat_Suc_nowrap) (simp add: unat_div)
  then show ?thesis using m nat_div_ceil [OF b0, of "unat a"] by (simp add: div_ceil_def unat_div)
qed

section \<open>Results and options\<close>

abbreviation Ok :: "'a \<Rightarrow> 'e + 'a" where "Ok \<equiv> Inr"
abbreviation Err :: "'e \<Rightarrow> 'e + 'a" where "Err \<equiv> Inl"

text \<open>The \<open>?\<close> operator: an error returns early.\<close>

definition and_then :: "'e + 'a \<Rightarrow> ('a \<Rightarrow> 'e + 'b) \<Rightarrow> 'e + 'b" where
  "and_then r f = (case r of Err e \<Rightarrow> Err e | Ok x \<Rightarrow> f x)"

definition map_err :: "('e \<Rightarrow> 'f) \<Rightarrow> 'e + 'a \<Rightarrow> 'f + 'a" where
  "map_err g r = (case r of Err e \<Rightarrow> Err (g e) | Ok x \<Rightarrow> Ok x)"

definition map_ok :: "('a \<Rightarrow> 'b) \<Rightarrow> 'e + 'a \<Rightarrow> 'e + 'b" where
  "map_ok g r = (case r of Err e \<Rightarrow> Err e | Ok x \<Rightarrow> Ok (g x))"

definition ok_or :: "'e \<Rightarrow> 'a option \<Rightarrow> 'e + 'a" where
  "ok_or e v = (case v of None \<Rightarrow> Err e | Some x \<Rightarrow> Ok x)"

definition ok :: "'e + 'a \<Rightarrow> 'a option" where
  "ok r = (case r of Err _ \<Rightarrow> None | Ok x \<Rightarrow> Some x)"

definition unwrap_or :: "'a \<Rightarrow> 'a option \<Rightarrow> 'a" where
  "unwrap_or d v = (case v of None \<Rightarrow> d | Some x \<Rightarrow> x)"

definition or_else :: "'a option \<Rightarrow> 'a option \<Rightarrow> 'a option" where
  "or_else v w = (case v of None \<Rightarrow> w | Some x \<Rightarrow> Some x)"

definition flatten :: "'a option option \<Rightarrow> 'a option" where
  "flatten v = (case v of None \<Rightarrow> None | Some w \<Rightarrow> w)"

lemma and_then_simps [simp]: "and_then (Err e) f = Err e" "and_then (Ok x) f = f x"
  by (simp_all add: and_then_def)

lemma map_err_simps [simp]: "map_err g (Err e) = Err (g e)" "map_err g (Ok x) = Ok x"
  by (simp_all add: map_err_def)

lemma map_ok_simps [simp]: "map_ok g (Err e) = Err e" "map_ok g (Ok x) = Ok (g x)"
  by (simp_all add: map_ok_def)

lemma ok_or_simps [simp]: "ok_or e None = Err e" "ok_or e (Some x) = Ok x"
  by (simp_all add: ok_or_def)

lemma ok_simps [simp]: "ok (Err e) = None" "ok (Ok x) = Some x"
  by (simp_all add: ok_def)

lemma unwrap_or_simps [simp]: "unwrap_or d None = d" "unwrap_or d (Some x) = x"
  by (simp_all add: unwrap_or_def)

lemma or_else_simps [simp]: "or_else None w = w" "or_else (Some x) w = Some x"
  by (simp_all add: or_else_def)

lemma flatten_simps [simp]: "flatten None = None" "flatten (Some w) = w"
  by (simp_all add: flatten_def)

lemma and_then_eq_Ok [result_simps]: "and_then r f = Ok y \<longleftrightarrow> (\<exists>x. r = Ok x \<and> f x = Ok y)"
  by (cases r) simp_all

lemma and_then_eq_Err [result_simps]:
  "and_then r f = Err e \<longleftrightarrow> r = Err e \<or> (\<exists>x. r = Ok x \<and> f x = Err e)"
  by (cases r) simp_all

lemma map_err_eq_Ok [result_simps]: "map_err g r = Ok y \<longleftrightarrow> r = Ok y"
  by (cases r) simp_all

lemma map_err_eq_Err [result_simps]: "map_err g r = Err e \<longleftrightarrow> (\<exists>e'. r = Err e' \<and> e = g e')"
  by (cases r) auto

lemma map_ok_eq_Ok [result_simps]: "map_ok g r = Ok y \<longleftrightarrow> (\<exists>x. r = Ok x \<and> y = g x)"
  by (cases r) auto

lemma ok_or_eq_Ok [result_simps]: "ok_or e v = Ok x \<longleftrightarrow> v = Some x"
  by (cases v) simp_all

lemma ok_or_eq_Err [result_simps]: "ok_or e v = Err e' \<longleftrightarrow> v = None \<and> e' = e"
  by (cases v) auto

lemma if_Err_eq_Ok [result_simps]: "(if b then Err e else r) = Ok x \<longleftrightarrow> \<not> b \<and> r = Ok x"
  by simp

lemma ok_eq_Some [result_simps]: "ok r = Some x \<longleftrightarrow> r = Ok x"
  by (cases r) simp_all

section \<open>Bytes\<close>

fun nat_le :: "nat \<Rightarrow> nat \<Rightarrow> bytes" where
  "nat_le 0 x = []"
| "nat_le (Suc n) x = of_nat (x mod 256) # nat_le n (x div 256)"

fun le_nat :: "bytes \<Rightarrow> nat" where
  "le_nat [] = 0"
| "le_nat (b # bs) = unat b + 256 * le_nat bs"

lemma nat_le_numeral [simp]:
  "nat_le (numeral k) x = of_nat (x mod 256) # nat_le (pred_numeral k) (x div 256)"
  by (simp only: numeral_eq_Suc [of k] nat_le.simps)

lemma length_nat_le [simp]: "length (nat_le n x) = n"
  by (induction n arbitrary: x) simp_all

lemma le_nat_nat_le: "le_nat (nat_le n x) = x mod 256 ^ n"
proof (induction n arbitrary: x)
  case (Suc n)
  have "unat (of_nat (x mod 256) :: u8) = x mod 256"
    by (simp add: unat_of_nat)
  then show ?case by (simp add: Suc.IH mod_mult2_eq)
qed simp

lemma le_nat_less: "le_nat bs < 256 ^ length bs"
proof (induction bs)
  case (Cons b bs)
  have "unat b < 256" using unsigned_less [of b] by simp
  with Cons.IH show ?case by simp
qed simp

lemma nat_le_le_nat: "nat_le (length bs) (le_nat bs) = bs"
proof (induction bs)
  case (Cons b bs)
  have b: "unat b < 256" using unsigned_less [of b] by simp
  have "(unat b + 256 * le_nat bs) mod 256 = unat b" using b by simp
  moreover have "(unat b + 256 * le_nat bs) div 256 = le_nat bs" using b by simp
  ultimately show ?case using Cons.IH by simp
qed simp

definition to_le_bytes :: "'a::len word \<Rightarrow> bytes" where
  "to_le_bytes w = nat_le (LENGTH('a) div 8) (unat w)"

definition from_le_bytes :: "bytes \<Rightarrow> 'a::len word" where
  "from_le_bytes bs = of_nat (le_nat bs)"

definition to_be_bytes :: "'a::len word \<Rightarrow> bytes" where
  "to_be_bytes w = rev (to_le_bytes w)"

definition from_be_bytes :: "bytes \<Rightarrow> 'a::len word" where
  "from_be_bytes bs = from_le_bytes (rev bs)"

lemma length_to_le_bytes [simp]: "length (to_le_bytes (w :: 'a::len word)) = LENGTH('a) div 8"
  by (simp add: to_le_bytes_def)

lemma length_to_be_bytes [simp]: "length (to_be_bytes (w :: 'a::len word)) = LENGTH('a) div 8"
  by (simp add: to_be_bytes_def)

lemma power_256: "8 dvd n \<Longrightarrow> (256 :: nat) ^ (n div 8) = 2 ^ n"
proof -
  assume "8 dvd n"
  then obtain k where k: "n = 8 * k" by blast
  have "(2 :: nat) ^ (8 * k) = (2 ^ 8) ^ k" by (rule power_mult)
  then show ?thesis using k by simp
qed

lemma from_to_le_bytes:
  assumes "8 dvd LENGTH('a)"
  shows "from_le_bytes (to_le_bytes (w :: 'a::len word)) = w"
proof -
  have "unat w mod 256 ^ (LENGTH('a) div 8) = unat w"
    unfolding power_256 [OF assms] by simp
  then show ?thesis by (simp add: to_le_bytes_def from_le_bytes_def le_nat_nat_le)
qed

lemma to_from_le_bytes:
  assumes "8 dvd LENGTH('a)" "length bs = LENGTH('a) div 8"
  shows "to_le_bytes (from_le_bytes bs :: 'a::len word) = bs"
proof -
  have "le_nat bs < 2 ^ LENGTH('a)"
    using le_nat_less [of bs] power_256 [OF assms(1)] assms(2) by simp
  then have "unat (of_nat (le_nat bs) :: 'a word) = le_nat bs"
    by (simp add: unat_of_nat)
  then show ?thesis
    using assms(2) nat_le_le_nat [of bs] by (simp add: to_le_bytes_def from_le_bytes_def)
qed

text \<open>
  The interface of a fixed-width encoding: what a client that concatenates encoded fields,
  cuts them apart again, or uses an encoding as a database key relies on.
\<close>

locale fixed_codec =
  fixes enc :: "'a \<Rightarrow> bytes" and dec :: "bytes \<Rightarrow> 'a" and width :: nat
  assumes enc_width: "length (enc x) = width"
    and dec_enc: "dec (enc x) = x"
    and enc_dec: "length bs = width \<Longrightarrow> enc (dec bs) = bs"
begin

lemma enc_inject: "enc x = enc y \<longleftrightarrow> x = y"
  by (metis dec_enc)

lemma enc_append_inject: "enc x @ r = enc y @ s \<longleftrightarrow> x = y \<and> r = s"
  by (auto simp: append_eq_append_conv enc_width enc_inject)

lemma take_enc: "take width (enc x @ r) = enc x"
  by (simp add: enc_width)

lemma drop_enc: "drop width (enc x @ r) = r"
  by (simp add: enc_width)

lemma dec_take: "dec (take width (enc x @ r)) = x"
  by (simp add: enc_width dec_enc)

lemma dec_inject: "length bs = width \<Longrightarrow> length cs = width \<Longrightarrow> dec bs = dec cs \<longleftrightarrow> bs = cs"
  by (metis enc_dec)

end

lemma le_codec:
  assumes "8 dvd LENGTH('a)" "n = LENGTH('a) div 8"
  shows "fixed_codec (to_le_bytes :: 'a::len word \<Rightarrow> bytes) from_le_bytes n"
  using assms by unfold_locales (simp_all add: from_to_le_bytes to_from_le_bytes)

lemma be_codec:
  assumes "8 dvd LENGTH('a)" "n = LENGTH('a) div 8"
  shows "fixed_codec (to_be_bytes :: 'a::len word \<Rightarrow> bytes) from_be_bytes n"
  using assms
  by unfold_locales (simp_all add: to_be_bytes_def from_be_bytes_def from_to_le_bytes to_from_le_bytes)

interpretation le32: fixed_codec "to_le_bytes :: u32 \<Rightarrow> bytes" from_le_bytes 4
  by (rule le_codec) simp_all

interpretation le64: fixed_codec "to_le_bytes :: u64 \<Rightarrow> bytes" from_le_bytes 8
  by (rule le_codec) simp_all

interpretation le128: fixed_codec "to_le_bytes :: u128 \<Rightarrow> bytes" from_le_bytes 16
  by (rule le_codec) simp_all

interpretation be64: fixed_codec "to_be_bytes :: u64 \<Rightarrow> bytes" from_be_bytes 8
  by (rule be_codec) simp_all

lemmas [codec_simps] =
  le32.dec_enc le64.dec_enc le128.dec_enc be64.dec_enc
  le32.enc_append_inject le64.enc_append_inject le128.enc_append_inject be64.enc_append_inject
  le32.enc_inject le64.enc_inject le128.enc_inject be64.enc_inject

section \<open>Printing unsigned integers\<close>

definition digit_char :: "nat \<Rightarrow> char" where
  "digit_char d = char_of (48 + d)"

fun show_nat :: "nat \<Rightarrow> string" where
  "show_nat n = (if n < 10 then [digit_char n] else show_nat (n div 10) @ [digit_char (n mod 10)])"

declare show_nat.simps [simp del]

abbreviation show_word :: "'a::len word \<Rightarrow> string" where
  "show_word w \<equiv> show_nat (unat w)"

definition read_digits :: "string \<Rightarrow> nat" where
  "read_digits s = foldl (\<lambda>a c. 10 * a + (of_char c - 48)) 0 s"

lemma of_char_digit_char: "d < 10 \<Longrightarrow> of_char (digit_char d) = 48 + d"
  by (simp add: digit_char_def)

lemma read_show_nat: "read_digits (show_nat n) = n"
proof (induction n rule: show_nat.induct)
  case (1 n)
  show ?case
  proof (cases "n < 10")
    case True
    then show ?thesis
      by (simp add: show_nat.simps [of n] read_digits_def of_char_digit_char)
  next
    case False
    have "n mod 10 < 10" by simp
    with False 1 show ?thesis
      by (simp add: show_nat.simps [of n] read_digits_def of_char_digit_char)
  qed
qed

lemma show_nat_inject: "show_nat m = show_nat n \<longleftrightarrow> m = n"
  by (metis read_show_nat)

lemma show_nat_digits: "c \<in> set (show_nat n) \<Longrightarrow> c \<in> digit_char ` {0..<10}"
proof (induction n rule: show_nat.induct)
  case (1 n)
  then show ?case
    by (cases "n < 10") (auto simp: show_nat.simps [of n])
qed

lemma digit_char_noneq: "d < 10 \<Longrightarrow> of_char c < (48 :: nat) \<Longrightarrow> digit_char d \<noteq> c"
  using of_char_digit_char [of d] by auto

lemma show_nat_no_dash: "CHR ''-'' \<notin> set (show_nat n)"
  using show_nat_digits [of "CHR ''-''" n] digit_char_noneq [of _ "CHR ''-''"] by force

lemma split_at_sep:
  assumes "xs @ c # ys = xs' @ c # ys'" "c \<notin> set xs" "c \<notin> set xs'"
  shows "xs = xs' \<and> ys = ys'"
proof -
  have "takeWhile (\<lambda>d. d \<noteq> c) (xs @ c # ys) = xs" if "c \<notin> set xs" for xs ys
    using that by (induction xs) auto
  then have "xs = xs'" using assms by metis
  with assms(1) show ?thesis by simp
qed

section \<open>Text\<close>

text \<open>
  Strings are lists of bytes read as characters. \<open>std::str::from_utf8\<close> accepts exactly the
  well-formed UTF-8 sequences: no overlong forms, no surrogates, nothing above U+10FFFF.
\<close>

definition string_bytes :: "string \<Rightarrow> bytes" where
  "string_bytes s = map of_char s"

definition bytes_string :: "bytes \<Rightarrow> string" where
  "bytes_string bs = map (\<lambda>b. char_of (unat b)) bs"

definition utf8_cont :: "u8 \<Rightarrow> bool" where
  "utf8_cont b \<longleftrightarrow> 0x80 \<le> b \<and> b \<le> 0xBF"

fun utf8_valid :: "bytes \<Rightarrow> bool" where
  "utf8_valid [] = True"
| "utf8_valid (b # bs) =
     (if b < 0x80 then utf8_valid bs
      else case bs of
        [] \<Rightarrow> False
      | c # cs \<Rightarrow>
          if 0xC2 \<le> b \<and> b \<le> 0xDF then utf8_cont c \<and> utf8_valid cs
          else case cs of
            [] \<Rightarrow> False
          | d # ds \<Rightarrow>
              if 0xE0 \<le> b \<and> b \<le> 0xEF
              then (if b = 0xE0 then 0xA0 \<le> c \<and> c \<le> 0xBF
                    else if b = 0xED then 0x80 \<le> c \<and> c \<le> 0x9F else utf8_cont c) \<and>
                   utf8_cont d \<and> utf8_valid ds
              else case ds of
                [] \<Rightarrow> False
              | e # es \<Rightarrow>
                  0xF0 \<le> b \<and> b \<le> 0xF4 \<and>
                  (if b = 0xF0 then 0x90 \<le> c \<and> c \<le> 0xBF
                   else if b = 0xF4 then 0x80 \<le> c \<and> c \<le> 0x8F else utf8_cont c) \<and>
                  utf8_cont d \<and> utf8_cont e \<and> utf8_valid es)"

definition from_utf8 :: "bytes \<Rightarrow> string option" where
  "from_utf8 bs = (if utf8_valid bs then Some (bytes_string bs) else None)"

lemma unat_of_char: "unat (of_char c :: u8) = of_char c"
proof -
  have "unat (of_nat (of_char c) :: u8) = of_char c"
    using nat_of_char_less_256 [of c] by (simp add: unat_of_nat)
  then show ?thesis by (simp only: of_nat_of_char)
qed

lemma bytes_string_inverse [simp]: "bytes_string (string_bytes s) = s"
  by (simp add: bytes_string_def string_bytes_def comp_def unat_of_char)

lemma length_string_bytes [simp]: "length (string_bytes s) = length s"
  by (simp add: string_bytes_def)

lemma utf8_valid_ascii: "list_all (\<lambda>b. b < 0x80) bs \<Longrightarrow> utf8_valid bs"
  by (induction bs) simp_all

section \<open>Hash maps\<close>

type_synonym ('k, 'v) hmap = "('k \<times> 'v) list"

abbreviation hm_get :: "('k, 'v) hmap \<Rightarrow> 'k \<Rightarrow> 'v option" where
  "hm_get m k \<equiv> map_of m k"

abbreviation hm_put :: "'k \<Rightarrow> 'v \<Rightarrow> ('k, 'v) hmap \<Rightarrow> ('k, 'v) hmap" where
  "hm_put \<equiv> AList.update"

abbreviation hm_remove :: "'k \<Rightarrow> ('k, 'v) hmap \<Rightarrow> ('k, 'v) hmap" where
  "hm_remove \<equiv> AList.delete"

definition hm_wf :: "('k, 'v) hmap \<Rightarrow> bool" where
  "hm_wf m = distinct (map fst m)"

definition hm_contains :: "'k \<Rightarrow> ('k, 'v) hmap \<Rightarrow> bool" where
  "hm_contains k m = (map_of m k \<noteq> None)"

lemma hm_get_put [simp]: "map_of (AList.update k v m) k' = (if k' = k then Some v else map_of m k')"
  by (simp add: update_conv)

lemma hm_get_remove [simp]: "map_of (AList.delete k m) k' = (if k' = k then None else map_of m k')"
  by (simp add: delete_conv)

lemma hm_wf_Nil [simp, intro]: "hm_wf []"
  by (simp add: hm_wf_def)

lemma hm_wf_put [simp, intro]: "hm_wf m \<Longrightarrow> hm_wf (AList.update k v m)"
  by (simp add: hm_wf_def distinct_update)

lemma hm_wf_remove [simp, intro]: "hm_wf m \<Longrightarrow> hm_wf (AList.delete k m)"
  by (simp add: hm_wf_def distinct_delete)

lemma hm_get_in_set: "hm_wf m \<Longrightarrow> map_of m k = Some v \<longleftrightarrow> (k, v) \<in> set m"
  by (simp add: hm_wf_def map_of_eq_Some_iff)

lemma hm_get_perm:
  assumes "hm_wf m" "mset m = mset m'"
  shows "hm_wf m'" "map_of m' = map_of m"
proof -
  have "mset (map fst m) = mset (map fst m')" using assms(2) by simp
  then show wf: "hm_wf m'"
    using assms(1) by (metis hm_wf_def mset_eq_imp_distinct_iff)
  show "map_of m' = map_of m"
    using assms wf by (metis hm_wf_def map_of_inject_set mset_eq_setD)
qed

lemma update_new: "map_of m k = None \<Longrightarrow> AList.update k v m = m @ [(k, v)]"
  by (induction m) (auto split: if_splits)

lemma length_put:
  "length (AList.update k v m) = (if map_of m k = None then Suc (length m) else length m)"
  by (induction m) (auto split: if_splits)

lemma length_remove:
  "hm_wf m \<Longrightarrow> length (AList.delete k m) = (if map_of m k = None then length m else length m - 1)"
proof (induction m)
  case (Cons x m)
  then have "fst x \<notin> fst ` set m" by (simp add: hm_wf_def)
  moreover have "length (AList.delete k m) = length m" if "k \<notin> fst ` set m"
    using that by (simp add: delete_notin_dom)
  moreover have "0 < length m" if "map_of m k \<noteq> None" using that by (cases m) auto
  ultimately show ?case using Cons by (auto simp: hm_wf_def)
qed simp

text \<open>Sums of a measure over the entries: what a ledger conserves.\<close>

definition hm_sum :: "('v \<Rightarrow> nat) \<Rightarrow> ('k, 'v) hmap \<Rightarrow> nat" where
  "hm_sum f m = sum_list (map (f \<circ> snd) m)"

definition hm_at :: "('v \<Rightarrow> nat) \<Rightarrow> ('k, 'v) hmap \<Rightarrow> 'k \<Rightarrow> nat" where
  "hm_at f m k = (case map_of m k of None \<Rightarrow> 0 | Some v \<Rightarrow> f v)"

lemma hm_sum_put: "hm_sum f (AList.update k v m) + hm_at f m k = hm_sum f m + f v"
  by (induction m) (auto simp: hm_sum_def hm_at_def split: option.splits)

lemma hm_at_le_sum: "hm_at f m k \<le> hm_sum f m"
  by (induction m) (auto simp: hm_sum_def hm_at_def split: option.splits)

lemma hm_at_put [simp]: "hm_at f (AList.update k v m) k' = (if k' = k then f v else hm_at f m k')"
  by (simp add: hm_at_def)

section \<open>Stable sorting by a comparison\<close>

fun insert_by :: "('a \<Rightarrow> 'a \<Rightarrow> bool) \<Rightarrow> 'a \<Rightarrow> 'a list \<Rightarrow> 'a list" where
  "insert_by le x [] = [x]"
| "insert_by le x (y # ys) = (if le x y then x # y # ys else y # insert_by le x ys)"

definition sort_by :: "('a \<Rightarrow> 'a \<Rightarrow> bool) \<Rightarrow> 'a list \<Rightarrow> 'a list" where
  "sort_by le xs = foldr (insert_by le) xs []"

lemma mset_insert_by [simp]: "mset (insert_by le x xs) = add_mset x (mset xs)"
  by (induction xs) auto

lemma mset_sort_by [simp]: "mset (sort_by le xs) = mset xs"
  by (induction xs) (auto simp: sort_by_def)

lemma set_sort_by [simp]: "set (sort_by le xs) = set xs"
  using mset_sort_by [of le xs] by (rule mset_eq_setD)

lemma length_sort_by [simp]: "length (sort_by le xs) = length xs"
  using mset_sort_by [of le xs] by (rule mset_eq_length)

lemma distinct_sort_by [simp]: "distinct (sort_by le xs) = distinct xs"
  using mset_sort_by [of le xs] by (rule mset_eq_imp_distinct_iff)

lemma set_insert_by: "set (insert_by le x xs) = insert x (set xs)"
  by (induction xs) auto

lemma sorted_insert_by:
  assumes "\<And>x y. le x y \<or> le y x" "\<And>x y z. le x y \<Longrightarrow> le y z \<Longrightarrow> le x z"
  shows "sorted_wrt le xs \<Longrightarrow> sorted_wrt le (insert_by le x xs)"
proof (induction xs)
  case (Cons y ys)
  then show ?case using assms by (auto simp: set_insert_by)
qed simp

lemma sorted_sort_by:
  assumes "\<And>x y. le x y \<or> le y x" "\<And>x y z. le x y \<Longrightarrow> le y z \<Longrightarrow> le x z"
  shows "sorted_wrt le (sort_by le xs)"
  unfolding sort_by_def
proof (induction xs)
  case (Cons x xs)
  then show ?case using sorted_insert_by [of le, OF assms] by simp
qed simp

section \<open>Stores that contracts write to\<close>

text \<open>
  The interface of a mutable store of slots, as contract code sees it: a read returns the
  last value written to the slot (\<open>slot_map\<close>), or nothing after a removal (\<open>slot_store\<close>).
\<close>

locale slot_map =
  fixes rd :: "'s \<Rightarrow> 'k \<Rightarrow> 'v option" and wr :: "'s \<Rightarrow> 'k \<Rightarrow> 'v \<Rightarrow> 's"
  assumes rd_wr: "rd (wr s k v) l = (if l = k then Some v else rd s l)"
begin

lemma wr_last_wins: "rd (wr (wr s k v) k w) l = rd (wr s k w) l"
  by (simp add: rd_wr)

lemma wr_commutes: "k \<noteq> l \<Longrightarrow> rd (wr (wr s k v) l w) m = rd (wr (wr s l w) k v) m"
  by (simp add: rd_wr)

lemma wr_all: "rd (foldl (\<lambda>s (k, v). wr s k v) s kvs) l = (case map_of (rev kvs) l of Some v \<Rightarrow> Some v | None \<Rightarrow> rd s l)"
proof (induction kvs rule: rev_induct)
  case (snoc kv kvs)
  then show ?case by (cases kv) (simp add: rd_wr)
qed simp

end

locale slot_store = slot_map rd wr
  for rd :: "'s \<Rightarrow> 'k \<Rightarrow> 'v option" and wr :: "'s \<Rightarrow> 'k \<Rightarrow> 'v \<Rightarrow> 's" +
  fixes rm :: "'s \<Rightarrow> 'k \<Rightarrow> 's"
  assumes rd_rm: "rd (rm s k) l = (if l = k then None else rd s l)"
begin

lemma rm_cancels_wr: "rd (rm (wr s k v) k) l = rd (rm s k) l"
  by (simp add: rd_wr rd_rm)

end

end
