(* ===== verification/Crypto.thy ===== *)
theory Crypto
  imports Rust_Prelude
begin

text \<open>
  The crate \<open>crates/crypto\<close>: hashes, addresses, keys and signatures
  (\<open>hash.rs\<close>, \<open>address.rs\<close>, \<open>keypair.rs\<close>, \<open>error.rs\<close>).

  A fixed-size byte array \<open>[u8; n]\<close> is the word of \<open>8 * n\<close> bits whose big-endian bytes it
  is, so \<open>as_bytes\<close> is \<^const>\<open>to_be_bytes\<close>, the derived \<open>Ord\<close> (lexicographic on the bytes)
  is the order of the words, and \<open>ZERO\<close> is \<open>0\<close>. Blake3, Ed25519 and the \<open>hex\<close> crate are
  third-party code: they are the fields of the parameter \<open>P\<close>, and what is relied on of them
  is stated where it is used (\<open>ed25519_correct\<close>, \<open>hex_correct\<close>, freedom of collisions on
  the inputs hashed).
\<close>

section \<open>Types\<close>

type_synonym blake3hash = "256 word"
type_synonym address = "160 word"
type_synonym public_key = "256 word"
type_synonym secret_key = "256 word"
type_synonym signature = "512 word"

datatype crypto_error =
    InvalidSignature
  | InvalidKeyLength (expected: nat) (actual: nat)
  | InvalidHex string
  | KeyDerivation string
  | MnemonicError string
  | KeystoreError string
  | Encryption string
  | Decryption string
  | Serialization string

definition crypto_error_to_string :: "crypto_error \<Rightarrow> string" where
  "crypto_error_to_string e = (case e of
      InvalidSignature \<Rightarrow> ''invalid signature''
    | InvalidKeyLength ex ac \<Rightarrow>
        ''invalid key length: expected '' @ show_nat ex @ '', got '' @ show_nat ac
    | InvalidHex s \<Rightarrow> ''invalid hex: '' @ s
    | KeyDerivation s \<Rightarrow> ''key derivation failed: '' @ s
    | MnemonicError s \<Rightarrow> ''mnemonic error: '' @ s
    | KeystoreError s \<Rightarrow> ''keystore error: '' @ s
    | Encryption s \<Rightarrow> ''encryption error: '' @ s
    | Decryption s \<Rightarrow> ''decryption error: '' @ s
    | Serialization s \<Rightarrow> ''serialization error: '' @ s)"

text \<open>Third-party primitives.\<close>

record crypto_prims =
  blake3 :: "bytes \<Rightarrow> blake3hash"
  ed_verifying_key :: "secret_key \<Rightarrow> public_key"
  ed_sign :: "secret_key \<Rightarrow> bytes \<Rightarrow> signature"
  ed_key_valid :: "public_key \<Rightarrow> bool"
  ed_verify :: "public_key \<Rightarrow> bytes \<Rightarrow> signature \<Rightarrow> bool"
  hex_encode :: "bytes \<Rightarrow> string"
  hex_decode :: "string \<Rightarrow> string + bytes"

text \<open>
  Documented behaviour of the two crates: a signature made with a key verifies under its
  public key; \<open>hex::encode\<close> writes two lower-case digits per byte and \<open>hex::decode\<close> reads
  them back.
\<close>

definition ed25519_correct :: "'a crypto_prims_scheme \<Rightarrow> bool" where
  "ed25519_correct P \<longleftrightarrow> (\<forall>sk m. ed_key_valid P (ed_verifying_key P sk) \<and>
     ed_verify P (ed_verifying_key P sk) m (ed_sign P sk m))"

definition hex_digits :: "char set" where
  "hex_digits = set ''0123456789abcdef''"

definition hex_correct :: "'a crypto_prims_scheme \<Rightarrow> bool" where
  "hex_correct P \<longleftrightarrow> (\<forall>bs. hex_decode P (hex_encode P bs) = Ok bs \<and>
     set (hex_encode P bs) \<subseteq> hex_digits \<and> length (hex_encode P bs) = 2 * length bs)"

section \<open>hash.rs\<close>

abbreviation hash_ZERO :: blake3hash where "hash_ZERO \<equiv> 0"

text \<open>\<open>strip_prefix(\"0x\").unwrap_or(s)\<close>\<close>

definition strip_0x :: "string \<Rightarrow> string" where
  "strip_0x s = (if take 2 s = ''0x'' then drop 2 s else s)"

definition hash_to_hex :: "'a crypto_prims_scheme \<Rightarrow> blake3hash \<Rightarrow> string" where
  "hash_to_hex P h = hex_encode P (to_be_bytes h)"

definition hash_from_hex :: "'a crypto_prims_scheme \<Rightarrow> string \<Rightarrow> crypto_error + blake3hash" where
  "hash_from_hex P s =
     and_then (map_err InvalidHex (hex_decode P (strip_0x s))) (\<lambda>bs.
       if length bs \<noteq> 32 then Err (InvalidKeyLength 32 (length bs))
       else Ok (from_be_bytes bs))"

definition hash_display :: "'a crypto_prims_scheme \<Rightarrow> blake3hash \<Rightarrow> string" where
  "hash_display P h = ''0x'' @ hash_to_hex P h"

definition hash :: "'a crypto_prims_scheme \<Rightarrow> bytes \<Rightarrow> blake3hash" where
  "hash P data = blake3 P data"

text \<open>
  A Blake3 hasher hashes the concatenation of what it is updated with: for every item its
  length as eight little-endian bytes, then the item.
\<close>

definition frame_items :: "bytes list \<Rightarrow> bytes" where
  "frame_items items = concat (map (\<lambda>item. to_le_bytes (of_nat (length item) :: u64) @ item) items)"

definition hash_multiple :: "'a crypto_prims_scheme \<Rightarrow> bytes list \<Rightarrow> blake3hash" where
  "hash_multiple P items = blake3 P (frame_items items)"

text \<open>Rust allocations are shorter than \<open>2 ^ 63\<close> bytes, so every item the code hashes is:\<close>

definition encodable :: "bytes list \<Rightarrow> bool" where
  "encodable xs = list_all (\<lambda>x. length x < 2 ^ 64) xs"

section \<open>address.rs\<close>

abbreviation address_ZERO :: address where "address_ZERO \<equiv> 0"

definition address_to_hex :: "'a crypto_prims_scheme \<Rightarrow> address \<Rightarrow> string" where
  "address_to_hex P a = ''0x'' @ hex_encode P (to_be_bytes a)"

definition address_from_hex :: "'a crypto_prims_scheme \<Rightarrow> string \<Rightarrow> crypto_error + address" where
  "address_from_hex P s =
     and_then (map_err InvalidHex (hex_decode P (strip_0x s))) (\<lambda>bs.
       if length bs \<noteq> 20 then Err (InvalidKeyLength 20 (length bs))
       else Ok (from_be_bytes bs))"

definition is_zero :: "address \<Rightarrow> bool" where
  "is_zero a \<longleftrightarrow> a = 0"

section \<open>keypair.rs\<close>

record key_pair =
  signing_key :: secret_key

definition keypair_from_bytes :: "secret_key \<Rightarrow> crypto_error + key_pair" where
  "keypair_from_bytes b = Ok \<lparr>signing_key = b\<rparr>"

definition keypair_public_key :: "'a crypto_prims_scheme \<Rightarrow> key_pair \<Rightarrow> public_key" where
  "keypair_public_key P kp = ed_verifying_key P (signing_key kp)"

definition sign :: "'a crypto_prims_scheme \<Rightarrow> key_pair \<Rightarrow> bytes \<Rightarrow> signature" where
  "sign P kp m = ed_sign P (signing_key kp) m"

definition secret_bytes :: "key_pair \<Rightarrow> secret_key" where
  "secret_bytes kp = signing_key kp"

definition verify :: "'a crypto_prims_scheme \<Rightarrow> public_key \<Rightarrow> bytes \<Rightarrow> signature \<Rightarrow> crypto_error + unit" where
  "verify P pk m sig =
     (if \<not> ed_key_valid P pk then Err InvalidSignature
      else if ed_verify P pk m sig then Ok () else Err InvalidSignature)"

definition to_address :: "'a crypto_prims_scheme \<Rightarrow> public_key \<Rightarrow> address" where
  "to_address P pk = from_be_bytes (take 20 (to_be_bytes (hash P (to_be_bytes pk))))"

definition keypair_address :: "'a crypto_prims_scheme \<Rightarrow> key_pair \<Rightarrow> address" where
  "keypair_address P kp = to_address P (keypair_public_key P kp)"

definition public_key_to_hex :: "'a crypto_prims_scheme \<Rightarrow> public_key \<Rightarrow> string" where
  "public_key_to_hex P pk = hex_encode P (to_be_bytes pk)"

definition public_key_from_hex :: "'a crypto_prims_scheme \<Rightarrow> string \<Rightarrow> crypto_error + public_key" where
  "public_key_from_hex P s =
     and_then (map_err InvalidHex (hex_decode P (strip_0x s))) (\<lambda>bs.
       if length bs \<noteq> 32 then Err (InvalidKeyLength 32 (length bs))
       else Ok (from_be_bytes bs))"

definition signature_to_hex :: "'a crypto_prims_scheme \<Rightarrow> signature \<Rightarrow> string" where
  "signature_to_hex P sig = hex_encode P (to_be_bytes sig)"

definition signature_from_hex :: "'a crypto_prims_scheme \<Rightarrow> string \<Rightarrow> crypto_error + signature" where
  "signature_from_hex P s =
     and_then (map_err InvalidHex (hex_decode P (strip_0x s))) (\<lambda>bs.
       if length bs \<noteq> 64 then Err (InvalidKeyLength 64 (length bs))
       else Ok (from_be_bytes bs))"

abbreviation signature_default :: signature where "signature_default \<equiv> 0"

section \<open>An instance of the parameters\<close>

text \<open>
  A concrete value of the parameter, on which witnesses evaluate the model: a polynomial
  checksum for Blake3, a keyed checksum for the signature scheme, and the hexadecimal
  encoding itself.
\<close>

definition checksum :: "bytes \<Rightarrow> blake3hash" where
  "checksum bs = foldl (\<lambda>h b. 257 * h + ucast b + 1) 0 bs"

definition hex_digit :: "nat \<Rightarrow> char" where
  "hex_digit n = ''0123456789abcdef'' ! n"

definition hex_value :: "char \<Rightarrow> nat" where
  "hex_value c = (if of_char c < (58 :: nat) then of_char c - 48 else of_char c - 87)"

definition hex_bytes :: "bytes \<Rightarrow> string" where
  "hex_bytes bs = concat (map (\<lambda>b. [hex_digit (unat b div 16), hex_digit (unat b mod 16)]) bs)"

fun unhex_bytes :: "string \<Rightarrow> string + bytes" where
  "unhex_bytes [] = Ok []"
| "unhex_bytes [c] = Err ''Odd number of digits''"
| "unhex_bytes (c # d # s) =
     (if c \<in> hex_digits \<and> d \<in> hex_digits
      then map_ok (\<lambda>bs. of_nat (16 * hex_value c + hex_value d) # bs) (unhex_bytes s)
      else Err ''Invalid character'')"

definition example_prims :: crypto_prims where
  "example_prims = \<lparr>blake3 = checksum, ed_verifying_key = (\<lambda>sk. sk),
     ed_sign = (\<lambda>sk m. ucast (checksum (to_be_bytes sk @ m))), ed_key_valid = (\<lambda>pk. True),
     ed_verify = (\<lambda>pk m sig. sig = ucast (checksum (to_be_bytes pk @ m))),
     hex_encode = hex_bytes, hex_decode = unhex_bytes\<rparr>"

section \<open>Byte arrays\<close>

interpretation addr20: fixed_codec "to_be_bytes :: address \<Rightarrow> bytes" from_be_bytes 20
  by (rule be_codec) simp_all

interpretation hash32: fixed_codec "to_be_bytes :: blake3hash \<Rightarrow> bytes" from_be_bytes 32
  by (rule be_codec) simp_all

interpretation sig64: fixed_codec "to_be_bytes :: signature \<Rightarrow> bytes" from_be_bytes 64
  by (rule be_codec) simp_all

lemmas [codec_simps] =
  addr20.dec_enc hash32.dec_enc sig64.dec_enc
  addr20.enc_inject hash32.enc_inject sig64.enc_inject
  addr20.enc_append_inject hash32.enc_append_inject sig64.enc_append_inject

section \<open>Framing\<close>

lemma frame_items_Cons:
  "frame_items (x # xs) = to_le_bytes (of_nat (length x) :: u64) @ x @ frame_items xs"
  by (simp add: frame_items_def)

lemma frame_items_Nil [simp]: "frame_items [] = []"
  by (simp add: frame_items_def)

lemma frame_items_Cons_nonempty: "frame_items (x # xs) \<noteq> []"
proof -
  have "length (frame_items (x # xs)) \<noteq> 0" by (simp only: frame_items_Cons length_append) simp
  then show ?thesis by simp
qed

lemma frame_item_len:
  fixes x y :: bytes
  assumes "length x < 2 ^ 64" "length y < 2 ^ 64"
  shows "(of_nat (length x) :: u64) = of_nat (length y) \<longleftrightarrow> length x = length y"
proof -
  have "unat (of_nat (length z) :: u64) = length z" if "length z < 2 ^ 64" for z :: bytes
    using that by (simp add: unat_of_nat)
  then show ?thesis using assms by metis
qed

lemma frame_items_inject:
  assumes "encodable xs" "encodable ys"
  shows "frame_items xs = frame_items ys \<longleftrightarrow> xs = ys"
  using assms
proof (induction xs arbitrary: ys)
  case Nil
  then show ?case by (cases ys) (simp_all add: frame_items_Cons_nonempty [symmetric])
next
  case (Cons x xs)
  show ?case
  proof (cases ys)
    case Nil
    then show ?thesis by (simp add: frame_items_Cons_nonempty)
  next
    case (Cons y ys')
    then have "length x < 2 ^ 64" "length y < 2 ^ 64" "encodable xs" "encodable ys'"
      using Cons.prems by (simp_all add: encodable_def)
    then show ?thesis using Cons Cons.IH [of ys']
      by (auto simp: frame_items_Cons codec_simps frame_item_len)
  qed
qed

lemma hash_multiple_inject:
  assumes "inj_on (blake3 P) {frame_items xs, frame_items ys}" "encodable xs" "encodable ys"
  shows "hash_multiple P xs = hash_multiple P ys \<longleftrightarrow> xs = ys"
  using assms frame_items_inject [of xs ys] by (auto simp: hash_multiple_def inj_on_def)

section \<open>Signatures and textual forms\<close>

lemma verify_sign: "ed25519_correct P \<Longrightarrow> verify P (keypair_public_key P kp) m (sign P kp m) = Ok ()"
  by (simp add: ed25519_correct_def verify_def keypair_public_key_def sign_def)

lemma verify_eq_Ok:
  "verify P pk m sig = Ok u \<longleftrightarrow> ed_key_valid P pk \<and> ed_verify P pk m sig"
  by (simp add: verify_def)

lemma verify_error: "verify P pk m sig = Err e \<Longrightarrow> e = InvalidSignature"
  by (auto simp: verify_def split: if_splits)

text \<open>The digits that \<open>hex::encode\<close> writes contain no \<open>x\<close>, so no prefix is stripped from them.\<close>

lemma strip_0x_hex:
  assumes "set s \<subseteq> hex_digits"
  shows "strip_0x s = s"
proof -
  have "CHR ''x'' \<notin> hex_digits" by (simp add: hex_digits_def)
  then have "CHR ''x'' \<notin> set (take 2 s)" using assms set_take_subset [of 2 s] by blast
  then have "take 2 s \<noteq> ''0x''" by (metis list.set_intros(1) list.set_intros(2))
  then show ?thesis by (simp add: strip_0x_def)
qed

lemma strip_0x_prefixed [simp]: "strip_0x (CHR ''0'' # CHR ''x'' # s) = s"
  by (simp add: strip_0x_def)

lemma hex_roundtrips:
  assumes "hex_correct P"
  shows hash_hex_roundtrip: "hash_from_hex P (hash_to_hex P h) = Ok h"
    and hash_display_roundtrip: "hash_from_hex P (hash_display P h) = Ok h"
    and address_hex_roundtrip: "address_from_hex P (address_to_hex P a) = Ok a"
    and public_key_hex_roundtrip: "public_key_from_hex P (public_key_to_hex P pk) = Ok pk"
    and signature_hex_roundtrip: "signature_from_hex P (signature_to_hex P sig) = Ok sig"
proof -
  have dec: "hex_decode P (hex_encode P bs) = Ok bs" "strip_0x (hex_encode P bs) = hex_encode P bs" for bs
    using assms by (simp_all add: hex_correct_def strip_0x_hex)
  show "hash_from_hex P (hash_to_hex P h) = Ok h"
    by (simp add: hash_from_hex_def hash_to_hex_def dec codec_simps)
  show "hash_from_hex P (hash_display P h) = Ok h"
    by (simp add: hash_from_hex_def hash_display_def hash_to_hex_def dec codec_simps)
  show "address_from_hex P (address_to_hex P a) = Ok a"
    by (simp add: address_from_hex_def address_to_hex_def dec codec_simps)
  show "public_key_from_hex P (public_key_to_hex P pk) = Ok pk"
    by (simp add: public_key_from_hex_def public_key_to_hex_def dec codec_simps)
  show "signature_from_hex P (signature_to_hex P sig) = Ok sig"
    by (simp add: signature_from_hex_def signature_to_hex_def dec codec_simps)
qed

lemma address_to_hex_inject:
  assumes "hex_correct P" "address_to_hex P a = address_to_hex P b"
  shows "a = b"
  using address_hex_roundtrip [OF assms(1)] assms(2) by (metis sum.inject(2))

section \<open>The instance satisfies the laws\<close>

lemma hex_digit_props:
  assumes "n < 16"
  shows "hex_value (hex_digit n) = n" "hex_digit n \<in> hex_digits"
proof -
  have "\<forall>n\<in>{..<16}. hex_value (hex_digit n) = n \<and> hex_digit n \<in> hex_digits"
    by (simp add: lessThan_nat_numeral hex_value_def hex_digit_def hex_digits_def)
  then show "hex_value (hex_digit n) = n" "hex_digit n \<in> hex_digits" using assms by simp_all
qed

lemma unhex_hex_bytes: "unhex_bytes (hex_bytes bs) = Ok bs"
proof (induction bs)
  case (Cons b bs)
  have b: "unat b div 16 < 16" using unat_le_max [of b] by simp
  have "16 * (unat b div 16) + unat b mod 16 = unat b" by simp
  with Cons.IH b show ?case by (simp add: hex_bytes_def hex_digit_props)
qed (simp add: hex_bytes_def)

lemma hex_bytes_digits: "set (hex_bytes bs) \<subseteq> hex_digits"
proof (induction bs)
  case (Cons b bs)
  have "unat b div 16 < 16" using unat_le_max [of b] by simp
  with Cons.IH show ?case by (simp add: hex_bytes_def hex_digit_props)
qed (simp add: hex_bytes_def)

lemma length_hex_bytes: "length (hex_bytes bs) = 2 * length bs"
  by (induction bs) (simp_all add: hex_bytes_def)

lemma example_hex_correct: "hex_correct example_prims"
  by (simp add: hex_correct_def example_prims_def unhex_hex_bytes hex_bytes_digits length_hex_bytes)

lemma example_ed25519_correct: "ed25519_correct example_prims"
  by (simp add: ed25519_correct_def example_prims_def)

end
