(* ===== verification/Core_Types.thy ===== *)
theory Core_Types
  imports Crypto
begin

text \<open>
  The shared data of the crate \<open>crates/core\<close>: the numeric types and limits (\<open>types.rs\<close>),
  errors (\<open>error.rs\<close>), accounts (\<open>account.rs\<close>) and receipts (\<open>receipt.rs\<close>). Fields carry a
  prefix where several structs of the source use one name.
\<close>

section \<open>types.rs\<close>

type_synonym balance = u128
type_synonym nonce = u64
type_synonym gas = u64
type_synonym gas_price = u64
type_synonym block_number = u64
type_synonym epoch_number = u64
type_synonym timestamp = u64
type_synonym chain_id = u64

definition MAX_EXTRA_DATA_SIZE :: nat where "MAX_EXTRA_DATA_SIZE = 256"
definition MAX_TRANSACTION_DATA_SIZE :: nat where "MAX_TRANSACTION_DATA_SIZE = 512 * 1024"
definition MAX_BLOCK_TRANSACTIONS :: nat where "MAX_BLOCK_TRANSACTIONS = 10000"
definition PROTOCOL_VERSION :: u32 where "PROTOCOL_VERSION = 1"

section \<open>error.rs\<close>

datatype core_error =
    InvalidBlock string
  | InvalidTransaction string
  | CoreInvalidSignature crypto_error
  | InsufficientBalance u128 u128
  | InvalidNonce u64 u64
  | GasLimitExceeded u64 u64
  | DataTooLarge nat nat
  | GenesisError string
  | ConfigError string
  | CoreSerialization string
  | ChainIdMismatch u64 u64

definition core_error_to_string :: "core_error \<Rightarrow> string" where
  "core_error_to_string e = (case e of
      InvalidBlock s \<Rightarrow> ''invalid block: '' @ s
    | InvalidTransaction s \<Rightarrow> ''invalid transaction: '' @ s
    | CoreInvalidSignature ce \<Rightarrow> ''invalid signature: '' @ crypto_error_to_string ce
    | InsufficientBalance have need \<Rightarrow>
        ''insufficient balance: have '' @ show_word have @ '', need '' @ show_word need
    | InvalidNonce ex got \<Rightarrow> ''invalid nonce: expected '' @ show_word ex @ '', got '' @ show_word got
    | GasLimitExceeded limit used \<Rightarrow>
        ''gas limit exceeded: limit '' @ show_word limit @ '', used '' @ show_word used
    | DataTooLarge mx got \<Rightarrow> ''data too large: max '' @ show_nat mx @ '', got '' @ show_nat got
    | GenesisError s \<Rightarrow> ''genesis error: '' @ s
    | ConfigError s \<Rightarrow> ''config error: '' @ s
    | CoreSerialization s \<Rightarrow> ''serialization error: '' @ s
    | ChainIdMismatch ex got \<Rightarrow>
        ''chain id mismatch: expected '' @ show_word ex @ '', got '' @ show_word got)"

section \<open>account.rs\<close>

record account =
  acc_address :: address
  acc_balance :: balance
  acc_nonce :: nonce
  acc_code_hash :: "blake3hash option"
  acc_storage_root :: blake3hash

definition account_new :: "address \<Rightarrow> balance \<Rightarrow> account" where
  "account_new a b = \<lparr>acc_address = a, acc_balance = b, acc_nonce = 0, acc_code_hash = None,
     acc_storage_root = hash_ZERO\<rparr>"

definition account_new_contract :: "address \<Rightarrow> balance \<Rightarrow> blake3hash \<Rightarrow> account" where
  "account_new_contract a b h = \<lparr>acc_address = a, acc_balance = b, acc_nonce = 0,
     acc_code_hash = Some h, acc_storage_root = hash_ZERO\<rparr>"

definition is_contract :: "account \<Rightarrow> bool" where
  "is_contract acc \<longleftrightarrow> acc_code_hash acc \<noteq> None"

definition has_sufficient_balance :: "account \<Rightarrow> balance \<Rightarrow> bool" where
  "has_sufficient_balance acc amount \<longleftrightarrow> acc_balance acc \<ge> amount"

definition increment_nonce :: "account \<Rightarrow> account" where
  "increment_nonce acc = acc\<lparr>acc_nonce := acc_nonce acc + 1\<rparr>"

definition account_default :: account where
  "account_default = \<lparr>acc_address = address_ZERO, acc_balance = 0, acc_nonce = 0,
     acc_code_hash = None, acc_storage_root = hash_ZERO\<rparr>"

section \<open>receipt.rs\<close>

datatype tx_status = Success | Failure string | OutOfGas

record event_log =
  ev_address :: address
  ev_topics :: "blake3hash list"
  ev_data :: bytes

record transaction_receipt =
  rc_tx_hash :: blake3hash
  rc_block_number :: block_number
  rc_block_hash :: blake3hash
  rc_index :: u32
  rc_status :: tx_status
  rc_gas_used :: gas
  rc_logs :: "event_log list"
  rc_contract_address :: "address option"
  rc_return_data :: bytes

definition is_success :: "transaction_receipt \<Rightarrow> bool" where
  "is_success r = (case rc_status r of Success \<Rightarrow> True | _ \<Rightarrow> False)"

lemma account_new_simps [simp]:
  "acc_balance (account_new a b) = b" "acc_nonce (account_new a b) = 0"
  "acc_address (account_new a b) = a" "acc_code_hash (account_new a b) = None"
  by (simp_all add: account_new_def)

end
