(* ===== verification/Transaction.thy ===== *)
theory Transaction
  imports Core_Types
begin

text \<open>
  Transactions (\<open>crates/core/src/transaction.rs\<close>): their data, basic validation, costs,
  signing and verification. \<open>bincode::serialize\<close> is the parameter \<open>ser_transaction\<close>.

  Shown: verification accepts exactly the well-formed transactions whose public key hashes
  to the sender and whose signature is valid for the signing hash; what \<open>new\<close> signs verifies;
  the gas cost cannot overflow its type; \<open>verify\<close> never looks at the field \<open>tx_hash\<close>.
\<close>

datatype tx_type = Transfer | ContractDeploy | ContractCall | Stake | Unstake

record transaction =
  tx_chain_id :: chain_id
  tx_nonce :: nonce
  tx_from :: address
  tx_to :: "address option"
  tx_value :: balance
  tx_type :: tx_type
  tx_gas_limit :: gas
  tx_gas_price :: gas_price
  tx_data :: bytes
  tx_timestamp :: timestamp

record signed_transaction =
  stx_transaction :: transaction
  stx_public_key :: public_key
  stx_signature :: signature
  stx_hash :: blake3hash

record tx_prims = crypto_prims +
  ser_transaction :: "transaction \<Rightarrow> bytes"

definition signing_hash :: "'a tx_prims_scheme \<Rightarrow> transaction \<Rightarrow> blake3hash" where
  "signing_hash P tx = hash P (ser_transaction P tx)"

definition validate_tx_type :: "transaction \<Rightarrow> core_error + unit" where
  "validate_tx_type tx = (case tx_type tx of
      Transfer \<Rightarrow>
        if tx_to tx = None then Err (InvalidTransaction ''transfer must have a recipient'') else Ok ()
    | ContractDeploy \<Rightarrow>
        if tx_to tx \<noteq> None then Err (InvalidTransaction ''contract deploy must not have a recipient'')
        else if tx_data tx = [] then Err (InvalidTransaction ''contract deploy must include bytecode'')
        else Ok ()
    | ContractCall \<Rightarrow>
        if tx_to tx = None then Err (InvalidTransaction ''contract call must have a target address'')
        else Ok ()
    | Stake \<Rightarrow>
        if tx_value tx = 0 then Err (InvalidTransaction ''stake amount must be > 0'') else Ok ()
    | Unstake \<Rightarrow>
        if tx_value tx = 0 then Err (InvalidTransaction ''unstake amount must be > 0'') else Ok ())"

definition tx_validate_basic :: "transaction \<Rightarrow> core_error + unit" where
  "tx_validate_basic tx =
     (if length (tx_data tx) > MAX_TRANSACTION_DATA_SIZE
      then Err (DataTooLarge MAX_TRANSACTION_DATA_SIZE (length (tx_data tx)))
      else if tx_gas_limit tx = 0 then Err (InvalidTransaction ''gas limit must be > 0'')
      else if tx_gas_price tx = 0 then Err (InvalidTransaction ''gas price must be > 0'')
      else validate_tx_type tx)"

definition max_gas_cost :: "transaction \<Rightarrow> balance" where
  "max_gas_cost tx = ucast (tx_gas_limit tx) * ucast (tx_gas_price tx)"

definition total_cost :: "transaction \<Rightarrow> balance" where
  "total_cost tx = tx_value tx + max_gas_cost tx"

definition signed_transaction_new :: "'a tx_prims_scheme \<Rightarrow> transaction \<Rightarrow> key_pair \<Rightarrow> signed_transaction" where
  "signed_transaction_new P tx kp =
     (let sig = sign P kp (to_be_bytes (signing_hash P tx))
      in \<lparr>stx_transaction = tx, stx_public_key = keypair_public_key P kp, stx_signature = sig,
          stx_hash = hash P (ser_transaction P tx @ to_be_bytes sig)\<rparr>)"

definition stx_verify :: "'a tx_prims_scheme \<Rightarrow> signed_transaction \<Rightarrow> core_error + unit" where
  "stx_verify P stx =
     and_then (tx_validate_basic (stx_transaction stx)) (\<lambda>_.
       if to_address P (stx_public_key stx) \<noteq> tx_from (stx_transaction stx)
       then Err (InvalidTransaction ''sender address does not match public key'')
       else map_err CoreInvalidSignature
         (verify P (stx_public_key stx) (to_be_bytes (signing_hash P (stx_transaction stx)))
            (stx_signature stx)))"

definition sender :: "signed_transaction \<Rightarrow> address" where
  "sender stx = tx_from (stx_transaction stx)"

text \<open>What basic validation demands, as a predicate.\<close>

definition tx_wf :: "transaction \<Rightarrow> bool" where
  "tx_wf tx \<longleftrightarrow> length (tx_data tx) \<le> 524288 \<and> tx_gas_limit tx \<noteq> 0 \<and> tx_gas_price tx \<noteq> 0 \<and>
     (case tx_type tx of
        Transfer \<Rightarrow> tx_to tx \<noteq> None
      | ContractDeploy \<Rightarrow> tx_to tx = None \<and> tx_data tx \<noteq> []
      | ContractCall \<Rightarrow> tx_to tx \<noteq> None
      | _ \<Rightarrow> tx_value tx \<noteq> 0)"

definition example_tx_prims :: tx_prims where
  "example_tx_prims = crypto_prims.extend example_prims
     \<lparr>ser_transaction = (\<lambda>tx. to_be_bytes (tx_from tx) @ to_le_bytes (tx_nonce tx))\<rparr>"

section \<open>Validation\<close>

lemma tx_validate_basic_iff: "tx_validate_basic tx = Ok u \<longleftrightarrow> tx_wf tx"
  by (cases "tx_type tx")
    (auto simp: tx_validate_basic_def validate_tx_type_def tx_wf_def MAX_TRANSACTION_DATA_SIZE_def)

lemma stx_verify_iff:
  "stx_verify P stx = Ok u \<longleftrightarrow>
     tx_wf (stx_transaction stx) \<and> to_address P (stx_public_key stx) = tx_from (stx_transaction stx) \<and>
     ed_key_valid P (stx_public_key stx) \<and>
     ed_verify P (stx_public_key stx) (to_be_bytes (signing_hash P (stx_transaction stx))) (stx_signature stx)"
  by (auto simp: stx_verify_def result_simps tx_validate_basic_iff verify_eq_Ok)

lemma stx_verify_new:
  assumes "ed25519_correct P" "tx_wf tx" "tx_from tx = keypair_address P kp"
  shows "stx_verify P (signed_transaction_new P tx kp) = Ok ()"
  using assms verify_sign [of P kp]
  by (simp add: stx_verify_def signed_transaction_new_def Let_def keypair_address_def
      tx_validate_basic_iff [THEN iffD2, of _ "()"])

text \<open>
  Signing round trip. A well-formed transaction signed with the key pair of its sender
  verifies, given that Ed25519 verifies its own signatures; it keeps the transaction and
  names its sender.
\<close>

theorem signed_transaction_new_verifies:
  assumes "ed25519_correct P" "tx_wf tx" "tx_from tx = keypair_address P kp"
  shows "stx_verify P (signed_transaction_new P tx kp) = Ok () \<and>
    stx_transaction (signed_transaction_new P tx kp) = tx \<and>
    sender (signed_transaction_new P tx kp) = keypair_address P kp"
  using assms stx_verify_new [OF assms]
  by (simp add: sender_def) (simp add: signed_transaction_new_def Let_def)

text \<open>The field \<open>tx_hash\<close> is not covered by verification: any value is accepted.\<close>

lemma stx_verify_ignores_hash: "stx_verify P (stx\<lparr>stx_hash := h\<rparr>) = stx_verify P stx"
  by (simp add: stx_verify_def)

section \<open>Costs\<close>

lemma unat_ucast_u128 [simp]: "unat (ucast (w :: u64) :: u128) = unat w"
proof -
  have "unat w < 2 ^ 128" using unat_le_max [of w] by simp
  then show ?thesis by (simp add: unsigned_ucast_eq take_bit_nat_eq_self)
qed

lemma unat_max_gas_cost [simp]: "unat (max_gas_cost tx) = unat (tx_gas_limit tx) * unat (tx_gas_price tx)"
proof -
  have "unat (tx_gas_limit tx) \<le> 2 ^ 64 - 1" "unat (tx_gas_price tx) \<le> 2 ^ 64 - 1"
    using unat_le_max [of "tx_gas_limit tx"] unat_le_max [of "tx_gas_price tx"] by simp_all
  then have "unat (tx_gas_limit tx) * unat (tx_gas_price tx) \<le> (2 ^ 64 - 1) * (2 ^ 64 - 1)"
    by (rule mult_le_mono)
  then show ?thesis unfolding max_gas_cost_def by (subst unat_mult_nowrap) simp_all
qed

lemma unat_total_cost:
  "unat (tx_value tx) + unat (tx_gas_limit tx) * unat (tx_gas_price tx) < 2 ^ 128 \<Longrightarrow>
   unat (total_cost tx) = unat (tx_value tx) + unat (tx_gas_limit tx) * unat (tx_gas_price tx)"
  unfolding total_cost_def by (subst unat_add_nowrap) simp_all

section \<open>Witnesses\<close>

definition example_kp :: key_pair where "example_kp = \<lparr>signing_key = 7\<rparr>"

definition example_tx :: transaction where
  "example_tx = \<lparr>tx_chain_id = 1, tx_nonce = 0, tx_from = keypair_address example_tx_prims example_kp,
     tx_to = Some 5, tx_value = 1000, tx_type = Transfer, tx_gas_limit = 21000, tx_gas_price = 1,
     tx_data = [], tx_timestamp = 1000\<rparr>"

lemma example_tx_ed25519: "ed25519_correct example_tx_prims"
  by (simp add: ed25519_correct_def example_tx_prims_def example_prims_def crypto_prims.defs)

lemma example_tx_wf: "tx_wf (example_tx\<lparr>tx_value := v\<rparr>)"
  by (simp add: example_tx_def tx_wf_def)

theorem signed_transaction_new_verifies_witness:
  "stx_verify example_tx_prims (signed_transaction_new example_tx_prims example_tx example_kp) = Ok ()"
  using signed_transaction_new_verifies [OF example_tx_ed25519, of example_tx example_kp]
    example_tx_wf [of 1000]
  by (simp add: example_tx_def)

end
