(* ===== verification/Merkle.thy ===== *)
theory Merkle
  imports Crypto
begin

text \<open>
  The Merkle tree of \<open>crates/crypto/src/merkle.rs\<close>: construction, root, inclusion proofs and
  their verification. The loops over layers are recursions; indices (\<open>usize\<close>) are naturals,
  since they stay below the length of an allocated vector.

  Shown: every leaf of a tree has a proof that verifies against its root; a proof of the
  height of the tree that verifies is about one of its leaves; two leaf lists of one length
  with one root are equal. The last two hold where Blake3 has no collision among the
  finitely many inputs that are hashed. Leaf lists of different lengths may share a root
  (\<open>merkle_root_duplicate\<close>), because an odd layer is completed with a copy of its last node.
\<close>

section \<open>Construction\<close>

datatype position = Left | Right

record merkle_tree =
  leaves :: "blake3hash list"
  layers :: "blake3hash list list"

record merkle_proof =
  leaf :: blake3hash
  siblings :: "(blake3hash \<times> position) list"

definition hash_pair :: "'a crypto_prims_scheme \<Rightarrow> blake3hash \<Rightarrow> blake3hash \<Rightarrow> blake3hash" where
  "hash_pair P a b = hash_multiple P [to_be_bytes a, to_be_bytes b]"

definition pad_odd :: "blake3hash list \<Rightarrow> blake3hash list" where
  "pad_odd current = (if \<not> 2 dvd length current then current @ [last current] else current)"

text \<open>The loop over \<open>chunks(2)\<close>; it runs on a padded layer, so no chunk has one element.\<close>

fun hash_pairs :: "'a crypto_prims_scheme \<Rightarrow> blake3hash list \<Rightarrow> blake3hash list" where
  "hash_pairs P (a # b # rest) = hash_pair P a b # hash_pairs P rest"
| "hash_pairs P _ = []"

definition next_layer :: "'a crypto_prims_scheme \<Rightarrow> blake3hash list \<Rightarrow> blake3hash list" where
  "next_layer P current = hash_pairs P (pad_odd current)"

lemma length_hash_pairs [simp]: "length (hash_pairs P xs) = length xs div 2"
  by (induction P xs rule: hash_pairs.induct) simp_all

lemma length_next_layer: "length (next_layer P current) = (length current + 1) div 2"
  by (simp add: next_layer_def pad_odd_def)

text \<open>The layers that the \<open>while current.len() > 1\<close> loop pushes.\<close>

function merkle_loop :: "'a crypto_prims_scheme \<Rightarrow> blake3hash list \<Rightarrow> blake3hash list list" where
  "merkle_loop P current =
     (if 1 < length current
      then next_layer P current # merkle_loop P (next_layer P current)
      else [])"
  by auto
termination
  by (relation "measure (\<lambda>(P, current). length current)") (auto simp: length_next_layer)

declare merkle_loop.simps [simp del]

definition merkle_tree_new :: "'a crypto_prims_scheme \<Rightarrow> blake3hash list \<Rightarrow> merkle_tree" where
  "merkle_tree_new P ls =
     (if ls = [] then \<lparr>leaves = [], layers = [[hash_ZERO]]\<rparr>
      else \<lparr>leaves = ls, layers = ls # merkle_loop P ls\<rparr>)"

definition merkle_root :: "merkle_tree \<Rightarrow> blake3hash" where
  "merkle_root t =
     (case rev (layers t) of [] \<Rightarrow> hash_ZERO
      | l # _ \<Rightarrow> (case l of [] \<Rightarrow> hash_ZERO | h # _ \<Rightarrow> h))"

fun proof_siblings :: "blake3hash list list \<Rightarrow> nat \<Rightarrow> (blake3hash \<times> position) list" where
  "proof_siblings [] idx = []"
| "proof_siblings (layer # rest) idx =
     (let sibling_idx = min (if 2 dvd idx then idx + 1 else idx - 1) (length layer - 1)
      in (layer ! sibling_idx, if 2 dvd idx then Right else Left) # proof_siblings rest (idx div 2))"

definition merkle_proof_of :: "merkle_tree \<Rightarrow> nat \<Rightarrow> merkle_proof option" where
  "merkle_proof_of t index =
     (if length (leaves t) \<le> index then None
      else Some \<lparr>leaf = leaves t ! index, siblings = proof_siblings (butlast (layers t)) index\<rparr>)"

fun climb :: "'a crypto_prims_scheme \<Rightarrow> blake3hash \<Rightarrow> (blake3hash \<times> position) list \<Rightarrow> blake3hash" where
  "climb P current [] = current"
| "climb P current ((sibling, pos) # rest) =
     climb P (case pos of Left \<Rightarrow> hash_pair P sibling current | Right \<Rightarrow> hash_pair P current sibling) rest"

definition verify_proof :: "'a crypto_prims_scheme \<Rightarrow> blake3hash \<Rightarrow> merkle_proof \<Rightarrow> bool" where
  "verify_proof P rt pf \<longleftrightarrow> climb P (leaf pf) (siblings pf) = rt"

definition leaf_count :: "merkle_tree \<Rightarrow> nat" where
  "leaf_count t = length (leaves t)"

definition compute_merkle_root :: "'a crypto_prims_scheme \<Rightarrow> bytes list \<Rightarrow> blake3hash" where
  "compute_merkle_root P items = merkle_root (merkle_tree_new P (map (hash P) items))"

text \<open>The inputs that Blake3 is run on: when a tree is built, and when a proof is verified.\<close>

definition pair_input :: "blake3hash \<Rightarrow> blake3hash \<Rightarrow> bytes" where
  "pair_input a b = frame_items [to_be_bytes a, to_be_bytes b]"

fun pair_inputs :: "blake3hash list \<Rightarrow> bytes list" where
  "pair_inputs (a # b # rest) = pair_input a b # pair_inputs rest"
| "pair_inputs _ = []"

function tree_inputs :: "'a crypto_prims_scheme \<Rightarrow> blake3hash list \<Rightarrow> bytes list" where
  "tree_inputs P current =
     (if 1 < length current
      then pair_inputs (pad_odd current) @ tree_inputs P (next_layer P current) else [])"
  by auto
termination
  by (relation "measure (\<lambda>(P, current). length current)") (auto simp: length_next_layer)

declare tree_inputs.simps [simp del]


section \<open>Layers\<close>

lemma pad_odd_even: "2 dvd length (pad_odd xs)"
  by (simp add: pad_odd_def)


lemma pad_odd_inject: "length xs = length ys \<Longrightarrow> pad_odd xs = pad_odd ys \<Longrightarrow> xs = ys"
  by (auto simp: pad_odd_def split: if_splits)

lemma nth_hash_pairs:
  "2 * k + 1 < length xs \<Longrightarrow> hash_pairs P xs ! k = hash_pair P (xs ! (2 * k)) (xs ! (2 * k + 1))"
proof (induction P xs arbitrary: k rule: hash_pairs.induct)
  case (1 P a b rest)
  then show ?case by (cases k) simp_all
qed simp_all

lemma pair_input_inject: "pair_input a b = pair_input c d \<longleftrightarrow> a = c \<and> b = d"
proof -
  have "encodable [to_be_bytes (x :: blake3hash), to_be_bytes (y :: blake3hash)]" for x y
    by (simp add: encodable_def)
  then show ?thesis by (simp add: pair_input_def frame_items_inject codec_simps)
qed

lemma hash_pair_blake3: "hash_pair P a b = blake3 P (pair_input a b)"
  by (simp add: hash_pair_def hash_multiple_def pair_input_def)

lemma hash_pair_inject:
  assumes "inj_on (blake3 P) S" "pair_input a b \<in> S" "pair_input c d \<in> S"
  shows "hash_pair P a b = hash_pair P c d \<longleftrightarrow> a = c \<and> b = d"
  unfolding hash_pair_blake3 inj_on_eq_iff [OF assms] by (rule pair_input_inject)

lemma hash_pairs_inject:
  assumes "inj_on (blake3 P) (set (pair_inputs xs) \<union> set (pair_inputs ys))"
    and "2 dvd length xs" "length xs = length ys" "hash_pairs P xs = hash_pairs P ys"
  shows "xs = ys"
  using assms
proof (induction P xs arbitrary: ys rule: hash_pairs.induct)
  case (1 P a b rest)
  then obtain c d rest' where ys: "ys = c # d # rest'"
    by (auto simp: length_Suc_conv Suc_length_conv)
  with "1.prems" have "hash_pair P a b = hash_pair P c d" by simp
  with "1.prems"(1) have "a = c \<and> b = d"
    unfolding ys by (subst (asm) hash_pair_inject [OF "1.prems"(1)]) (simp_all add: ys)
  moreover have "rest = rest'"
    using "1.prems" ys by (intro "1.IH") (auto intro: inj_on_subset)
  ultimately show ?case by (simp add: ys)
qed auto


text \<open>The root of a tree, read off the last layer that the loop makes.\<close>

definition loop_root :: "'a crypto_prims_scheme \<Rightarrow> blake3hash list \<Rightarrow> blake3hash" where
  "loop_root P current = hd (last (current # merkle_loop P current))"

lemma loop_root_step: "1 < length xs \<Longrightarrow> loop_root P xs = loop_root P (next_layer P xs)"
  by (simp add: loop_root_def merkle_loop.simps [of P xs])

lemma loop_root_single [simp]: "loop_root P [x] = x"
  by (simp add: loop_root_def merkle_loop.simps)

lemma next_layer_nonempty: "xs \<noteq> [] \<Longrightarrow> next_layer P xs \<noteq> []"
proof -
  assume "xs \<noteq> []"
  then have "0 < length (next_layer P xs)" by (cases xs) (simp_all add: length_next_layer)
  then show ?thesis by simp
qed

lemma last_layer_nonempty: "xs \<noteq> [] \<Longrightarrow> last (xs # merkle_loop P xs) \<noteq> []"
proof (induction P xs rule: merkle_loop.induct)
  case (1 P xs)
  then show ?case
    by (cases "1 < length xs") (simp_all add: merkle_loop.simps [of P xs] next_layer_nonempty)
qed

lemma merkle_root_new: "merkle_root (merkle_tree_new P ls) = (if ls = [] then 0 else loop_root P ls)"
proof (cases "ls = []")
  case False
  obtain l r where l: "rev (ls # merkle_loop P ls) = l # r" "l = last (ls # merkle_loop P ls)"
    by (metis Nil_is_rev_conv hd_rev list.distinct(1) list.exhaust_sel)
  have "l \<noteq> []" using last_layer_nonempty [OF False] l(2) by metis
  with False l show ?thesis
    by (auto simp: merkle_root_def merkle_tree_new_def loop_root_def neq_Nil_conv
        simp del: last.simps rev.simps split: list.split)
qed (simp add: merkle_root_def merkle_tree_new_def)

section \<open>Proofs\<close>

lemma pad_odd_sibling:
  assumes "idx < length xs"
  shows "pad_odd xs ! idx = xs ! idx"
    and "2 dvd idx \<Longrightarrow> pad_odd xs ! (idx + 1) = xs ! min (idx + 1) (length xs - 1)"
proof -
  show "pad_odd xs ! idx = xs ! idx" using assms by (simp add: pad_odd_def nth_append)
  assume even: "2 dvd idx"
  show "pad_odd xs ! (idx + 1) = xs ! min (idx + 1) (length xs - 1)"
  proof (cases "idx + 1 < length xs")
    case True
    then have "min (idx + 1) (length xs - 1) = idx + 1" by linarith
    with True show ?thesis by (simp add: pad_odd_def nth_append)
  next
    case False
    with assms have len: "length xs = idx + 1" by simp
    then have "last xs = xs ! idx" using last_conv_nth [of xs] by fastforce
    with len even show ?thesis by (simp add: pad_odd_def nth_append min_def)
  qed
qed

text \<open>One step of a proof computes the parent of the node it starts from.\<close>

lemma climb_step:
  assumes "idx < length xs" "1 < length xs"
  shows "climb P (xs ! idx) (proof_siblings (xs # rest) idx) =
         climb P (next_layer P xs ! (idx div 2)) (proof_siblings rest (idx div 2))"
proof -
  have len: "2 * (idx div 2) + 1 < length (pad_odd xs)"
    using assms pad_odd_even [of xs] by (auto simp: pad_odd_def) presburger+
  show ?thesis
  proof (cases "2 dvd idx")
    case True
    then have "2 * (idx div 2) = idx" by simp
    with len True show ?thesis
      using pad_odd_sibling [OF assms(1)]
      by (simp add: next_layer_def nth_hash_pairs Let_def)
  next
    case False
    then have odd: "2 * (idx div 2) = idx - 1" "2 * (idx div 2) + 1 = idx" by presburger+
    have "min (idx - 1) (length xs - 1) = idx - 1" using assms by simp
    moreover have "pad_odd xs ! (idx - 1) = xs ! (idx - 1)" "pad_odd xs ! idx = xs ! idx"
      using assms by (simp_all add: pad_odd_sibling)
    ultimately show ?thesis
      using nth_hash_pairs [OF len, of P] False unfolding odd
      by (simp add: next_layer_def Let_def)
  qed
qed

lemma climb_proof_siblings:
  "idx < length xs \<Longrightarrow>
   climb P (xs ! idx) (proof_siblings (butlast (xs # merkle_loop P xs)) idx) = loop_root P xs"
proof (induction P xs arbitrary: idx rule: merkle_loop.induct)
  case (1 P xs)
  show ?case
  proof (cases "1 < length xs")
    case True
    have "idx div 2 < length (next_layer P xs)"
      using "1.prems" by (simp add: length_next_layer)
    moreover have "butlast (xs # merkle_loop P xs) =
        xs # butlast (next_layer P xs # merkle_loop P (next_layer P xs))"
      using True by (simp add: merkle_loop.simps [of P xs])
    ultimately show ?thesis
      using "1.IH" [OF True] by (simp only: climb_step [OF "1.prems" True] loop_root_step [OF True])
  next
    case False
    with "1.prems" obtain x where "xs = [x]" "idx = 0"
      by (cases xs) auto
    then show ?thesis by (simp add: merkle_loop.simps)
  qed
qed

text \<open>
  C21 (completeness of Merkle proofs). For every leaf of a tree, \<open>proof\<close> returns a proof of
  that leaf, and \<open>verify_proof\<close> accepts it against the root of the tree.
\<close>

theorem merkle_proof_complete:
  assumes "index < length ls"
  shows "\<exists>pf. merkle_proof_of (merkle_tree_new P ls) index = Some pf \<and> leaf pf = ls ! index \<and>
    verify_proof P (merkle_root (merkle_tree_new P ls)) pf"
proof -
  have ne: "ls \<noteq> []" using assms by auto
  show ?thesis
    using assms climb_proof_siblings [OF assms, of P] merkle_root_new [of P ls] ne
    by (simp add: merkle_proof_of_def merkle_tree_new_def verify_proof_def)
qed



section \<open>Roots\<close>

lemma loop_root_inject:
  assumes "xs \<noteq> []" "length xs = length ys" "loop_root P xs = loop_root P ys"
    "inj_on (blake3 P) (set (tree_inputs P xs) \<union> set (tree_inputs P ys))"
  shows "xs = ys"
  using assms
proof (induction P xs arbitrary: ys rule: merkle_loop.induct)
  case (1 P xs)
  show ?case
  proof (cases "1 < length xs")
    case True
    then have y: "1 < length ys" using "1.prems" by simp
    have "next_layer P xs = next_layer P ys"
      using "1.prems" True y
      by (intro "1.IH") (auto simp: next_layer_nonempty length_next_layer loop_root_step
          tree_inputs.simps [of P xs] tree_inputs.simps [of P ys] elim!: inj_on_subset)
    then have "hash_pairs P (pad_odd xs) = hash_pairs P (pad_odd ys)" by (simp only: next_layer_def)
    moreover have "inj_on (blake3 P) (set (pair_inputs (pad_odd xs)) \<union> set (pair_inputs (pad_odd ys)))"
      using "1.prems"(4) True y
      by (auto simp: tree_inputs.simps [of P xs] tree_inputs.simps [of P ys] elim!: inj_on_subset)
    moreover have "length (pad_odd xs) = length (pad_odd ys)"
      using "1.prems"(2) by (simp add: pad_odd_def)
    ultimately have "pad_odd xs = pad_odd ys"
      using pad_odd_even hash_pairs_inject by blast
    then show ?thesis by (rule pad_odd_inject [OF "1.prems"(2)])
  next
    case False
    with "1.prems" obtain x y where "xs = [x]" "ys = [y]"
      by (cases xs; cases ys) auto
    with "1.prems" show ?thesis by simp
  qed
qed

lemma merkle_root_inject:
  assumes "length xs = length ys"
    and "inj_on (blake3 P) (set (tree_inputs P xs) \<union> set (tree_inputs P ys))"
    and "merkle_root (merkle_tree_new P xs) = merkle_root (merkle_tree_new P ys)"
  shows "xs = ys"
proof (cases "xs = []")
  case False
  then have "ys \<noteq> []" using assms(1) by auto
  with False show ?thesis
    using assms(3) loop_root_inject [OF False assms(1) _ assms(2)] by (simp add: merkle_root_new)
qed (use assms in simp)

text \<open>
  The Merkle root binds the leaves. Two leaf lists of the same length have the same
  root exactly when they are equal, where Blake3 has no collision among the inputs hashed
  for them.
\<close>

theorem merkle_root_binding:
  assumes "length xs = length ys"
    and "inj_on (blake3 P) (set (tree_inputs P xs) \<union> set (tree_inputs P ys))"
  shows "merkle_root (merkle_tree_new P xs) = merkle_root (merkle_tree_new P ys) \<longleftrightarrow> xs = ys"
  using merkle_root_inject [OF assms] by auto

text \<open>Lists of different lengths: completing an odd layer collides with the completed list.\<close>

theorem merkle_root_duplicate:
  assumes "1 < length xs" "\<not> 2 dvd length xs"
  shows "merkle_root (merkle_tree_new P (xs @ [last xs])) = merkle_root (merkle_tree_new P xs)"
proof -
  have "next_layer P (xs @ [last xs]) = next_layer P xs"
    using assms by (simp add: next_layer_def pad_odd_def)
  then show ?thesis
    using assms by (auto simp: merkle_root_new loop_root_step [of xs] loop_root_step [of "xs @ [last xs]"])
qed

section \<open>Witnesses\<close>

text \<open>
  A tree of three leaves, with a hash that has no collision among the inputs of the tree.
\<close>

definition merkle_example_prims :: crypto_prims where
  "merkle_example_prims = example_prims\<lparr>blake3 := (\<lambda>bs.
     if bs = pair_input 1 2 then 11 else if bs = pair_input 3 3 then 12
     else if bs = pair_input 4 4 then 14 else if bs = pair_input 11 12 then 13 else 15)\<rparr>"

lemma merkle_example_simps:
  "hash_pair merkle_example_prims a b =
     (if a = 1 \<and> b = 2 then 11 else if a = 3 \<and> b = 3 then 12
      else if a = 4 \<and> b = 4 then 14 else if a = 11 \<and> b = 12 then 13 else 15)"
  "merkle_loop merkle_example_prims [1, 2, 3] = [[11, 12], [13]]"
  "tree_inputs merkle_example_prims [1, 2, 3] = [pair_input 1 2, pair_input 3 3, pair_input 11 12]"
  "tree_inputs merkle_example_prims [1, 2, 4] = [pair_input 1 2, pair_input 4 4, pair_input 11 14]"
proof -
  show h: "hash_pair merkle_example_prims a b =
     (if a = 1 \<and> b = 2 then 11 else if a = 3 \<and> b = 3 then 12
      else if a = 4 \<and> b = 4 then 14 else if a = 11 \<and> b = 12 then 13 else 15)" for a b
    by (simp add: hash_pair_blake3 merkle_example_prims_def pair_input_inject)
  show "merkle_loop merkle_example_prims [1, 2, 3] = [[11, 12], [13]]"
    by (simp add: merkle_loop.simps next_layer_def pad_odd_def h)
  show "tree_inputs merkle_example_prims [1, 2, 3] = [pair_input 1 2, pair_input 3 3, pair_input 11 12]"
    by (simp add: tree_inputs.simps next_layer_def pad_odd_def h)
  show "tree_inputs merkle_example_prims [1, 2, 4] = [pair_input 1 2, pair_input 4 4, pair_input 11 14]"
    by (simp add: tree_inputs.simps next_layer_def pad_odd_def h)
qed

theorem merkle_proof_complete_witness:
  "\<exists>pf. merkle_proof_of (merkle_tree_new merkle_example_prims [1, 2, 3]) 2 = Some pf \<and> leaf pf = 3 \<and>
    verify_proof merkle_example_prims 13 pf"
  using merkle_proof_complete [of 2 "[1, 2, 3]" merkle_example_prims]
  by (simp add: merkle_root_new loop_root_def merkle_example_simps)

lemma merkle_example_inj: "inj_on (blake3 merkle_example_prims)
    {pair_input 1 2, pair_input 3 3, pair_input 4 4, pair_input 11 12, pair_input 11 14}"
  by (simp add: inj_on_def merkle_example_prims_def pair_input_inject)


theorem merkle_root_binding_witness:
  "merkle_root (merkle_tree_new merkle_example_prims [1, 2, 3]) \<noteq>
   merkle_root (merkle_tree_new merkle_example_prims [1, 2, 4])"
proof -
  have "inj_on (blake3 merkle_example_prims) (set (tree_inputs merkle_example_prims [1, 2, 3]) \<union>
      set (tree_inputs merkle_example_prims [1, 2, 4]))"
    by (rule inj_on_subset [OF merkle_example_inj]) (auto simp: merkle_example_simps)
  then show ?thesis
    using merkle_root_binding [of "[1, 2, 3]" "[1, 2, 4]" merkle_example_prims] by simp
qed

theorem merkle_root_duplicate_witness:
  "merkle_root (merkle_tree_new merkle_example_prims [1, 2, 3, 3]) =
   merkle_root (merkle_tree_new merkle_example_prims [1, 2, 3]) \<and> [1, 2, 3, 3] \<noteq> [1, 2, 3 :: blake3hash]"
  using merkle_root_duplicate [of "[1, 2, 3]" merkle_example_prims] by simp

end
