(* ===== verification/Block.thy ===== *)
theory Block
  imports Transaction Merkle
begin

text \<open>
  Blocks (\<open>crates/core/src/block.rs\<close>): header hash, signing and verification of a header,
  the transactions root and the structural validation of a block. \<open>bincode::serialize\<close> of a
  header is the parameter \<open>ser_header\<close>.

  Shown: the header hash does not depend on the signature, so what \<open>sign\<close> signs verifies;
  \<open>validate_basic\<close> accepts exactly the blocks that satisfy the listed demands; the
  transactions root determines the hashes that the transactions carry, but not the
  transactions themselves.
\<close>

record block_header =
  bh_version :: u32
  bh_chain_id :: chain_id
  bh_number :: block_number
  bh_timestamp :: timestamp
  bh_parent_hash :: blake3hash
  bh_state_root :: blake3hash
  bh_transactions_root :: blake3hash
  bh_receipts_root :: blake3hash
  bh_validator :: address
  bh_validator_pubkey :: public_key
  bh_validator_signature :: signature
  bh_epoch :: epoch_number
  bh_gas_used :: gas
  bh_gas_limit :: gas
  bh_extra_data :: bytes

record block =
  bk_header :: block_header
  bk_transactions :: "signed_transaction list"

record block_prims = tx_prims +
  ser_header :: "block_header \<Rightarrow> bytes"

definition header_hash :: "'a block_prims_scheme \<Rightarrow> block_header \<Rightarrow> blake3hash" where
  "header_hash P h = hash P (ser_header P (h\<lparr>bh_validator_signature := signature_default\<rparr>))"

definition header_sign :: "'a block_prims_scheme \<Rightarrow> block_header \<Rightarrow> key_pair \<Rightarrow> block_header" where
  "header_sign P h kp = h\<lparr>bh_validator_signature := sign P kp (to_be_bytes (header_hash P h))\<rparr>"

definition verify_signature :: "'a block_prims_scheme \<Rightarrow> block_header \<Rightarrow> core_error + unit" where
  "verify_signature P h =
     map_err CoreInvalidSignature
       (verify P (bh_validator_pubkey h) (to_be_bytes (header_hash P h)) (bh_validator_signature h))"

definition header_validate_basic :: "'a block_prims_scheme \<Rightarrow> block_header \<Rightarrow> core_error + unit" where
  "header_validate_basic P h =
     (if bh_version h \<noteq> PROTOCOL_VERSION
      then Err (InvalidBlock (''unsupported version: '' @ show_word (bh_version h)))
      else if length (bh_extra_data h) > MAX_EXTRA_DATA_SIZE
      then Err (DataTooLarge MAX_EXTRA_DATA_SIZE (length (bh_extra_data h)))
      else if bh_gas_used h > bh_gas_limit h
      then Err (GasLimitExceeded (bh_gas_limit h) (bh_gas_used h))
      else if to_address P (bh_validator_pubkey h) \<noteq> bh_validator h
      then Err (InvalidBlock ''validator address does not match public key'')
      else Ok ())"

definition block_hash :: "'a block_prims_scheme \<Rightarrow> block \<Rightarrow> blake3hash" where
  "block_hash P b = header_hash P (bk_header b)"

definition tx_count :: "block \<Rightarrow> nat" where
  "tx_count b = length (bk_transactions b)"

definition compute_transactions_root :: "'a block_prims_scheme \<Rightarrow> block \<Rightarrow> blake3hash" where
  "compute_transactions_root P b =
     (if bk_transactions b = [] then hash_ZERO
      else compute_merkle_root P (map (\<lambda>tx. to_be_bytes (stx_hash tx)) (bk_transactions b)))"

text \<open>The loop \<open>for (i, tx) in self.transactions.iter().enumerate()\<close>.\<close>

fun verify_transactions :: "'a block_prims_scheme \<Rightarrow> nat \<Rightarrow> signed_transaction list \<Rightarrow> core_error + unit" where
  "verify_transactions P i [] = Ok ()"
| "verify_transactions P i (tx # txs) =
     and_then (map_err (\<lambda>e. InvalidBlock
         (''invalid transaction '' @ show_nat i @ '': '' @ core_error_to_string e))
       (stx_verify P tx)) (\<lambda>_. verify_transactions P (i + 1) txs)"

definition block_validate_basic :: "'a block_prims_scheme \<Rightarrow> block \<Rightarrow> core_error + unit" where
  "block_validate_basic P b =
     and_then (header_validate_basic P (bk_header b)) (\<lambda>_.
       if length (bk_transactions b) > MAX_BLOCK_TRANSACTIONS
       then Err (InvalidBlock (''too many transactions: '' @ show_nat (length (bk_transactions b)) @
              '' (max '' @ show_nat MAX_BLOCK_TRANSACTIONS @ '')''))
       else if compute_transactions_root P b \<noteq> bh_transactions_root (bk_header b)
       then Err (InvalidBlock ''transactions root mismatch'')
       else verify_transactions P 0 (bk_transactions b))"

definition block_genesis ::
  "chain_id \<Rightarrow> timestamp \<Rightarrow> address \<Rightarrow> public_key \<Rightarrow> gas \<Rightarrow> bytes \<Rightarrow> block" where
  "block_genesis cid ts v pk gl ed =
     \<lparr>bk_header = \<lparr>bh_version = PROTOCOL_VERSION, bh_chain_id = cid, bh_number = 0, bh_timestamp = ts,
        bh_parent_hash = hash_ZERO, bh_state_root = hash_ZERO, bh_transactions_root = hash_ZERO,
        bh_receipts_root = hash_ZERO, bh_validator = v, bh_validator_pubkey = pk,
        bh_validator_signature = signature_default, bh_epoch = 0, bh_gas_used = 0,
        bh_gas_limit = gl, bh_extra_data = ed\<rparr>,
      bk_transactions = []\<rparr>"

definition example_block_prims :: block_prims where
  "example_block_prims = tx_prims.extend example_tx_prims
     \<lparr>ser_header = (\<lambda>h. to_le_bytes (bh_number h) @ to_le_bytes (bh_gas_used h) @
        to_be_bytes (bh_validator_signature h))\<rparr>"

section \<open>Headers\<close>

lemma header_hash_signature [simp]: "header_hash P (h\<lparr>bh_validator_signature := s\<rparr>) = header_hash P h"
  by (simp add: header_hash_def)

lemma verify_signature_iff:
  "verify_signature P h = Ok u \<longleftrightarrow> ed_key_valid P (bh_validator_pubkey h) \<and>
     ed_verify P (bh_validator_pubkey h) (to_be_bytes (header_hash P h)) (bh_validator_signature h)"
  by (simp add: verify_signature_def result_simps verify_eq_Ok)

text \<open>
  Block signing round trip. A header that names the public key of a key pair verifies
  after being signed with it, and signing does not change its hash.
\<close>

theorem header_sign_verifies:
  assumes "ed25519_correct P" "bh_validator_pubkey h = keypair_public_key P kp"
  shows "verify_signature P (header_sign P h kp) = Ok () \<and>
    header_hash P (header_sign P h kp) = header_hash P h"
  using assms verify_sign [of P kp] by (simp add: verify_signature_def header_sign_def)

lemma header_validate_basic_iff:
  "header_validate_basic P h = Ok u \<longleftrightarrow> bh_version h = 1 \<and> length (bh_extra_data h) \<le> 256 \<and>
     bh_gas_used h \<le> bh_gas_limit h \<and> to_address P (bh_validator_pubkey h) = bh_validator h"
  by (auto simp: header_validate_basic_def PROTOCOL_VERSION_def MAX_EXTRA_DATA_SIZE_def)

section \<open>Blocks\<close>

lemma verify_transactions_iff:
  "verify_transactions P i txs = Ok u \<longleftrightarrow> list_all (\<lambda>tx. stx_verify P tx = Ok ()) txs"
  by (induction txs arbitrary: i) (auto simp: result_simps)

lemma block_validate_basic_iff:
  "block_validate_basic P b = Ok u \<longleftrightarrow>
     header_validate_basic P (bk_header b) = Ok () \<and> length (bk_transactions b) \<le> 10000 \<and>
     bh_transactions_root (bk_header b) = compute_transactions_root P b \<and>
     list_all (\<lambda>tx. stx_verify P tx = Ok ()) (bk_transactions b)"
  by (auto simp: block_validate_basic_def result_simps verify_transactions_iff MAX_BLOCK_TRANSACTIONS_def)

text \<open>
  Block validation. \<open>Block::validate_basic\<close> accepts exactly the blocks of protocol
  version 1 with at most 256 bytes of extra data, gas used within the limit and a validator
  address that matches its public key, that hold at most 10000 transactions, whose transactions
  root is the Merkle root of the transactions' hashes, and all of whose transactions verify.
\<close>

theorem block_validate_basic_accepts:
  "block_validate_basic P b = Ok () \<longleftrightarrow>
     bh_version (bk_header b) = 1 \<and> length (bh_extra_data (bk_header b)) \<le> 256 \<and>
     bh_gas_used (bk_header b) \<le> bh_gas_limit (bk_header b) \<and>
     to_address P (bh_validator_pubkey (bk_header b)) = bh_validator (bk_header b) \<and>
     tx_count b \<le> 10000 \<and>
     bh_transactions_root (bk_header b) = compute_transactions_root P b \<and>
     (\<nexists>tx e. tx \<in> set (bk_transactions b) \<and> stx_verify P tx = Err e)"
proof -
  have "list_all (\<lambda>tx. stx_verify P tx = Ok ()) txs \<longleftrightarrow> (\<nexists>tx e. tx \<in> set txs \<and> stx_verify P tx = Err e)"
    for txs
  proof -
    have "stx_verify P tx = Ok () \<longleftrightarrow> (\<nexists>e. stx_verify P tx = Err e)" for tx
      by (cases "stx_verify P tx") simp_all
    then show ?thesis by (auto simp: list_all_iff)
  qed
  then show ?thesis
    by (auto simp: block_validate_basic_iff header_validate_basic_iff tx_count_def)
qed

lemma compute_transactions_root_merkle:
  "compute_transactions_root P b =
     merkle_root (merkle_tree_new P (map (\<lambda>tx. hash P (to_be_bytes (stx_hash tx))) (bk_transactions b)))"
  by (simp add: compute_transactions_root_def compute_merkle_root_def merkle_root_new comp_def)

text \<open>The root commits to the hashes that the transactions carry.\<close>

definition root_inputs :: "'a block_prims_scheme \<Rightarrow> block \<Rightarrow> bytes set" where
  "root_inputs P b = (let items = map (\<lambda>tx. to_be_bytes (stx_hash tx)) (bk_transactions b)
     in set items \<union> set (tree_inputs P (map (hash P) items)))"

lemma transactions_root_binding:
  assumes "length (bk_transactions b) = length (bk_transactions c)"
    and "inj_on (blake3 P) (root_inputs P b \<union> root_inputs P c)"
    and "compute_transactions_root P b = compute_transactions_root P c"
  shows "map stx_hash (bk_transactions b) = map stx_hash (bk_transactions c)"
proof (rule nth_equalityI)
  let ?H = "\<lambda>b. map (hash P) (map (\<lambda>tx. to_be_bytes (stx_hash tx)) (bk_transactions b))"
  have inj: "inj_on (blake3 P) (set (tree_inputs P (?H b)) \<union> set (tree_inputs P (?H c)))"
    by (rule inj_on_subset [OF assms(2)]) (auto simp: root_inputs_def Let_def)
  have "?H b = ?H c"
    using assms(1,3) by (intro merkle_root_inject [OF _ inj])
      (simp_all add: compute_transactions_root_merkle comp_def)
  fix i assume "i < length (map stx_hash (bk_transactions b))"
  then have i: "i < length (bk_transactions b)" "i < length (bk_transactions c)" using assms(1) by simp_all
  have "?H b ! i = ?H c ! i" using \<open>?H b = ?H c\<close> by simp
  then have "blake3 P (to_be_bytes (stx_hash (bk_transactions b ! i))) =
      blake3 P (to_be_bytes (stx_hash (bk_transactions c ! i)))"
    using i by (simp add: hash_def)
  moreover have "to_be_bytes (stx_hash (bk_transactions b ! i)) \<in> root_inputs P b"
    "to_be_bytes (stx_hash (bk_transactions c ! i)) \<in> root_inputs P c"
    using i by (auto simp: root_inputs_def Let_def)
  ultimately have "to_be_bytes (stx_hash (bk_transactions b ! i)) = to_be_bytes (stx_hash (bk_transactions c ! i))"
    by (intro inj_onD [OF assms(2)]) simp_all
  then show "map stx_hash (bk_transactions b) ! i = map stx_hash (bk_transactions c) ! i"
    using i by (simp add: codec_simps)
qed (use assms in simp)

text \<open>
  C32 (what a block hash does not commit to). Take any transaction that verifies and give it the \<open>tx_hash\<close>
  field of a transaction of a valid block: put in that transaction's place it leaves the block valid,
  with the same block hash, and the block now carries the contents of the other transaction. Nothing
  ties the field, which is all the transactions root is computed from, to the contents.
\<close>

theorem block_contents_not_bound:
  assumes "block_validate_basic P b = Ok ()" "i < tx_count b" "stx_verify P tx' = Ok ()"
    and "c = b\<lparr>bk_transactions := (bk_transactions b)[i := tx'\<lparr>stx_hash := stx_hash (bk_transactions b ! i)\<rparr>]\<rparr>"
  shows "block_validate_basic P c = Ok () \<and> block_hash P c = block_hash P b \<and>
    map stx_transaction (bk_transactions c) = (map stx_transaction (bk_transactions b))[i := stx_transaction tx']"
proof -
  have "map (\<lambda>tx. hash P (to_be_bytes (stx_hash tx))) (bk_transactions c) =
      map (\<lambda>tx. hash P (to_be_bytes (stx_hash tx))) (bk_transactions b)"
    using assms(2,4) by (intro nth_equalityI) (simp_all add: nth_list_update tx_count_def)
  then show ?thesis
    using assms by (simp add: block_validate_basic_iff compute_transactions_root_merkle block_hash_def
        list_all_length nth_list_update tx_count_def stx_verify_ignores_hash map_update)
qed

section \<open>Witnesses\<close>

definition example_stx :: "'p block_prims_scheme \<Rightarrow> balance \<Rightarrow> nonce \<Rightarrow> signed_transaction" where
  "example_stx P v n = signed_transaction_new P
     (example_tx\<lparr>tx_from := keypair_address P example_kp, tx_value := v, tx_nonce := n\<rparr>) example_kp"

definition example_header_for :: "'p block_prims_scheme \<Rightarrow> block_header" where
  "example_header_for P = bk_header (block_genesis 1 1000 (keypair_address P example_kp) (keypair_public_key P example_kp) 1000000 [])"

definition example_block_for :: "'p block_prims_scheme \<Rightarrow> block" where
  "example_block_for P = \<lparr>bk_header = (example_header_for P)\<lparr>bh_transactions_root :=
       merkle_root (merkle_tree_new P [hash P (to_be_bytes (stx_hash (example_stx P 1000 0)))])\<rparr>,
     bk_transactions = [example_stx P 1000 0]\<rparr>"

abbreviation example_header :: block_header where "example_header \<equiv> example_header_for example_block_prims"
abbreviation example_block :: block where "example_block \<equiv> example_block_for example_block_prims"

lemma example_block_ed25519: "ed25519_correct example_block_prims"
  by (simp add: ed25519_correct_def example_block_prims_def example_tx_prims_def example_prims_def
      crypto_prims.defs tx_prims.defs)

lemma example_stx_verifies: "ed25519_correct P \<Longrightarrow> stx_verify P (example_stx P v n) = Ok ()"
  unfolding example_stx_def by (rule stx_verify_new) (simp_all add: example_tx_def tx_wf_def)

lemma example_block_valid: "ed25519_correct P \<Longrightarrow> block_validate_basic P (example_block_for P) = Ok ()"
  by (simp add: block_validate_basic_iff header_validate_basic_iff example_block_for_def example_header_for_def
      block_genesis_def PROTOCOL_VERSION_def compute_transactions_root_merkle keypair_address_def
      example_stx_verifies)

theorem header_sign_verifies_witness:
  "verify_signature example_block_prims (header_sign example_block_prims example_header example_kp) = Ok ()"
  using header_sign_verifies [OF example_block_ed25519, of example_header example_kp]
  by (simp add: example_header_for_def block_genesis_def)

text \<open>With the first 32 bytes as the hash, payments with different nonces have different hashes.\<close>

definition prefix_prims :: block_prims where
  "prefix_prims = example_block_prims\<lparr>blake3 := \<lambda>bs. from_be_bytes (take 32 bs)\<rparr>"

lemma prefix_ed25519: "ed25519_correct prefix_prims"
  using example_block_ed25519 by (simp add: ed25519_correct_def prefix_prims_def)

lemma example_stx_hash_nonce: "m \<noteq> n \<Longrightarrow> stx_hash (example_stx prefix_prims v m) \<noteq> stx_hash (example_stx prefix_prims w n)"
proof -
  have ser: "ser_transaction prefix_prims tx = to_be_bytes (tx_from tx) @ to_le_bytes (tx_nonce tx)" for tx
    by (simp add: prefix_prims_def example_block_prims_def example_tx_prims_def tx_prims.defs crypto_prims.defs)
  have hash: "hash prefix_prims bs = from_be_bytes (take 32 bs)" for bs by (simp add: hash_def prefix_prims_def)
  assume "m \<noteq> n"
  then show ?thesis
    by (simp add: example_stx_def signed_transaction_new_def Let_def ser hash hash32.dec_inject addr20.enc_width le64.enc_width
        sig64.enc_width codec_simps)
qed

theorem block_contents_not_bound_witness:
  "\<exists>b c. block_validate_basic prefix_prims b = Ok () \<and> block_validate_basic prefix_prims c = Ok () \<and>
     block_hash prefix_prims b = block_hash prefix_prims c \<and>
     map (tx_value \<circ> stx_transaction) (bk_transactions b) = [1000] \<and>
     map (tx_value \<circ> stx_transaction) (bk_transactions c) = [2000] \<and>
     (\<forall>tx \<in> set (bk_transactions c). stx_hash tx \<noteq>
        hash prefix_prims (ser_transaction prefix_prims (stx_transaction tx) @ to_be_bytes (stx_signature tx)))"
proof -
  let ?P = prefix_prims
  let ?b = "example_block_for ?P" and ?tx = "(example_stx ?P 2000 1)\<lparr>stx_hash := stx_hash (example_stx ?P 1000 0)\<rparr>"
  let ?c = "?b\<lparr>bk_transactions := [?tx]\<rparr>"
  have "block_validate_basic ?P ?c = Ok () \<and> block_hash ?P ?c = block_hash ?P ?b"
    using block_contents_not_bound [OF example_block_valid [OF prefix_ed25519] _ example_stx_verifies [OF prefix_ed25519, of 2000 1] refl, of 0]
    by (simp add: example_block_for_def tx_count_def)
  moreover have "stx_hash (example_stx ?P 1000 0) \<noteq> stx_hash (example_stx ?P 2000 1)" by (rule example_stx_hash_nonce) simp
  then have "stx_hash ?tx \<noteq> hash ?P (ser_transaction ?P (stx_transaction ?tx) @ to_be_bytes (stx_signature ?tx))"
    by (simp add: example_stx_def signed_transaction_new_def Let_def)
  ultimately show ?thesis
    using example_block_valid [OF prefix_ed25519]
    by (intro exI [of _ ?b] exI [of _ ?c]) (simp, simp add: example_block_for_def example_stx_def signed_transaction_new_def Let_def)
qed

end
