(* ===== verification/Validators.thy ===== *)
theory Validators
  imports Block
begin

text \<open>
  Validators and epochs (\<open>crates/core/src/validator.rs\<close>, \<open>epoch.rs\<close>), the genesis
  configuration (\<open>genesis.rs\<close>) and the chain configuration (\<open>config.rs\<close>). Reading a TOML file
  (\<open>GenesisConfig::load\<close>) is input/output and not modelled; the clock and the random key of
  \<open>devnet_default\<close> are arguments.

  The locale \<open>quorum_rule\<close> is the contract of a weighted quorum: a threshold of at least two
  thirds of the total weight. Its lemmas (two quorums overlap in at least a third of the
  weight; a faulty minority cannot make up the overlap) are used for the validator set here
  and in the theory on finality.
\<close>

section \<open>validator.rs\<close>

record validator_info =
  vi_address :: address
  vi_public_key :: public_key
  vi_stake :: balance
  vi_is_active :: bool
  vi_commission_rate :: u16
  vi_jailed_until :: "timestamp option"
  vi_slash_count :: u32
  vi_uptime_blocks :: u64
  vi_total_blocks :: u64

record validator_set =
  vs_validators :: "validator_info list"
  vs_total_stake :: balance
  vs_min_stake :: balance
  vs_max_validators :: u32

definition validator_info_new :: "address \<Rightarrow> public_key \<Rightarrow> balance \<Rightarrow> validator_info" where
  "validator_info_new a pk st = \<lparr>vi_address = a, vi_public_key = pk, vi_stake = st, vi_is_active = True,
     vi_commission_rate = 0, vi_jailed_until = None, vi_slash_count = 0, vi_uptime_blocks = 0,
     vi_total_blocks = 0\<rparr>"

definition is_jailed :: "validator_info \<Rightarrow> timestamp \<Rightarrow> bool" where
  "is_jailed v current_time = (case vi_jailed_until v of None \<Rightarrow> False | Some until \<Rightarrow> current_time < until)"

definition stake_of_active :: "validator_info list \<Rightarrow> balance" where
  "stake_of_active vs = sum_list (map vi_stake (filter vi_is_active vs))"

definition validator_set_new :: "validator_info list \<Rightarrow> balance \<Rightarrow> u32 \<Rightarrow> validator_set" where
  "validator_set_new vs mn mx = \<lparr>vs_validators = vs, vs_total_stake = stake_of_active vs,
     vs_min_stake = mn, vs_max_validators = mx\<rparr>"

definition active_validators :: "validator_set \<Rightarrow> validator_info list" where
  "active_validators s = filter (\<lambda>v. vi_is_active v \<and> vi_jailed_until v = None) (vs_validators s)"

definition get_validator :: "validator_set \<Rightarrow> address \<Rightarrow> validator_info option" where
  "get_validator s a = find (\<lambda>v. vi_address v = a) (vs_validators s)"

text \<open>An update through \<open>get_validator_mut\<close>: the first validator with the address changes.\<close>

fun update_validator :: "(validator_info \<Rightarrow> validator_info) \<Rightarrow> address \<Rightarrow> validator_info list \<Rightarrow> validator_info list" where
  "update_validator f a [] = []"
| "update_validator f a (v # vs) = (if vi_address v = a then f v # vs else v # update_validator f a vs)"

definition total_active_stake :: "validator_set \<Rightarrow> balance" where
  "total_active_stake s = sum_list (map vi_stake (active_validators s))"

definition is_validator :: "validator_set \<Rightarrow> address \<Rightarrow> bool" where
  "is_validator s a = list_ex (\<lambda>v. vi_address v = a) (active_validators s)"

definition quorum_threshold :: "validator_set \<Rightarrow> balance" where
  "quorum_threshold s = div_ceil (total_active_stake s * 2) 3"

definition recalculate_total_stake :: "validator_set \<Rightarrow> validator_set" where
  "recalculate_total_stake s = s\<lparr>vs_total_stake := stake_of_active (vs_validators s)\<rparr>"

section \<open>epoch.rs\<close>

record epoch_info =
  ep_number :: epoch_number
  ep_start_block :: block_number
  ep_end_block :: block_number
  ep_validator_set :: validator_set
  ep_finalized_block :: "block_number option"

definition contains_block :: "epoch_info \<Rightarrow> block_number \<Rightarrow> bool" where
  "contains_block e n \<longleftrightarrow> n \<ge> ep_start_block e \<and> n \<le> ep_end_block e"

definition is_last_block :: "epoch_info \<Rightarrow> block_number \<Rightarrow> bool" where
  "is_last_block e n \<longleftrightarrow> n = ep_end_block e"

section \<open>genesis.rs and config.rs\<close>

record consensus_params =
  cp_block_time_ms :: u64
  cp_epoch_length :: u64
  cp_min_validators :: u32
  cp_max_validators :: u32
  cp_slash_fraction_double_sign :: u16
  cp_slash_fraction_downtime :: u16
  cp_downtime_jail_duration_ms :: u64
  cp_min_stake :: balance
  cp_unbonding_period_epochs :: u64
  cp_max_missed_blocks :: u64
  cp_signed_blocks_window :: u64

definition consensus_params_default :: consensus_params where
  "consensus_params_default = \<lparr>cp_block_time_ms = 5000, cp_epoch_length = 100, cp_min_validators = 1,
     cp_max_validators = 100, cp_slash_fraction_double_sign = 500, cp_slash_fraction_downtime = 100,
     cp_downtime_jail_duration_ms = 600000, cp_min_stake = 1000000000000000000,
     cp_unbonding_period_epochs = 10, cp_max_missed_blocks = 50, cp_signed_blocks_window = 100\<rparr>"

record genesis_validator =
  gv_address :: address
  gv_public_key :: public_key
  gv_stake :: balance

record genesis_account =
  ga_address :: address
  ga_balance :: balance

record genesis_config =
  gc_chain_id :: chain_id
  gc_chain_name :: string
  gc_timestamp :: timestamp
  gc_initial_validators :: "genesis_validator list"
  gc_initial_accounts :: "genesis_account list"
  gc_consensus_params :: consensus_params
  gc_gas_limit :: gas

text \<open>The first validator whose stake is below the minimum is reported.\<close>

definition genesis_validate :: "'a crypto_prims_scheme \<Rightarrow> genesis_config \<Rightarrow> core_error + unit" where
  "genesis_validate P g =
     (let vs = gc_initial_validators g; cp = gc_consensus_params g in
      if vs = [] then Err (GenesisError ''genesis must have at least one validator'')
      else if length vs < unat (cp_min_validators cp)
      then Err (GenesisError (''need at least '' @ show_word (cp_min_validators cp) @
        '' validators, got '' @ show_nat (length vs)))
      else case find (\<lambda>v. gv_stake v < cp_min_stake cp) vs of
        Some v \<Rightarrow> Err (GenesisError (''validator '' @ address_to_hex P (gv_address v) @
          '' has insufficient stake: '' @ show_word (gv_stake v) @ '' < '' @ show_word (cp_min_stake cp)))
      | None \<Rightarrow>
          if gc_gas_limit g = 0 then Err (GenesisError ''gas limit must be > 0'') else Ok ())"

text \<open>\<open>None\<close> is the panic of \<open>self.initial_validators[0]\<close> on an empty list.\<close>

definition to_genesis_block :: "genesis_config \<Rightarrow> block option" where
  "to_genesis_block g = (case gc_initial_validators g of [] \<Rightarrow> None
     | v # _ \<Rightarrow> Some (block_genesis (gc_chain_id g) (gc_timestamp g) (gv_address v) (gv_public_key v)
         (gc_gas_limit g) (string_bytes (''rustchain genesis: '' @ gc_chain_name g))))"

definition to_validator_infos :: "genesis_config \<Rightarrow> validator_info list" where
  "to_validator_infos g =
     map (\<lambda>gv. validator_info_new (gv_address gv) (gv_public_key gv) (gv_stake gv)) (gc_initial_validators g)"

definition devnet_default :: "'a crypto_prims_scheme \<Rightarrow> key_pair \<Rightarrow> timestamp \<Rightarrow> genesis_config" where
  "devnet_default P kp now = \<lparr>gc_chain_id = 9999, gc_chain_name = ''rustchain-devnet'', gc_timestamp = now,
     gc_initial_validators = [\<lparr>gv_address = keypair_address P kp, gv_public_key = keypair_public_key P kp,
       gv_stake = 10000000000000000000\<rparr>],
     gc_initial_accounts = [\<lparr>ga_address = keypair_address P kp, ga_balance = 1000000000000000000000\<rparr>],
     gc_consensus_params = consensus_params_default\<lparr>cp_min_validators := 1\<rparr>, gc_gas_limit = 10000000\<rparr>"

datatype network_type =
    Public
  | Private "address list"
  | Consortium "string list" "address list"

record chain_config =
  cc_chain_id :: chain_id
  cc_chain_name :: string
  cc_network_type :: network_type
  cc_consensus :: consensus_params
  cc_gas_limit_per_block :: gas
  cc_base_gas_price :: gas_price
  cc_max_tx_size :: nat
  cc_max_block_transactions :: nat

definition chain_config_default :: chain_config where
  "chain_config_default = \<lparr>cc_chain_id = 1, cc_chain_name = ''rustchain'', cc_network_type = Public,
     cc_consensus = consensus_params_default, cc_gas_limit_per_block = 10000000, cc_base_gas_price = 1,
     cc_max_tx_size = MAX_TRANSACTION_DATA_SIZE, cc_max_block_transactions = MAX_BLOCK_TRANSACTIONS\<rparr>"

section \<open>Weighted quorums\<close>

text \<open>
  A system whose members carry weights and whose threshold is at least two thirds of the
  total weight, whenever \<open>ok\<close> holds of it.
\<close>

locale quorum_rule =
  fixes members :: "'s \<Rightarrow> 'v set" and weight :: "'s \<Rightarrow> 'v \<Rightarrow> nat"
    and threshold :: "'s \<Rightarrow> nat" and ok :: "'s \<Rightarrow> bool"
  assumes finite_members: "finite (members s)"
    and threshold_two_thirds: "ok s \<Longrightarrow> 2 * sum (weight s) (members s) \<le> 3 * threshold s"
begin

lemma quorum_overlap:
  assumes "ok s" "A \<subseteq> members s" "B \<subseteq> members s"
    and "threshold s \<le> sum (weight s) A" "threshold s \<le> sum (weight s) B"
  shows "sum (weight s) (members s) \<le> 3 * sum (weight s) (A \<inter> B)"
proof -
  have fin: "finite A" "finite B" using assms finite_members finite_subset by blast+
  have "sum (weight s) A + sum (weight s) B = sum (weight s) (A \<union> B) + sum (weight s) (A \<inter> B)"
    by (rule sum.union_inter [OF fin, symmetric])
  moreover have "sum (weight s) (A \<union> B) \<le> sum (weight s) (members s)"
    using assms finite_members by (intro sum_mono2) auto
  ultimately show ?thesis using threshold_two_thirds [OF assms(1)] assms(4,5) by linarith
qed

lemma quorum_overlap_honest:
  assumes "ok s" "A \<subseteq> members s" "B \<subseteq> members s"
    and "threshold s \<le> sum (weight s) A" "threshold s \<le> sum (weight s) B"
    and "F \<subseteq> members s" "3 * sum (weight s) F < sum (weight s) (members s)"
  shows "\<exists>v. v \<in> A \<inter> B - F"
proof (rule ccontr)
  assume "\<nexists>v. v \<in> A \<inter> B - F"
  then have "A \<inter> B \<subseteq> F" by blast
  then have "sum (weight s) (A \<inter> B) \<le> sum (weight s) F"
    using assms(6) finite_members finite_subset by (intro sum_mono2) blast+
  with quorum_overlap [OF assms(1-5)] assms(7) show False by linarith
qed

end

section \<open>The quorum of a validator set\<close>

lemma total_active_stake_nat:
  "sum_list (map (unat \<circ> vi_stake) (active_validators s)) < 2 ^ 128 \<Longrightarrow>
   unat (total_active_stake s) = sum_list (map (unat \<circ> vi_stake) (active_validators s))"
  unfolding total_active_stake_def
  using unat_sum_list [of "map vi_stake (active_validators s)"] by (simp add: comp_def)

text \<open>The stake of the active validators, doubled, does not overflow, and no address occurs twice.\<close>

definition quorum_ok :: "validator_set \<Rightarrow> bool" where
  "quorum_ok s \<longleftrightarrow> distinct (map vi_address (vs_validators s)) \<and>
     2 * sum_list (map (unat \<circ> vi_stake) (active_validators s)) + 3 < 2 ^ 128"

lemma unat_quorum_threshold:
  assumes "2 * sum_list (map (unat \<circ> vi_stake) (active_validators s)) + 3 < 2 ^ 128"
  shows "unat (quorum_threshold s) = (2 * sum_list (map (unat \<circ> vi_stake) (active_validators s)) + 2) div 3"
proof -
  let ?t = "sum_list (map (unat \<circ> vi_stake) (active_validators s))"
  have t: "unat (total_active_stake s) = ?t" using assms by (intro total_active_stake_nat) linarith
  have m: "unat (total_active_stake s * 2) = ?t * 2"
    using assms t by (subst unat_mult_nowrap) simp_all
  have "unat (div_ceil (total_active_stake s * 2) 3) = (?t * 2 + 3 - 1) div 3"
    using assms m by (subst unat_div_ceil) simp_all
  then show ?thesis by (simp add: quorum_threshold_def mult.commute)
qed

lemma distinct_active: "quorum_ok s \<Longrightarrow> distinct (active_validators s)"
  by (auto simp: quorum_ok_def active_validators_def dest: distinct_map [THEN iffD1])

lemma active_weight:
  assumes "quorum_ok s"
  shows "(\<Sum>v\<in>set (active_validators s). unat (vi_stake v)) =
    sum_list (map (unat \<circ> vi_stake) (active_validators s))"
  using distinct_active [OF assms] by (simp add: sum_list_distinct_conv_sum_set comp_def)

interpretation vq: quorum_rule "\<lambda>s. set (active_validators s)" "\<lambda>s v. unat (vi_stake v)"
  "\<lambda>s. unat (quorum_threshold s)" quorum_ok
proof
  fix s
  show "finite (set (active_validators s))" by simp
  assume ok: "quorum_ok s"
  then show "2 * (\<Sum>v\<in>set (active_validators s). unat (vi_stake v)) \<le> 3 * unat (quorum_threshold s)"
    unfolding active_weight [OF ok] by (subst unat_quorum_threshold) (simp_all add: quorum_ok_def)
qed

text \<open>
  C7 (quorums of validators). Two sets of active validators that both reach
  \<open>quorum_threshold\<close> share a validator outside any set of faulty validators that holds less
  than a third of the active stake.
\<close>

theorem quorum_threshold_intersection:
  assumes "quorum_ok s" "A \<subseteq> set (active_validators s)" "B \<subseteq> set (active_validators s)"
    and "unat (quorum_threshold s) \<le> (\<Sum>v\<in>A. unat (vi_stake v))"
    and "unat (quorum_threshold s) \<le> (\<Sum>v\<in>B. unat (vi_stake v))"
    and "F \<subseteq> set (active_validators s)"
    and "3 * (\<Sum>v\<in>F. unat (vi_stake v)) < (\<Sum>v\<in>set (active_validators s). unat (vi_stake v))"
  shows "\<exists>v. v \<in> A \<inter> B - F"
  using assms by (rule vq.quorum_overlap_honest)

text \<open>The threshold is reachable: it never exceeds the stake of all active validators.\<close>

lemma quorum_threshold_le_total:
  assumes "quorum_ok s" "active_validators s \<noteq> []" "\<forall>v\<in>set (active_validators s). vi_stake v \<noteq> 0"
  shows "unat (quorum_threshold s) \<le> unat (total_active_stake s)" "0 < unat (quorum_threshold s)"
proof -
  let ?t = "sum_list (map (unat \<circ> vi_stake) (active_validators s))"
  obtain v vs where "active_validators s = v # vs" using assms(2) by (cases "active_validators s") auto
  then have "0 < ?t" using assms(3) by (simp add: unat_gt_0)
  moreover have "unat (total_active_stake s) = ?t"
    using assms(1) by (intro total_active_stake_nat) (simp add: quorum_ok_def)
  ultimately show "unat (quorum_threshold s) \<le> unat (total_active_stake s)" "0 < unat (quorum_threshold s)"
    using assms(1) by (simp_all add: unat_quorum_threshold quorum_ok_def)
qed

section \<open>Lookup and update\<close>

lemma get_validator_address: "get_validator s a = Some v \<Longrightarrow> vi_address v = a \<and> v \<in> set (vs_validators s)"
  by (auto simp: get_validator_def find_Some_iff)

lemma update_validator_addresses [simp]:
  "(\<And>v. vi_address (f v) = vi_address v) \<Longrightarrow> map vi_address (update_validator f a vs) = map vi_address vs"
  by (induction vs) auto

lemma get_update_validator:
  assumes "\<And>v. vi_address (f v) = vi_address v"
  shows "find (\<lambda>v. vi_address v = b) (update_validator f a vs) =
    (if b = a then map_option f (find (\<lambda>v. vi_address v = a) vs) else find (\<lambda>v. vi_address v = b) vs)"
  using assms by (induction vs) auto

lemma is_validator_iff:
  "is_validator s a \<longleftrightarrow>
     (\<exists>v\<in>set (vs_validators s). vi_address v = a \<and> vi_is_active v \<and> vi_jailed_until v = None)"
  by (auto simp: is_validator_def active_validators_def list_ex_iff)

section \<open>Genesis\<close>

lemma genesis_validate_iff:
  "genesis_validate P g = Ok u \<longleftrightarrow> gc_initial_validators g \<noteq> [] \<and>
     unat (cp_min_validators (gc_consensus_params g)) \<le> length (gc_initial_validators g) \<and>
     list_all (\<lambda>v. cp_min_stake (gc_consensus_params g) \<le> gv_stake v) (gc_initial_validators g) \<and>
     gc_gas_limit g \<noteq> 0"
proof -
  have "find (\<lambda>v. gv_stake v < m) vs = None \<longleftrightarrow> list_all (\<lambda>v. m \<le> gv_stake v) vs" for m vs
    by (auto simp: find_None_iff list_all_iff not_less)
  note sym = this [symmetric]
  show ?thesis
    unfolding sym by (cases "find (\<lambda>v. gv_stake v < cp_min_stake (gc_consensus_params g)) (gc_initial_validators g)")
      (auto simp: genesis_validate_def Let_def)
qed

text \<open>
  Devnet genesis. The default development configuration validates, and its genesis block
  exists and passes the structural validation of blocks.
\<close>

theorem devnet_genesis_valid:
  "genesis_validate P (devnet_default P kp now) = Ok () \<and>
   (\<exists>b. to_genesis_block (devnet_default P kp now) = Some b \<and> block_validate_basic P b = Ok () \<and>
     bh_number (bk_header b) = 0)"
  by (simp add: genesis_validate_iff devnet_default_def consensus_params_default_def to_genesis_block_def
      block_validate_basic_iff header_validate_basic_iff block_genesis_def compute_transactions_root_def
      PROTOCOL_VERSION_def string_bytes_def keypair_address_def)

section \<open>Witnesses\<close>

definition example_vset :: validator_set where
  "example_vset = validator_set_new
     [validator_info_new 1 11 100, validator_info_new 2 12 100, validator_info_new 3 13 100,
      validator_info_new 4 14 100] 10 100"

lemma example_vset_simps:
  "active_validators example_vset = [validator_info_new 1 11 100, validator_info_new 2 12 100,
     validator_info_new 3 13 100, validator_info_new 4 14 100]"
  "quorum_ok example_vset" "unat (quorum_threshold example_vset) = 267"
proof -
  show act: "active_validators example_vset = [validator_info_new 1 11 100, validator_info_new 2 12 100,
     validator_info_new 3 13 100, validator_info_new 4 14 100]"
    by (simp add: active_validators_def example_vset_def validator_set_new_def validator_info_new_def)
  then show ok: "quorum_ok example_vset"
    by (simp add: quorum_ok_def) (simp add: example_vset_def validator_set_new_def validator_info_new_def)
  show "unat (quorum_threshold example_vset) = 267"
    using ok by (simp add: unat_quorum_threshold quorum_ok_def) (simp add: act validator_info_new_def)
qed

theorem quorum_threshold_intersection_witness:
  "\<exists>v. v \<in> {validator_info_new 1 11 100, validator_info_new 2 12 100, validator_info_new 3 13 100} \<inter>
     {validator_info_new 2 12 100, validator_info_new 3 13 100, validator_info_new 4 14 100} -
     {validator_info_new 2 12 100}"
  by (rule quorum_threshold_intersection [OF example_vset_simps(2)])
    (simp_all add: example_vset_simps, simp_all add: validator_info_new_def)

end
