(* ===== verification/Storage.thy ===== *)
theory Storage
  imports Validators
begin

text \<open>
  The crate \<open>crates/storage\<close>: the chain database over RocksDB column families
  (\<open>db.rs\<close>, \<open>columns.rs\<close>, \<open>error.rs\<close>), the typed stores (\<open>block_store.rs\<close>, \<open>state_store.rs\<close>,
  \<open>tx_store.rs\<close>, \<open>validator_store.rs\<close>) and the batch that commits a block (\<open>batch.rs\<close>).

  RocksDB and \<open>bincode\<close> are third-party code: their operations are fields of the parameter
  \<open>P\<close>, over an arbitrary type of database states; an operation that succeeds returns the new
  state, one that fails leaves the state it was given. \<open>rocks_ok\<close> states the documented
  behaviour of a key-value store with column families and atomic batches, and \<open>serde_ok\<close> that
  what was serialised is read back. Opening a database and its tuning options are not
  modelled.

  The locale \<open>keyed_table\<close> is the contract of a typed store. Every store satisfies it, and the
  commit batch is shown to have the effect of the individual writes.
\<close>

section \<open>Third-party interfaces\<close>

record 'a serde =
  ser :: "'a \<Rightarrow> string + bytes"
  de :: "bytes \<Rightarrow> string + 'a"

definition serde_ok :: "'a serde \<Rightarrow> bool" where
  "serde_ok c \<longleftrightarrow> (\<forall>x b. ser c x = Ok b \<longrightarrow> de c b = Ok x)"

type_synonym batch_op = "(string \<times> bytes) \<times> bytes"

record 'db storage_prims = block_prims +
  rdb_cf_handle :: "'db \<Rightarrow> string \<Rightarrow> bool"
  rdb_get :: "'db \<Rightarrow> string \<Rightarrow> bytes \<Rightarrow> string + bytes option"
  rdb_put :: "'db \<Rightarrow> string \<Rightarrow> bytes \<Rightarrow> bytes \<Rightarrow> string + 'db"
  rdb_delete :: "'db \<Rightarrow> string \<Rightarrow> bytes \<Rightarrow> string + 'db"
  rdb_write :: "'db \<Rightarrow> batch_op list \<Rightarrow> string + 'db"
  bin_block :: "block serde"
  bin_transaction :: "signed_transaction serde"
  bin_index :: "(block_number \<times> u32) serde"
  bin_receipt :: "transaction_receipt serde"
  bin_account :: "account serde"
  bin_validator :: "validator_info serde"
  bin_epoch :: "epoch_info serde"
  bin_u64 :: "u64 serde"
  bin_u32 :: "u32 serde"

text \<open>The value that the last write of a batch to a key leaves there.\<close>

definition batch_get :: "batch_op list \<Rightarrow> string \<Rightarrow> bytes \<Rightarrow> bytes option" where
  "batch_get ops cf k = map_of (rev ops) (cf, k)"

definition rocks_ok :: "('db, 'a) storage_prims_scheme \<Rightarrow> bool" where
  "rocks_ok P \<longleftrightarrow>
     (\<forall>db cf k v db'. rdb_put P db cf k v = Ok db' \<longrightarrow>
        rdb_cf_handle P db' = rdb_cf_handle P db \<and>
        (\<forall>cf' k'. rdb_get P db' cf' k' =
           (if cf' = cf \<and> k' = k then Ok (Some v) else rdb_get P db cf' k'))) \<and>
     (\<forall>db cf k db'. rdb_delete P db cf k = Ok db' \<longrightarrow>
        rdb_cf_handle P db' = rdb_cf_handle P db \<and>
        (\<forall>cf' k'. rdb_get P db' cf' k' =
           (if cf' = cf \<and> k' = k then Ok None else rdb_get P db cf' k'))) \<and>
     (\<forall>db ops db'. rdb_write P db ops = Ok db' \<longrightarrow>
        rdb_cf_handle P db' = rdb_cf_handle P db \<and>
        (\<forall>cf' k'. rdb_get P db' cf' k' =
           (case batch_get ops cf' k' of Some v \<Rightarrow> Ok (Some v) | None \<Rightarrow> rdb_get P db cf' k')))"

definition serdes_ok :: "('db, 'a) storage_prims_scheme \<Rightarrow> bool" where
  "serdes_ok P \<longleftrightarrow> serde_ok (bin_block P) \<and> serde_ok (bin_transaction P) \<and> serde_ok (bin_index P) \<and>
     serde_ok (bin_receipt P) \<and> serde_ok (bin_account P) \<and> serde_ok (bin_validator P) \<and>
     serde_ok (bin_epoch P) \<and> serde_ok (bin_u64 P) \<and> serde_ok (bin_u32 P)"

definition storage_ok :: "('db, 'a) storage_prims_scheme \<Rightarrow> bool" where
  "storage_ok P \<longleftrightarrow> rocks_ok P \<and> serdes_ok P"

section \<open>error.rs and columns.rs\<close>

datatype storage_error =
    Database string
  | StorageSerialization string
  | Deserialization string
  | NotFound string
  | ColumnFamilyNotFound string
  | SchemaMismatch u32 u32
  | Corruption string
  | Io string

definition storage_error_to_string :: "storage_error \<Rightarrow> string" where
  "storage_error_to_string e = (case e of
      Database s \<Rightarrow> ''database error: '' @ s
    | StorageSerialization s \<Rightarrow> ''serialization error: '' @ s
    | Deserialization s \<Rightarrow> ''deserialization error: '' @ s
    | NotFound s \<Rightarrow> ''key not found: '' @ s
    | ColumnFamilyNotFound s \<Rightarrow> ''column family not found: '' @ s
    | SchemaMismatch ex ac \<Rightarrow>
        ''schema version mismatch: expected '' @ show_word ex @ '', got '' @ show_word ac
    | Corruption s \<Rightarrow> ''corruption detected: '' @ s
    | Io s \<Rightarrow> ''io error: '' @ s)"

definition BLOCKS :: string where "BLOCKS = ''blocks''"
definition BLOCK_HASHES :: string where "BLOCK_HASHES = ''block_hashes''"
definition TRANSACTIONS :: string where "TRANSACTIONS = ''transactions''"
definition TX_INDEX :: string where "TX_INDEX = ''tx_index''"
definition ACCOUNTS :: string where "ACCOUNTS = ''accounts''"
definition RECEIPTS :: string where "RECEIPTS = ''receipts''"
definition VALIDATORS :: string where "VALIDATORS = ''validators''"
definition EPOCHS :: string where "EPOCHS = ''epochs''"
definition CONTRACTS :: string where "CONTRACTS = ''contracts''"
definition CONTRACT_STORAGE :: string where "CONTRACT_STORAGE = ''contract_storage''"
definition META :: string where "META = ''meta''"

definition cf_ALL :: "string list" where
  "cf_ALL = [BLOCKS, BLOCK_HASHES, TRANSACTIONS, TX_INDEX, ACCOUNTS, RECEIPTS, VALIDATORS, EPOCHS,
     CONTRACTS, CONTRACT_STORAGE, META]"

definition CHAIN_HEIGHT :: bytes where "CHAIN_HEIGHT = string_bytes ''chain_height''"
definition BEST_BLOCK_HASH :: bytes where "BEST_BLOCK_HASH = string_bytes ''best_block_hash''"
definition SCHEMA_VERSION :: bytes where "SCHEMA_VERSION = string_bytes ''schema_version''"
definition GENESIS_HASH :: bytes where "GENESIS_HASH = string_bytes ''genesis_hash''"
definition CURRENT_EPOCH :: bytes where "CURRENT_EPOCH = string_bytes ''current_epoch''"

definition CURRENT_SCHEMA_VERSION :: u32 where "CURRENT_SCHEMA_VERSION = 1"

lemmas cf_defs = BLOCKS_def BLOCK_HASHES_def TRANSACTIONS_def TX_INDEX_def ACCOUNTS_def RECEIPTS_def
  VALIDATORS_def EPOCHS_def CONTRACTS_def CONTRACT_STORAGE_def META_def

section \<open>db.rs\<close>

definition get_cf :: "('db, 'a) storage_prims_scheme \<Rightarrow> 'db \<Rightarrow> string \<Rightarrow> bytes \<Rightarrow> storage_error + bytes option" where
  "get_cf P db cf k =
     (if \<not> rdb_cf_handle P db cf then Err (ColumnFamilyNotFound cf)
      else map_err Database (rdb_get P db cf k))"

definition put_cf :: "('db, 'a) storage_prims_scheme \<Rightarrow> 'db \<Rightarrow> string \<Rightarrow> bytes \<Rightarrow> bytes \<Rightarrow> storage_error + 'db" where
  "put_cf P db cf k v =
     (if \<not> rdb_cf_handle P db cf then Err (ColumnFamilyNotFound cf)
      else map_err Database (rdb_put P db cf k v))"

definition delete_cf :: "('db, 'a) storage_prims_scheme \<Rightarrow> 'db \<Rightarrow> string \<Rightarrow> bytes \<Rightarrow> storage_error + 'db" where
  "delete_cf P db cf k =
     (if \<not> rdb_cf_handle P db cf then Err (ColumnFamilyNotFound cf)
      else map_err Database (rdb_delete P db cf k))"

definition write_batch :: "('db, 'a) storage_prims_scheme \<Rightarrow> 'db \<Rightarrow> batch_op list \<Rightarrow> storage_error + 'db" where
  "write_batch P db ops = map_err Database (rdb_write P db ops)"

definition cf_handle :: "('db, 'a) storage_prims_scheme \<Rightarrow> 'db \<Rightarrow> string \<Rightarrow> storage_error + unit" where
  "cf_handle P db cf = (if rdb_cf_handle P db cf then Ok () else Err (ColumnFamilyNotFound cf))"

definition check_or_set_schema_version :: "('db, 'a) storage_prims_scheme \<Rightarrow> 'db \<Rightarrow> storage_error + 'db" where
  "check_or_set_schema_version P db =
     and_then (get_cf P db META SCHEMA_VERSION) (\<lambda>r. case r of
       Some bs \<Rightarrow>
         and_then (map_err Deserialization (de (bin_u32 P) bs)) (\<lambda>version.
           if version \<noteq> CURRENT_SCHEMA_VERSION then Err (SchemaMismatch CURRENT_SCHEMA_VERSION version)
           else Ok db)
     | None \<Rightarrow>
         and_then (map_err StorageSerialization (ser (bin_u32 P) CURRENT_SCHEMA_VERSION)) (\<lambda>bs.
           put_cf P db META SCHEMA_VERSION bs))"

definition encode_block_number :: "u64 \<Rightarrow> bytes" where
  "encode_block_number n = to_be_bytes n"

definition decode_block_number :: "bytes \<Rightarrow> storage_error + u64" where
  "decode_block_number bs =
     (if length bs \<noteq> 8
      then Err (Deserialization (''expected 8 bytes for block number, got '' @ show_nat (length bs)))
      else Ok (from_be_bytes bs))"

definition contract_storage_key :: "address \<Rightarrow> bytes \<Rightarrow> bytes" where
  "contract_storage_key a k = to_be_bytes a @ k"

text \<open>The shape that all typed reads and writes share.\<close>

definition get_typed :: "('db, 'a) storage_prims_scheme \<Rightarrow> 'v serde \<Rightarrow> 'db \<Rightarrow> string \<Rightarrow> bytes \<Rightarrow> storage_error + 'v option" where
  "get_typed P c db cf k =
     and_then (get_cf P db cf k) (\<lambda>r. case r of
       Some bs \<Rightarrow> map_ok Some (map_err Deserialization (de c bs))
     | None \<Rightarrow> Ok None)"

definition put_typed :: "('db, 'a) storage_prims_scheme \<Rightarrow> 'v serde \<Rightarrow> 'db \<Rightarrow> string \<Rightarrow> bytes \<Rightarrow> 'v \<Rightarrow> storage_error + 'db" where
  "put_typed P c db cf k v =
     and_then (map_err StorageSerialization (ser c v)) (\<lambda>bs. put_cf P db cf k bs)"

section \<open>block_store.rs\<close>

definition put_block :: "('db, 'a) storage_prims_scheme \<Rightarrow> 'db \<Rightarrow> block \<Rightarrow> storage_error + 'db" where
  "put_block P db b =
     (let number_key = encode_block_number (bh_number (bk_header b)); bhash = block_hash P b in
      and_then (map_err StorageSerialization (ser (bin_block P) b)) (\<lambda>block_bytes.
      and_then (cf_handle P db BLOCKS) (\<lambda>_.
      and_then (cf_handle P db BLOCK_HASHES) (\<lambda>_.
        write_batch P db [((BLOCKS, number_key), block_bytes),
          ((BLOCK_HASHES, to_be_bytes bhash), number_key)]))))"

definition get_block_by_number :: "('db, 'a) storage_prims_scheme \<Rightarrow> 'db \<Rightarrow> block_number \<Rightarrow> storage_error + block option" where
  "get_block_by_number P db n = get_typed P (bin_block P) db BLOCKS (encode_block_number n)"

definition get_block_by_hash :: "('db, 'a) storage_prims_scheme \<Rightarrow> 'db \<Rightarrow> blake3hash \<Rightarrow> storage_error + block option" where
  "get_block_by_hash P db h =
     and_then (get_cf P db BLOCK_HASHES (to_be_bytes h)) (\<lambda>r. case r of
       Some number_bytes \<Rightarrow>
         if length number_bytes \<noteq> 8 then Err (Deserialization ''invalid block number'')
         else get_block_by_number P db (from_be_bytes number_bytes)
     | None \<Rightarrow> Ok None)"

definition get_chain_height :: "('db, 'a) storage_prims_scheme \<Rightarrow> 'db \<Rightarrow> storage_error + block_number option" where
  "get_chain_height P db = get_typed P (bin_u64 P) db META CHAIN_HEIGHT"

definition set_chain_height :: "('db, 'a) storage_prims_scheme \<Rightarrow> 'db \<Rightarrow> block_number \<Rightarrow> storage_error + 'db" where
  "set_chain_height P db h = put_typed P (bin_u64 P) db META CHAIN_HEIGHT h"

definition get_latest_block :: "('db, 'a) storage_prims_scheme \<Rightarrow> 'db \<Rightarrow> storage_error + block option" where
  "get_latest_block P db =
     and_then (get_chain_height P db) (\<lambda>r. case r of
       Some height \<Rightarrow> get_block_by_number P db height
     | None \<Rightarrow> Ok None)"

definition set_genesis_hash :: "('db, 'a) storage_prims_scheme \<Rightarrow> 'db \<Rightarrow> blake3hash \<Rightarrow> storage_error + 'db" where
  "set_genesis_hash P db h = put_cf P db META GENESIS_HASH (to_be_bytes h)"

definition get_genesis_hash :: "('db, 'a) storage_prims_scheme \<Rightarrow> 'db \<Rightarrow> storage_error + blake3hash option" where
  "get_genesis_hash P db =
     and_then (get_cf P db META GENESIS_HASH) (\<lambda>r. case r of
       Some bs \<Rightarrow>
         if length bs \<noteq> 32 then Err (Deserialization ''invalid hash length'')
         else Ok (Some (from_be_bytes bs))
     | None \<Rightarrow> Ok None)"

section \<open>state_store.rs\<close>

definition get_account :: "('db, 'a) storage_prims_scheme \<Rightarrow> 'db \<Rightarrow> address \<Rightarrow> storage_error + account option" where
  "get_account P db a = get_typed P (bin_account P) db ACCOUNTS (to_be_bytes a)"

definition put_account :: "('db, 'a) storage_prims_scheme \<Rightarrow> 'db \<Rightarrow> account \<Rightarrow> storage_error + 'db" where
  "put_account P db acc = put_typed P (bin_account P) db ACCOUNTS (to_be_bytes (acc_address acc)) acc"

definition get_balance :: "('db, 'a) storage_prims_scheme \<Rightarrow> 'db \<Rightarrow> address \<Rightarrow> storage_error + balance" where
  "get_balance P db a =
     map_ok (\<lambda>r. case r of None \<Rightarrow> 0 | Some acc \<Rightarrow> acc_balance acc) (get_account P db a)"

definition get_nonce :: "('db, 'a) storage_prims_scheme \<Rightarrow> 'db \<Rightarrow> address \<Rightarrow> storage_error + nonce" where
  "get_nonce P db a =
     map_ok (\<lambda>r. case r of None \<Rightarrow> 0 | Some acc \<Rightarrow> acc_nonce acc) (get_account P db a)"

definition get_contract_storage :: "('db, 'a) storage_prims_scheme \<Rightarrow> 'db \<Rightarrow> address \<Rightarrow> bytes \<Rightarrow> storage_error + bytes option" where
  "get_contract_storage P db a k = get_cf P db CONTRACT_STORAGE (contract_storage_key a k)"

definition put_contract_storage :: "('db, 'a) storage_prims_scheme \<Rightarrow> 'db \<Rightarrow> address \<Rightarrow> bytes \<Rightarrow> bytes \<Rightarrow> storage_error + 'db" where
  "put_contract_storage P db a k v = put_cf P db CONTRACT_STORAGE (contract_storage_key a k) v"

definition delete_contract_storage :: "('db, 'a) storage_prims_scheme \<Rightarrow> 'db \<Rightarrow> address \<Rightarrow> bytes \<Rightarrow> storage_error + 'db" where
  "delete_contract_storage P db a k = delete_cf P db CONTRACT_STORAGE (contract_storage_key a k)"

definition put_contract_code :: "('db, 'a) storage_prims_scheme \<Rightarrow> 'db \<Rightarrow> blake3hash \<Rightarrow> bytes \<Rightarrow> storage_error + 'db" where
  "put_contract_code P db h code = put_cf P db CONTRACTS (to_be_bytes h) code"

definition get_contract_code :: "('db, 'a) storage_prims_scheme \<Rightarrow> 'db \<Rightarrow> blake3hash \<Rightarrow> storage_error + bytes option" where
  "get_contract_code P db h = get_cf P db CONTRACTS (to_be_bytes h)"

section \<open>tx_store.rs and validator_store.rs\<close>

definition put_transaction :: "('db, 'a) storage_prims_scheme \<Rightarrow> 'db \<Rightarrow> signed_transaction \<Rightarrow> storage_error + 'db" where
  "put_transaction P db tx = put_typed P (bin_transaction P) db TRANSACTIONS (to_be_bytes (stx_hash tx)) tx"

definition put_tx_index :: "('db, 'a) storage_prims_scheme \<Rightarrow> 'db \<Rightarrow> blake3hash \<Rightarrow> block_number \<Rightarrow> u32 \<Rightarrow> storage_error + 'db" where
  "put_tx_index P db h n i = put_typed P (bin_index P) db TX_INDEX (to_be_bytes h) (n, i)"

definition get_transaction :: "('db, 'a) storage_prims_scheme \<Rightarrow> 'db \<Rightarrow> blake3hash \<Rightarrow> storage_error + signed_transaction option" where
  "get_transaction P db h = get_typed P (bin_transaction P) db TRANSACTIONS (to_be_bytes h)"

definition get_tx_location :: "('db, 'a) storage_prims_scheme \<Rightarrow> 'db \<Rightarrow> blake3hash \<Rightarrow> storage_error + (block_number \<times> u32) option" where
  "get_tx_location P db h = get_typed P (bin_index P) db TX_INDEX (to_be_bytes h)"

definition put_receipt :: "('db, 'a) storage_prims_scheme \<Rightarrow> 'db \<Rightarrow> transaction_receipt \<Rightarrow> storage_error + 'db" where
  "put_receipt P db r = put_typed P (bin_receipt P) db RECEIPTS (to_be_bytes (rc_tx_hash r)) r"

definition get_receipt :: "('db, 'a) storage_prims_scheme \<Rightarrow> 'db \<Rightarrow> blake3hash \<Rightarrow> storage_error + transaction_receipt option" where
  "get_receipt P db h = get_typed P (bin_receipt P) db RECEIPTS (to_be_bytes h)"

definition put_validator :: "('db, 'a) storage_prims_scheme \<Rightarrow> 'db \<Rightarrow> validator_info \<Rightarrow> storage_error + 'db" where
  "put_validator P db v = put_typed P (bin_validator P) db VALIDATORS (to_be_bytes (vi_address v)) v"

definition db_get_validator :: "('db, 'a) storage_prims_scheme \<Rightarrow> 'db \<Rightarrow> address \<Rightarrow> storage_error + validator_info option" where
  "db_get_validator P db a = get_typed P (bin_validator P) db VALIDATORS (to_be_bytes a)"

definition put_epoch :: "('db, 'a) storage_prims_scheme \<Rightarrow> 'db \<Rightarrow> epoch_info \<Rightarrow> storage_error + 'db" where
  "put_epoch P db e = put_typed P (bin_epoch P) db EPOCHS (encode_block_number (ep_number e)) e"

definition get_epoch :: "('db, 'a) storage_prims_scheme \<Rightarrow> 'db \<Rightarrow> epoch_number \<Rightarrow> storage_error + epoch_info option" where
  "get_epoch P db n = get_typed P (bin_epoch P) db EPOCHS (encode_block_number n)"

section \<open>batch.rs\<close>

text \<open>A batch under construction is the list of its writes, oldest first.\<close>

definition batch_put_block :: "('db, 'a) storage_prims_scheme \<Rightarrow> 'db \<Rightarrow> block \<Rightarrow> batch_op list \<Rightarrow> storage_error + batch_op list" where
  "batch_put_block P db b ops =
     (let number_key = encode_block_number (bh_number (bk_header b)); bhash = block_hash P b in
      and_then (map_err StorageSerialization (ser (bin_block P) b)) (\<lambda>block_bytes.
      and_then (cf_handle P db BLOCKS) (\<lambda>_.
      and_then (cf_handle P db BLOCK_HASHES) (\<lambda>_.
        Ok (ops @ [((BLOCKS, number_key), block_bytes),
          ((BLOCK_HASHES, to_be_bytes bhash), number_key)])))))"

fun batch_tx_loop :: "('db, 'a) storage_prims_scheme \<Rightarrow> block_number \<Rightarrow> nat \<Rightarrow> signed_transaction list \<Rightarrow>
    batch_op list \<Rightarrow> storage_error + batch_op list" where
  "batch_tx_loop P n i [] ops = Ok ops"
| "batch_tx_loop P n i (tx # txs) ops =
     and_then (map_err StorageSerialization (ser (bin_transaction P) tx)) (\<lambda>tx_bytes.
     and_then (map_err StorageSerialization (ser (bin_index P) (n, of_nat i))) (\<lambda>index_data.
       batch_tx_loop P n (i + 1) txs
         (ops @ [((TRANSACTIONS, to_be_bytes (stx_hash tx)), tx_bytes),
           ((TX_INDEX, to_be_bytes (stx_hash tx)), index_data)])))"

definition batch_put_transactions :: "('db, 'a) storage_prims_scheme \<Rightarrow> 'db \<Rightarrow> signed_transaction list \<Rightarrow>
    block_number \<Rightarrow> batch_op list \<Rightarrow> storage_error + batch_op list" where
  "batch_put_transactions P db txs n ops =
     and_then (cf_handle P db TRANSACTIONS) (\<lambda>_.
     and_then (cf_handle P db TX_INDEX) (\<lambda>_. batch_tx_loop P n 0 txs ops))"

text \<open>The loop that \<open>put_receipts\<close> and \<open>update_accounts\<close> share: one write per element.\<close>

fun batch_loop :: "'v serde \<Rightarrow> string \<Rightarrow> ('v \<Rightarrow> bytes) \<Rightarrow> 'v list \<Rightarrow> batch_op list \<Rightarrow> storage_error + batch_op list" where
  "batch_loop c cf key [] ops = Ok ops"
| "batch_loop c cf key (v # vs) ops =
     and_then (map_err StorageSerialization (ser c v)) (\<lambda>bs.
       batch_loop c cf key vs (ops @ [((cf, key v), bs)]))"

definition batch_put_receipts :: "('db, 'a) storage_prims_scheme \<Rightarrow> 'db \<Rightarrow> transaction_receipt list \<Rightarrow>
    batch_op list \<Rightarrow> storage_error + batch_op list" where
  "batch_put_receipts P db rs ops =
     and_then (cf_handle P db RECEIPTS) (\<lambda>_.
       batch_loop (bin_receipt P) RECEIPTS (\<lambda>r. to_be_bytes (rc_tx_hash r)) rs ops)"

definition batch_update_accounts :: "('db, 'a) storage_prims_scheme \<Rightarrow> 'db \<Rightarrow> account list \<Rightarrow>
    batch_op list \<Rightarrow> storage_error + batch_op list" where
  "batch_update_accounts P db accs ops =
     and_then (cf_handle P db ACCOUNTS) (\<lambda>_.
       batch_loop (bin_account P) ACCOUNTS (\<lambda>a. to_be_bytes (acc_address a)) accs ops)"

definition batch_set_chain_height :: "('db, 'a) storage_prims_scheme \<Rightarrow> 'db \<Rightarrow> block_number \<Rightarrow>
    batch_op list \<Rightarrow> storage_error + batch_op list" where
  "batch_set_chain_height P db h ops =
     and_then (cf_handle P db META) (\<lambda>_.
     and_then (map_err StorageSerialization (ser (bin_u64 P) h)) (\<lambda>bs.
       Ok (ops @ [((META, CHAIN_HEIGHT), bs)])))"

definition batch_set_best_block_hash :: "('db, 'a) storage_prims_scheme \<Rightarrow> 'db \<Rightarrow> blake3hash \<Rightarrow>
    batch_op list \<Rightarrow> storage_error + batch_op list" where
  "batch_set_best_block_hash P db h ops =
     and_then (cf_handle P db META) (\<lambda>_. Ok (ops @ [((META, BEST_BLOCK_HASH), to_be_bytes h)]))"

definition batch_commit :: "('db, 'a) storage_prims_scheme \<Rightarrow> 'db \<Rightarrow> batch_op list \<Rightarrow> storage_error + 'db" where
  "batch_commit P db ops = write_batch P db ops"

section \<open>Reads after writes\<close>

lemma cf_names_distinct: "distinct cf_ALL"
  by (simp add: cf_ALL_def cf_defs)

lemma put_cf_Ok:
  assumes "rocks_ok P" "put_cf P db cf k v = Ok db'"
  shows "rdb_cf_handle P db' = rdb_cf_handle P db" "rdb_cf_handle P db cf"
    "get_cf P db' cf' k' = (if cf' = cf \<and> k' = k then Ok (Some v) else get_cf P db cf' k')"
proof -
  have put: "rdb_put P db cf k v = Ok db'" and h: "rdb_cf_handle P db cf"
    using assms(2) by (auto simp: put_cf_def result_simps split: if_splits)
  then show "rdb_cf_handle P db' = rdb_cf_handle P db" "rdb_cf_handle P db cf"
    using assms(1) unfolding rocks_ok_def by blast+
  then show "get_cf P db' cf' k' = (if cf' = cf \<and> k' = k then Ok (Some v) else get_cf P db cf' k')"
    using assms(1) put unfolding rocks_ok_def get_cf_def by auto
qed

lemma delete_cf_Ok:
  assumes "rocks_ok P" "delete_cf P db cf k = Ok db'"
  shows "rdb_cf_handle P db' = rdb_cf_handle P db"
    "get_cf P db' cf' k' = (if cf' = cf \<and> k' = k then Ok None else get_cf P db cf' k')"
proof -
  have del: "rdb_delete P db cf k = Ok db'" and h: "rdb_cf_handle P db cf"
    using assms(2) by (auto simp: delete_cf_def result_simps split: if_splits)
  then show eq: "rdb_cf_handle P db' = rdb_cf_handle P db"
    using assms(1) unfolding rocks_ok_def by blast
  then show "get_cf P db' cf' k' = (if cf' = cf \<and> k' = k then Ok None else get_cf P db cf' k')"
    using assms(1) del h unfolding rocks_ok_def get_cf_def by auto
qed

lemma write_batch_Ok:
  assumes "rocks_ok P" "write_batch P db ops = Ok db'"
  shows "rdb_cf_handle P db' = rdb_cf_handle P db"
    "get_cf P db' cf k = (if rdb_cf_handle P db cf then
       (case batch_get ops cf k of Some v \<Rightarrow> Ok (Some v) | None \<Rightarrow> get_cf P db cf k)
       else Err (ColumnFamilyNotFound cf))"
proof -
  have w: "rdb_write P db ops = Ok db'" using assms(2) by (simp add: write_batch_def result_simps)
  then show eq: "rdb_cf_handle P db' = rdb_cf_handle P db"
    using assms(1) unfolding rocks_ok_def by blast
  have "rdb_get P db' cf k = (case batch_get ops cf k of Some v \<Rightarrow> Ok (Some v) | None \<Rightarrow> rdb_get P db cf k)"
    using assms(1) w unfolding rocks_ok_def by blast
  then show "get_cf P db' cf k = (if rdb_cf_handle P db cf then
       (case batch_get ops cf k of Some v \<Rightarrow> Ok (Some v) | None \<Rightarrow> get_cf P db cf k)
       else Err (ColumnFamilyNotFound cf))"
    using eq by (auto simp: get_cf_def split: option.splits)
qed

lemma get_typed_cong:
  "get_cf P db' cf k = get_cf P db cf k \<Longrightarrow> get_typed P c db' cf k = get_typed P c db cf k"
  by (simp add: get_typed_def)

lemma put_typed_Ok:
  assumes "put_typed P c db cf k v = Ok db'"
  shows "\<exists>bs. ser c v = Ok bs \<and> put_cf P db cf k bs = Ok db'"
  using assms by (auto simp: put_typed_def result_simps)

lemma get_put_typed:
  assumes "rocks_ok P" "serde_ok c" "put_typed P c db cf k v = Ok db'"
  shows "get_typed P c db' cf k' = (if k' = k then Ok (Some v) else get_typed P c db cf k')"
proof -
  obtain bs where bs: "ser c v = Ok bs" "put_cf P db cf k bs = Ok db'"
    using put_typed_Ok [OF assms(3)] by blast
  then show ?thesis
    using assms(2) put_cf_Ok [OF assms(1) bs(2)] by (simp add: get_typed_def serde_ok_def)
qed

lemma get_cf_put_typed_other:
  assumes "rocks_ok P" "put_typed P c db cf k v = Ok db'" "cf' \<noteq> cf"
  shows "get_cf P db' cf' k' = get_cf P db cf' k'"
  using put_typed_Ok [OF assms(2)] put_cf_Ok [OF assms(1)] assms(3) by auto

section \<open>The contract of a typed store\<close>

fun put_all :: "('db \<Rightarrow> 'v \<Rightarrow> 'e + 'db) \<Rightarrow> 'db \<Rightarrow> 'v list \<Rightarrow> 'e + 'db" where
  "put_all put db [] = Ok db"
| "put_all put db (v # vs) = and_then (put db v) (\<lambda>db'. put_all put db' vs)"

locale keyed_table =
  fixes law :: "'p \<Rightarrow> bool" and key :: "'v \<Rightarrow> 'k"
    and put :: "'p \<Rightarrow> 'db \<Rightarrow> 'v \<Rightarrow> 'e + 'db" and get :: "'p \<Rightarrow> 'db \<Rightarrow> 'k \<Rightarrow> 'e + 'v option"
  assumes get_put: "law p \<Longrightarrow> put p db v = Ok db' \<Longrightarrow>
    get p db' k = (if k = key v then Ok (Some v) else get p db k)"
begin

lemma get_put_all:
  "law p \<Longrightarrow> put_all (put p) db vs = Ok db' \<Longrightarrow>
   get p db' k = (case find (\<lambda>v. key v = k) (rev vs) of Some v \<Rightarrow> Ok (Some v) | None \<Rightarrow> get p db k)"
proof (induction vs arbitrary: db)
  case (Cons v vs)
  then obtain db1 where db1: "put p db v = Ok db1" "put_all (put p) db1 vs = Ok db'"
    by (auto simp: result_simps)
  have app: "find Q (xs @ [x]) = (case find Q xs of Some y \<Rightarrow> Some y | None \<Rightarrow> if Q x then Some x else None)"
    for Q and xs :: "'v list" and x
    by (induction xs) auto
  show ?case
    using Cons.IH [OF Cons.prems(1) db1(2)] get_put [OF Cons.prems(1) db1(1)]
    by (auto simp: app split: option.splits)
qed simp

lemma put_overwrites:
  assumes "law p" "put p db v = Ok db1" "put p db1 w = Ok db2" "put p db w = Ok db3" "key v = key w"
  shows "get p db2 k = get p db3 k"
  using get_put [OF assms(1,2)] get_put [OF assms(1,3)] get_put [OF assms(1,4)] assms(5) by auto

lemma put_commutes:
  assumes "law p" "put p db v = Ok db1" "put p db1 w = Ok db2"
    "put p db w = Ok db3" "put p db3 v = Ok db4" "key v \<noteq> key w"
  shows "get p db2 k = get p db4 k"
  using get_put [OF assms(1,2)] get_put [OF assms(1,3)] get_put [OF assms(1,4)] get_put [OF assms(1,5)]
    assms(6) by auto

end

lemma storage_okD:
  assumes "storage_ok P"
  shows "rocks_ok P" "serde_ok (bin_block P)" "serde_ok (bin_transaction P)" "serde_ok (bin_index P)"
    "serde_ok (bin_receipt P)" "serde_ok (bin_account P)" "serde_ok (bin_validator P)"
    "serde_ok (bin_epoch P)" "serde_ok (bin_u64 P)" "serde_ok (bin_u32 P)"
  using assms by (simp_all add: storage_ok_def serdes_ok_def)

interpretation account_tbl: keyed_table storage_ok acc_address put_account get_account
  by unfold_locales
    (simp add: put_account_def get_account_def get_put_typed storage_okD codec_simps)

interpretation tx_tbl: keyed_table storage_ok stx_hash put_transaction get_transaction
  by unfold_locales
    (simp add: put_transaction_def get_transaction_def get_put_typed storage_okD codec_simps)

interpretation index_tbl: keyed_table storage_ok fst "\<lambda>P db (h, n, i). put_tx_index P db h n i"
  "\<lambda>P db h. map_ok (map_option (\<lambda>l. (h, l))) (get_tx_location P db h)"
  by unfold_locales
    (auto simp: put_tx_index_def get_tx_location_def get_put_typed storage_okD codec_simps split: prod.splits)

interpretation receipt_tbl: keyed_table storage_ok rc_tx_hash put_receipt get_receipt
  by unfold_locales
    (simp add: put_receipt_def get_receipt_def get_put_typed storage_okD codec_simps)

interpretation validator_tbl: keyed_table storage_ok vi_address put_validator db_get_validator
  by unfold_locales
    (simp add: put_validator_def db_get_validator_def get_put_typed storage_okD codec_simps)

interpretation epoch_tbl: keyed_table storage_ok ep_number put_epoch get_epoch
  by unfold_locales
    (simp add: put_epoch_def get_epoch_def get_put_typed storage_okD codec_simps encode_block_number_def)

lemma contract_storage_key_inject:
  "contract_storage_key a k = contract_storage_key b l \<longleftrightarrow> a = b \<and> k = l"
  by (simp add: contract_storage_key_def codec_simps)

interpretation slot_tbl: keyed_table rocks_ok fst
  "\<lambda>P db ((a, k), v). put_contract_storage P db a k v"
  "\<lambda>P db (a, k). map_ok (map_option (\<lambda>v. ((a, k), v))) (get_contract_storage P db a k)"
  by unfold_locales
    (auto simp: put_contract_storage_def get_contract_storage_def put_cf_Ok contract_storage_key_inject
      split: prod.splits)

interpretation code_tbl: keyed_table rocks_ok fst
  "\<lambda>P db (h, code). put_contract_code P db h code"
  "\<lambda>P db h. map_ok (map_option (\<lambda>c. (h, c))) (get_contract_code P db h)"
  by unfold_locales
    (auto simp: put_contract_code_def get_contract_code_def put_cf_Ok codec_simps split: prod.splits)

text \<open>
  Account store. After a sequence of successful \<open>put_account\<close> calls, \<open>get_account\<close>
  returns for every address the last account written for it, and what it returned before for
  an address that none of them has.
\<close>

theorem account_store_last_write:
  assumes "storage_ok P" "put_all (put_account P) db accs = Ok db'"
  shows "get_account P db' a = (case find (\<lambda>acc. acc_address acc = a) (rev accs) of
    Some acc \<Rightarrow> Ok (Some acc) | None \<Rightarrow> get_account P db a)"
  using assms by (rule account_tbl.get_put_all)

text \<open>
  Isolation of contract storage. Writing a slot of one contract changes that slot only:
  every other slot of the same contract, every slot of every other contract, and every key of
  every other column family reads as before.
\<close>

theorem contract_storage_isolation:
  assumes "rocks_ok P" "put_contract_storage P db a k v = Ok db'"
  shows "get_contract_storage P db' b l =
      (if b = a \<and> l = k then Ok (Some v) else get_contract_storage P db b l) \<and>
    (cf \<noteq> CONTRACT_STORAGE \<longrightarrow> get_cf P db' cf l = get_cf P db cf l)"
  using assms put_cf_Ok [OF assms(1)]
  by (auto simp: put_contract_storage_def get_contract_storage_def contract_storage_key_inject)

lemma delete_contract_storage_Ok:
  assumes "rocks_ok P" "delete_contract_storage P db a k = Ok db'"
  shows "get_contract_storage P db' b l =
      (if b = a \<and> l = k then Ok None else get_contract_storage P db b l)"
  using assms delete_cf_Ok [OF assms(1)]
  by (auto simp: delete_contract_storage_def get_contract_storage_def contract_storage_key_inject)

section \<open>Blocks and metadata\<close>

lemma batch_get_append:
  "batch_get (ops @ ops') cf k = (case batch_get ops' cf k of Some v \<Rightarrow> Some v | None \<Rightarrow> batch_get ops cf k)"
  by (auto simp: batch_get_def map_add_def split: option.splits)

lemma batch_get_simps [simp]:
  "batch_get [] cf k = None"
  "batch_get [((c, l), v)] cf k = (if c = cf \<and> l = k then Some v else None)"
  by (auto simp: batch_get_def)

lemma encode_block_number_inject [simp]: "encode_block_number m = encode_block_number n \<longleftrightarrow> m = n"
  by (simp add: encode_block_number_def codec_simps)

lemma decode_encode_block_number: "decode_block_number (encode_block_number n) = Ok n"
  by (simp add: decode_block_number_def encode_block_number_def codec_simps)

lemma put_block_ops:
  assumes "put_block P db b = Ok db'"
  shows "\<exists>bs. ser (bin_block P) b = Ok bs \<and> rdb_cf_handle P db BLOCKS \<and> rdb_cf_handle P db BLOCK_HASHES \<and>
    write_batch P db ([((BLOCKS, encode_block_number (bh_number (bk_header b))), bs)] @
      [((BLOCK_HASHES, to_be_bytes (block_hash P b)), encode_block_number (bh_number (bk_header b)))]) = Ok db'"
  using assms by (auto simp: put_block_def Let_def result_simps cf_handle_def split: if_splits)

text \<open>
  Block store. A stored block is found under its number and under its hash, and the
  lookup of every other number is unchanged.
\<close>

theorem put_block_lookup:
  assumes "storage_ok P" "put_block P db b = Ok db'"
  shows "get_block_by_number P db' n =
      (if n = bh_number (bk_header b) then Ok (Some b) else get_block_by_number P db n) \<and>
    get_block_by_hash P db' (block_hash P b) = Ok (Some b)"
proof -
  obtain bs where bs: "ser (bin_block P) b = Ok bs" "rdb_cf_handle P db BLOCKS" "rdb_cf_handle P db BLOCK_HASHES"
      "write_batch P db ([((BLOCKS, encode_block_number (bh_number (bk_header b))), bs)] @
      [((BLOCK_HASHES, to_be_bytes (block_hash P b)), encode_block_number (bh_number (bk_header b)))]) = Ok db'"
    using put_block_ops [OF assms(2)] by blast
  note get = write_batch_Ok(2) [OF storage_okD(1) [OF assms(1)] bs(4), unfolded batch_get_append]
  have cf: "BLOCKS \<noteq> BLOCK_HASHES" by (simp add: cf_defs)
  have de: "de (bin_block P) bs = Ok b" using storage_okD(2) [OF assms(1)] bs(1) by (simp add: serde_ok_def)
  have num: "get_block_by_number P db' n =
      (if n = bh_number (bk_header b) then Ok (Some b) else get_block_by_number P db n)" for n
    using cf bs de by (auto simp: get_block_by_number_def get_typed_def get)
  moreover have "get_cf P db' BLOCK_HASHES (to_be_bytes (block_hash P b)) =
      Ok (Some (encode_block_number (bh_number (bk_header b))))"
    using bs by (simp add: get)
  ultimately show ?thesis
    by (simp add: get_block_by_hash_def encode_block_number_def codec_simps)
qed

lemma get_set_chain_height:
  "storage_ok P \<Longrightarrow> set_chain_height P db h = Ok db' \<Longrightarrow> get_chain_height P db' = Ok (Some h)"
  by (simp add: set_chain_height_def get_chain_height_def get_put_typed storage_okD)

lemma get_set_genesis_hash:
  "storage_ok P \<Longrightarrow> set_genesis_hash P db h = Ok db' \<Longrightarrow> get_genesis_hash P db' = Ok (Some h)"
  by (simp add: set_genesis_hash_def get_genesis_hash_def put_cf_Ok(3) storage_okD(1) codec_simps)

text \<open>A database whose schema check succeeds passes it again, without another write.\<close>

lemma check_schema_idempotent:
  assumes "storage_ok P" "check_or_set_schema_version P db = Ok db'"
  shows "check_or_set_schema_version P db' = Ok db'"
proof (cases "get_cf P db META SCHEMA_VERSION")
  case (Inr r)
  show ?thesis
  proof (cases r)
    case None
    with Inr assms(2) obtain bs where bs: "ser (bin_u32 P) CURRENT_SCHEMA_VERSION = Ok bs"
        "put_cf P db META SCHEMA_VERSION bs = Ok db'"
      by (auto simp: check_or_set_schema_version_def result_simps)
    then have "de (bin_u32 P) bs = Ok CURRENT_SCHEMA_VERSION"
      using storage_okD(10) [OF assms(1)] by (simp add: serde_ok_def)
    with put_cf_Ok(3) [OF storage_okD(1) [OF assms(1)] bs(2)] show ?thesis
      by (simp add: check_or_set_schema_version_def)
  next
    case (Some bs)
    with Inr assms(2) have "db' = db"
      by (auto simp: check_or_set_schema_version_def result_simps split: if_splits)
    with assms(2) show ?thesis by simp
  qed
qed (use assms(2) in \<open>simp add: check_or_set_schema_version_def\<close>)

section \<open>An in-memory database\<close>

text \<open>
  A concrete instance: column families in a map from keys to values. Values of the larger
  types are serialised as their position in a given list.
\<close>

type_synonym mem_db = "string \<times> bytes \<Rightarrow> bytes option"

definition enum_serde :: "'a list \<Rightarrow> 'a serde" where
  "enum_serde xs = \<lparr>
     ser = (\<lambda>x. case find (\<lambda>i. xs ! i = x) [0..<length xs] of
       Some i \<Rightarrow> Ok [of_nat i] | None \<Rightarrow> Err ''unsupported value''),
     de = (\<lambda>bs. case bs of
       [b] \<Rightarrow> if unat b < length xs then Ok (xs ! unat b) else Err ''invalid value''
     | _ \<Rightarrow> Err ''invalid length'')\<rparr>"

definition word_serde :: "('a::len) word serde" where
  "word_serde = \<lparr>ser = (\<lambda>w. Ok (to_le_bytes w)), de = (\<lambda>bs. Ok (from_le_bytes bs))\<rparr>"

definition mem_prims :: "block list \<Rightarrow> signed_transaction list \<Rightarrow> (block_number \<times> u32) list \<Rightarrow>
    transaction_receipt list \<Rightarrow> account list \<Rightarrow> validator_info list \<Rightarrow> epoch_info list \<Rightarrow> mem_db storage_prims" where
  "mem_prims bs txs is rs accs vs es = block_prims.extend example_block_prims \<lparr>
     rdb_cf_handle = (\<lambda>db cf. cf \<in> set cf_ALL),
     rdb_get = (\<lambda>db cf k. Ok (db (cf, k))),
     rdb_put = (\<lambda>db cf k v. Ok (db((cf, k) \<mapsto> v))),
     rdb_delete = (\<lambda>db cf k. Ok (db((cf, k) := None))),
     rdb_write = (\<lambda>db ops. Ok (\<lambda>(cf, k). case batch_get ops cf k of Some v \<Rightarrow> Some v | None \<Rightarrow> db (cf, k))),
     bin_block = enum_serde bs, bin_transaction = enum_serde txs, bin_index = enum_serde is,
     bin_receipt = enum_serde rs, bin_account = enum_serde accs, bin_validator = enum_serde vs,
     bin_epoch = enum_serde es, bin_u64 = word_serde, bin_u32 = word_serde\<rparr>"

lemma mem_prims_simps [simp]:
  "rdb_cf_handle (mem_prims bs txs is rs accs vs es) db cf \<longleftrightarrow> cf \<in> set cf_ALL"
  "rdb_get (mem_prims bs txs is rs accs vs es) db cf k = Ok (db (cf, k))"
  "rdb_put (mem_prims bs txs is rs accs vs es) db cf k v = Ok (db((cf, k) \<mapsto> v))"
  "rdb_delete (mem_prims bs txs is rs accs vs es) db cf k = Ok (db((cf, k) := None))"
  "rdb_write (mem_prims bs txs is rs accs vs es) db ops =
     Ok (\<lambda>(cf, k). case batch_get ops cf k of Some v \<Rightarrow> Some v | None \<Rightarrow> db (cf, k))"
  "bin_block (mem_prims bs txs is rs accs vs es) = enum_serde bs"
  "bin_transaction (mem_prims bs txs is rs accs vs es) = enum_serde txs"
  "bin_index (mem_prims bs txs is rs accs vs es) = enum_serde is"
  "bin_receipt (mem_prims bs txs is rs accs vs es) = enum_serde rs"
  "bin_account (mem_prims bs txs is rs accs vs es) = enum_serde accs"
  "bin_validator (mem_prims bs txs is rs accs vs es) = enum_serde vs"
  "bin_epoch (mem_prims bs txs is rs accs vs es) = enum_serde es"
  "bin_u64 (mem_prims bs txs is rs accs vs es) = word_serde"
  "bin_u32 (mem_prims bs txs is rs accs vs es) = word_serde"
  by (simp_all add: mem_prims_def block_prims.defs)

lemma cf_ALL_mem [simp]:
  "BLOCKS \<in> set cf_ALL" "BLOCK_HASHES \<in> set cf_ALL" "TRANSACTIONS \<in> set cf_ALL" "TX_INDEX \<in> set cf_ALL"
  "ACCOUNTS \<in> set cf_ALL" "RECEIPTS \<in> set cf_ALL" "VALIDATORS \<in> set cf_ALL" "EPOCHS \<in> set cf_ALL"
  "CONTRACTS \<in> set cf_ALL" "CONTRACT_STORAGE \<in> set cf_ALL" "META \<in> set cf_ALL"
  by (simp_all add: cf_ALL_def)

lemma enum_serde_ok: "length xs \<le> 256 \<Longrightarrow> serde_ok (enum_serde xs)"
  unfolding serde_ok_def
proof (intro allI impI)
  fix x b assume len: "length xs \<le> 256" and "ser (enum_serde xs) x = Ok b"
  then obtain i where i: "find (\<lambda>i. xs ! i = x) [0..<length xs] = Some i" "b = [of_nat i]"
    by (auto simp: enum_serde_def split: option.splits)
  then have "xs ! i = x" "i < length xs" by (auto simp: find_Some_iff)
  moreover from this have "unat (of_nat i :: u8) = i" using len by (simp add: unat_of_nat)
  ultimately show "de (enum_serde xs) b = Ok x" using i by (simp add: enum_serde_def)
qed

lemma mem_prims_rocks: "rocks_ok (mem_prims bs txs is rs accs vs es)"
  by (simp add: rocks_ok_def fun_eq_iff split: option.splits)

lemma mem_prims_ok:
  assumes "length bs \<le> 256" "length txs \<le> 256" "length is \<le> 256" "length rs \<le> 256" "length accs \<le> 256"
    "length vs \<le> 256" "length es \<le> 256"
  shows "storage_ok (mem_prims bs txs is rs accs vs es)"
proof -
  have "serde_ok (word_serde :: u64 serde)" "serde_ok (word_serde :: u32 serde)"
    by (simp_all add: serde_ok_def word_serde_def codec_simps)
  then show ?thesis
    using assms mem_prims_rocks [of bs txs "is" rs accs vs es]
    by (simp add: storage_ok_def serdes_ok_def enum_serde_ok)
qed

section \<open>Witnesses\<close>

abbreviation example_accounts_prims :: "mem_db storage_prims" where
  "example_accounts_prims \<equiv> mem_prims [] [] [] [] [account_new 1 10, account_new 2 20, account_new 1 30] [] []"

theorem account_store_last_write_witness:
  "\<exists>db'. put_all (put_account example_accounts_prims) Map.empty
      [account_new 1 10, account_new 2 20, account_new 1 30] = Ok db' \<and>
    get_account example_accounts_prims db' 1 = Ok (Some (account_new 1 30))"
proof -
  have acc: "ser (bin_account example_accounts_prims) (account_new 1 10) = Ok [0]"
    "ser (bin_account example_accounts_prims) (account_new 2 20) = Ok [1]"
    "ser (bin_account example_accounts_prims) (account_new 1 30) = Ok [2]"
    by (simp_all add: enum_serde_def account_new_def)
  have "\<exists>db'. put_all (put_account example_accounts_prims) Map.empty
      [account_new 1 10, account_new 2 20, account_new 1 30] = Ok db'"
    using acc by (simp add: put_account_def put_typed_def put_cf_def)
  then obtain db' where db': "put_all (put_account example_accounts_prims) Map.empty
      [account_new 1 10, account_new 2 20, account_new 1 30] = Ok db'" by blast
  have ok: "storage_ok example_accounts_prims" by (rule mem_prims_ok) simp_all
  show ?thesis
    using account_store_last_write [OF ok db', of 1] db' by auto
qed

theorem contract_storage_isolation_witness:
  "\<exists>db'. put_contract_storage example_accounts_prims Map.empty 1 [7] [9] = Ok db' \<and>
    get_contract_storage example_accounts_prims db' 1 [7] = Ok (Some [9]) \<and>
    get_contract_storage example_accounts_prims db' 2 [7] = get_contract_storage example_accounts_prims Map.empty 2 [7]"
proof -
  obtain db' where db': "put_contract_storage example_accounts_prims Map.empty 1 [7] [9] = Ok db'"
    by (simp add: put_contract_storage_def put_cf_def)
  show ?thesis
    using db' contract_storage_isolation [OF mem_prims_rocks db'] by fastforce
qed

theorem put_block_lookup_witness:
  "\<exists>db'. put_block (mem_prims [example_block] [] [] [] [] [] []) Map.empty example_block = Ok db' \<and>
    get_block_by_number (mem_prims [example_block] [] [] [] [] [] []) db' 0 = Ok (Some example_block)"
proof -
  let ?P = "mem_prims [example_block] [] [] [] [] [] []"
  have "ser (bin_block ?P) example_block = Ok [0]"
    by (simp add: enum_serde_def)
  then obtain db' where db': "put_block ?P Map.empty example_block = Ok db'"
    by (simp add: put_block_def cf_handle_def write_batch_def Let_def)
  have ok: "storage_ok ?P" by (rule mem_prims_ok) simp_all
  have "bh_number (bk_header example_block) = 0"
    by (simp add: example_block_for_def example_header_for_def block_genesis_def)
  then show ?thesis using db' put_block_lookup [OF ok db', of 0] by simp
qed

end
