(* ===== verification/Vm.thy ===== *)
theory Vm
  imports Storage
begin

text \<open>
  The crate \<open>crates/vm\<close>: gas metering (\<open>gas.rs\<close>), the execution context with its journal of
  storage and balance changes (\<open>context.rs\<close>), and the engine with its host functions
  (\<open>engine.rs\<close>, \<open>error.rs\<close>).

  Wasmtime is third-party code: compiling, instantiating and running a module are fields of
  the parameter \<open>W\<close>. A module acts on the node only through the host functions, which are
  modelled here on the context and the module's linear memory; \<open>wasm_ok\<close> states that what a
  run leaves of the context is reached by a sequence of host calls (relation \<open>host_step\<close>).
  A host function that would panic (an allocation of negative length) returns \<open>None\<close>.

  Shown: the meter never exceeds its limit and never goes down; host calls touch no storage
  but that of the running contract and leave the sum of balance changes at zero; a failed run
  leaves an empty context, so it reports no gas.
\<close>

section \<open>error.rs and gas.rs\<close>

datatype vm_error =
    Compilation string
  | Execution string
  | VmOutOfGas u64 u64
  | MemoryOutOfBounds u32 u32 u32
  | CallDepthExceeded u32
  | CodeTooLarge nat nat
  | InvalidModule string
  | FunctionNotFound string
  | ContractNotFound string
  | HostFunction string
  | Trap string
  | StateError string

definition vm_error_to_string :: "vm_error \<Rightarrow> string" where
  "vm_error_to_string e = (case e of
      Compilation s \<Rightarrow> ''compilation error: '' @ s
    | Execution s \<Rightarrow> ''execution error: '' @ s
    | VmOutOfGas limit used \<Rightarrow> ''out of gas: limit '' @ show_word limit @ '', used '' @ show_word used
    | MemoryOutOfBounds off len sz \<Rightarrow> ''memory access out of bounds: offset '' @ show_word off @
        '', len '' @ show_word len @ '', memory_size '' @ show_word sz
    | CallDepthExceeded mx \<Rightarrow> ''call depth exceeded: max '' @ show_word mx
    | CodeTooLarge mx got \<Rightarrow> ''code too large: max '' @ show_nat mx @ '', got '' @ show_nat got
    | InvalidModule s \<Rightarrow> ''invalid module: '' @ s
    | FunctionNotFound s \<Rightarrow> ''function not found: '' @ s
    | ContractNotFound s \<Rightarrow> ''contract not found: '' @ s
    | HostFunction s \<Rightarrow> ''host function error: '' @ s
    | Trap s \<Rightarrow> ''trap: '' @ s
    | StateError s \<Rightarrow> ''state error: '' @ s)"

record gas_meter =
  gm_limit :: u64
  gm_consumed :: u64

definition gas_meter_new :: "u64 \<Rightarrow> gas_meter" where
  "gas_meter_new l = \<lparr>gm_limit = l, gm_consumed = 0\<rparr>"

text \<open>The meter changes also when the result is an error.\<close>

definition consume :: "gas_meter \<Rightarrow> u64 \<Rightarrow> (vm_error + unit) \<times> gas_meter" where
  "consume m amount =
     (let new_consumed = saturating_add (gm_consumed m) amount in
      if new_consumed > gm_limit m
      then (Err (VmOutOfGas (gm_limit m) new_consumed), m\<lparr>gm_consumed := gm_limit m\<rparr>)
      else (Ok (), m\<lparr>gm_consumed := new_consumed\<rparr>))"

definition remaining :: "gas_meter \<Rightarrow> u64" where
  "remaining m = saturating_sub (gm_limit m) (gm_consumed m)"

definition is_exhausted :: "gas_meter \<Rightarrow> bool" where
  "is_exhausted m \<longleftrightarrow> gm_consumed m \<ge> gm_limit m"

record gas_costs =
  storage_read_cost :: u64
  storage_write_cost :: u64
  storage_delete_cost :: u64
  balance_check_cost :: u64
  transfer_cost :: u64
  hash_blake3_cost :: u64
  hash_per_byte_cost :: u64
  event_base_cost :: u64
  event_per_topic_cost :: u64
  event_per_byte_cost :: u64
  call_base_cost :: u64
  memory_page_cost :: u64
  wasm_instruction_cost :: u64

definition gas_costs_default :: gas_costs where
  "gas_costs_default = \<lparr>storage_read_cost = 200, storage_write_cost = 5000, storage_delete_cost = 5000,
     balance_check_cost = 100, transfer_cost = 2300, hash_blake3_cost = 30, hash_per_byte_cost = 6,
     event_base_cost = 375, event_per_topic_cost = 375, event_per_byte_cost = 8, call_base_cost = 700,
     memory_page_cost = 3, wasm_instruction_cost = 1\<rparr>"

section \<open>context.rs\<close>

record state_reader =
  rd_account :: "address \<Rightarrow> vm_error + account option"
  rd_storage :: "address \<Rightarrow> bytes \<Rightarrow> vm_error + bytes option"
  rd_code :: "blake3hash \<Rightarrow> vm_error + bytes option"

record execution_context =
  ec_caller :: address
  ec_origin :: address
  ec_contract_address :: address
  ec_value :: balance
  ec_block_number :: block_number
  ec_block_timestamp :: timestamp
  ec_chain_id :: chain_id
  ec_gas_meter :: gas_meter
  ec_call_depth :: u32
  ec_max_call_depth :: u32
  ec_logs :: "event_log list"
  ec_storage_changes :: "(address \<times> bytes, bytes option) hmap"
  ec_balance_changes :: "(address, i128) hmap"
  ec_state_reader :: state_reader
  ec_return_data :: bytes

definition execution_context_new :: "address \<Rightarrow> address \<Rightarrow> address \<Rightarrow> balance \<Rightarrow> block_number \<Rightarrow> timestamp \<Rightarrow>
    chain_id \<Rightarrow> u64 \<Rightarrow> state_reader \<Rightarrow> execution_context" where
  "execution_context_new cl orig ca val bn ts cid gl rd = \<lparr>ec_caller = cl, ec_origin = orig,
     ec_contract_address = ca, ec_value = val, ec_block_number = bn, ec_block_timestamp = ts,
     ec_chain_id = cid, ec_gas_meter = gas_meter_new gl, ec_call_depth = 0, ec_max_call_depth = 256,
     ec_logs = [], ec_storage_changes = [], ec_balance_changes = [], ec_state_reader = rd,
     ec_return_data = []\<rparr>"

definition storage_read :: "execution_context \<Rightarrow> address \<Rightarrow> bytes \<Rightarrow> vm_error + bytes option" where
  "storage_read c a k = (case hm_get (ec_storage_changes c) (a, k) of
      Some v \<Rightarrow> Ok v
    | None \<Rightarrow> rd_storage (ec_state_reader c) a k)"

definition storage_write :: "execution_context \<Rightarrow> address \<Rightarrow> bytes \<Rightarrow> bytes \<Rightarrow> execution_context" where
  "storage_write c a k v = c\<lparr>ec_storage_changes := hm_put (a, k) (Some v) (ec_storage_changes c)\<rparr>"

definition storage_delete :: "execution_context \<Rightarrow> address \<Rightarrow> bytes \<Rightarrow> execution_context" where
  "storage_delete c a k = c\<lparr>ec_storage_changes := hm_put (a, k) None (ec_storage_changes c)\<rparr>"

text \<open>\<open>i128\<close> values are words read as signed; \<open>(base as i128 + delta).max(0) as u128\<close>.\<close>

definition ctx_get_balance :: "execution_context \<Rightarrow> address \<Rightarrow> vm_error + balance" where
  "ctx_get_balance c a =
     and_then (rd_account (ec_state_reader c) a) (\<lambda>r.
       let base = (case r of None \<Rightarrow> 0 | Some acc \<Rightarrow> acc_balance acc);
           delta = unwrap_or 0 (hm_get (ec_balance_changes c) a);
           s = base + delta
       in Ok (if sint s < 0 then 0 else s))"

definition add_delta :: "address \<Rightarrow> i128 \<Rightarrow> (address, i128) hmap \<Rightarrow> (address, i128) hmap" where
  "add_delta a d m = hm_put a (unwrap_or 0 (hm_get m a) + d) m"

definition ctx_transfer :: "execution_context \<Rightarrow> address \<Rightarrow> address \<Rightarrow> balance \<Rightarrow> vm_error + execution_context" where
  "ctx_transfer c from to amount =
     and_then (ctx_get_balance c from) (\<lambda>from_balance.
       if from_balance < amount
       then Err (HostFunction (''insufficient balance: have '' @ show_word from_balance @
              '', need '' @ show_word amount))
       else Ok (c\<lparr>ec_balance_changes :=
              add_delta to amount (add_delta from (- amount) (ec_balance_changes c))\<rparr>))"

definition emit_event :: "execution_context \<Rightarrow> event_log \<Rightarrow> execution_context" where
  "emit_event c l = c\<lparr>ec_logs := ec_logs c @ [l]\<rparr>"

definition check_call_depth :: "execution_context \<Rightarrow> vm_error + unit" where
  "check_call_depth c =
     (if ec_call_depth c \<ge> ec_max_call_depth c then Err (CallDepthExceeded (ec_max_call_depth c)) else Ok ())"

section \<open>engine.rs: host functions\<close>

record vm_config =
  vc_max_memory_pages :: u32
  vc_max_call_depth :: u32
  vc_max_code_size :: nat
  vc_max_stack_size :: nat
  vc_fuel_metering :: bool

definition vm_config_default :: vm_config where
  "vm_config_default = \<lparr>vc_max_memory_pages = 256, vc_max_call_depth = 256, vc_max_code_size = 256 * 1024,
     vc_max_stack_size = 1024 * 1024, vc_fuel_metering = True\<rparr>"

record deploy_result =
  dr_contract_address :: address
  dr_code_hash :: blake3hash
  dr_gas_used :: u64
  dr_logs :: "event_log list"

record call_result =
  cr_return_data :: bytes
  cr_gas_used :: u64
  cr_logs :: "event_log list"
  cr_status :: tx_status

record host_state =
  hs_context :: execution_context
  hs_gas_costs :: gas_costs

text \<open>
  A caller is the host state and the exported linear memory, if the module exports one.
  Pointers and lengths are \<open>i32\<close>; \<open>as usize\<close> sign-extends, so a negative pointer is out of
  bounds, and a buffer of negative length cannot be allocated.
\<close>

type_synonym caller = "host_state \<times> bytes option"

definition mem_read :: "bytes \<Rightarrow> i32 \<Rightarrow> nat \<Rightarrow> bytes option" where
  "mem_read m ptr n =
     (if 0 \<le> sint ptr \<and> nat (sint ptr) + n \<le> length m then Some (take n (drop (nat (sint ptr)) m)) else None)"

definition mem_write :: "bytes \<Rightarrow> i32 \<Rightarrow> bytes \<Rightarrow> bytes option" where
  "mem_write m ptr bs =
     (if 0 \<le> sint ptr \<and> nat (sint ptr) + length bs \<le> length m
      then Some (take (nat (sint ptr)) m @ bs @ drop (nat (sint ptr) + length bs) m) else None)"

definition alloc_len :: "i32 \<Rightarrow> nat option" where
  "alloc_len n = (if sint n < 0 then None else Some (nat (sint n)))"

definition charge :: "host_state \<Rightarrow> u64 \<Rightarrow> bool \<times> host_state" where
  "charge h cost = (case consume (ec_gas_meter (hs_context h)) cost of (r, m) \<Rightarrow>
     (r = Ok (), h\<lparr>hs_context := (hs_context h)\<lparr>ec_gas_meter := m\<rparr>\<rparr>))"

definition host_storage_read :: "caller \<Rightarrow> i32 \<Rightarrow> i32 \<Rightarrow> i32 \<Rightarrow> (i32 \<times> caller) option" where
  "host_storage_read cl key_ptr key_len val_ptr = (case cl of (h, mem) \<Rightarrow>
     (case charge h (storage_read_cost (hs_gas_costs h)) of (paid, h1) \<Rightarrow>
       if \<not> paid then Some (- 1, (h1, mem)) else
       (case mem of None \<Rightarrow> Some (- 1, (h1, mem)) | Some m \<Rightarrow>
       (case alloc_len key_len of None \<Rightarrow> None | Some n \<Rightarrow>
       (case mem_read m key_ptr n of None \<Rightarrow> Some (- 1, (h1, mem)) | Some key \<Rightarrow>
       (case storage_read (hs_context h1) (ec_contract_address (hs_context h1)) key of
          Ok (Some v) \<Rightarrow>
            (case mem_write m val_ptr v of None \<Rightarrow> Some (- 1, (h1, mem))
             | Some m' \<Rightarrow> Some (of_nat (length v), (h1, Some m')))
        | _ \<Rightarrow> Some (0, (h1, mem))))))))"

definition host_storage_write :: "caller \<Rightarrow> i32 \<Rightarrow> i32 \<Rightarrow> i32 \<Rightarrow> i32 \<Rightarrow> caller option" where
  "host_storage_write cl key_ptr key_len val_ptr val_len = (case cl of (h, mem) \<Rightarrow>
     (case charge h (storage_write_cost (hs_gas_costs h)) of (_, h1) \<Rightarrow>
       (case mem of None \<Rightarrow> Some (h1, mem) | Some m \<Rightarrow>
       (case alloc_len key_len of None \<Rightarrow> None | Some kn \<Rightarrow>
       (case alloc_len val_len of None \<Rightarrow> None | Some vn \<Rightarrow>
       (case mem_read m key_ptr kn of None \<Rightarrow> Some (h1, mem) | Some key \<Rightarrow>
       (case mem_read m val_ptr vn of None \<Rightarrow> Some (h1, mem) | Some v \<Rightarrow>
         Some (h1\<lparr>hs_context := storage_write (hs_context h1)
           (ec_contract_address (hs_context h1)) key v\<rparr>, mem))))))))"

definition host_write_out :: "caller \<Rightarrow> i32 \<Rightarrow> bytes \<Rightarrow> caller" where
  "host_write_out cl out_ptr bs = (case cl of (h, mem) \<Rightarrow>
     (case mem of None \<Rightarrow> (h, mem) | Some m \<Rightarrow>
       (case mem_write m out_ptr bs of None \<Rightarrow> (h, mem) | Some m' \<Rightarrow> (h, Some m'))))"

definition host_caller :: "caller \<Rightarrow> i32 \<Rightarrow> caller" where
  "host_caller cl out_ptr = host_write_out cl out_ptr (to_be_bytes (ec_caller (hs_context (fst cl))))"

definition host_self_address :: "caller \<Rightarrow> i32 \<Rightarrow> caller" where
  "host_self_address cl out_ptr =
     host_write_out cl out_ptr (to_be_bytes (ec_contract_address (hs_context (fst cl))))"

definition host_block_number :: "caller \<Rightarrow> i64" where
  "host_block_number cl = ec_block_number (hs_context (fst cl))"

definition host_block_timestamp :: "caller \<Rightarrow> i64" where
  "host_block_timestamp cl = ec_block_timestamp (hs_context (fst cl))"

definition host_chain_id :: "caller \<Rightarrow> i64" where
  "host_chain_id cl = ec_chain_id (hs_context (fst cl))"

definition host_self_balance :: "caller \<Rightarrow> i64" where
  "host_self_balance cl = (let c = hs_context (fst cl) in
     ucast (case ctx_get_balance c (ec_contract_address c) of Ok b \<Rightarrow> b | Err _ \<Rightarrow> 0))"

definition host_transfer :: "caller \<Rightarrow> i32 \<Rightarrow> i64 \<Rightarrow> i32 \<times> caller" where
  "host_transfer cl to_ptr amount = (case cl of (h, mem) \<Rightarrow>
     (case charge h (transfer_cost (hs_gas_costs h)) of (paid, h1) \<Rightarrow>
       if \<not> paid then (- 1, (h1, mem)) else
       (case mem of None \<Rightarrow> (- 1, (h1, mem)) | Some m \<Rightarrow>
       (case mem_read m to_ptr 20 of None \<Rightarrow> (- 1, (h1, mem)) | Some to_bytes \<Rightarrow>
       (case ctx_transfer (hs_context h1) (ec_contract_address (hs_context h1))
          (from_be_bytes to_bytes) (scast amount) of
          Ok c' \<Rightarrow> (0, (h1\<lparr>hs_context := c'\<rparr>, mem))
        | Err _ \<Rightarrow> (- 1, (h1, mem)))))))"

definition host_emit_event :: "caller \<Rightarrow> i32 \<Rightarrow> i32 \<Rightarrow> i32 \<Rightarrow> i32 \<Rightarrow> caller option" where
  "host_emit_event cl topics_ptr topics_count data_ptr data_len = (case cl of (h, mem) \<Rightarrow>
     let g = hs_gas_costs h;
         base_cost = event_base_cost g;
         topic_cost = event_per_topic_cost g * scast topics_count;
         data_cost = event_per_byte_cost g * scast data_len
     in (case charge h (base_cost + topic_cost + data_cost) of (paid, h1) \<Rightarrow>
       if \<not> paid then Some (h1, mem) else
       (case mem of None \<Rightarrow> Some (h1, mem) | Some m \<Rightarrow>
       (case alloc_len data_len of None \<Rightarrow> None | Some n \<Rightarrow>
       (case mem_read m data_ptr n of None \<Rightarrow> Some (h1, mem) | Some d \<Rightarrow>
         Some (h1\<lparr>hs_context := emit_event (hs_context h1)
           \<lparr>ev_address = ec_contract_address (hs_context h1), ev_topics = [], ev_data = d\<rparr>\<rparr>, mem))))))"

text \<open>
  \<open>host_abort\<close> traps with a message, kept here as the bytes that \<open>from_utf8_lossy\<close> renders.
  It allocates only for a positive length, so it never panics.
\<close>

definition host_abort :: "caller \<Rightarrow> i32 \<Rightarrow> i32 \<Rightarrow> bytes" where
  "host_abort cl msg_ptr msg_len =
     (if 0 < sint msg_len then
        (case snd cl of None \<Rightarrow> string_bytes ''contract aborted'' | Some m \<Rightarrow>
          (case mem_read m msg_ptr (nat (sint msg_len)) of Some buf \<Rightarrow> buf
           | None \<Rightarrow> string_bytes ''contract aborted''))
      else string_bytes ''contract aborted'')"

text \<open>
  One action of a running module on the node: a write to its own memory, or a host call that
  returns. The calls that only read the context do not change it and are not listed.
\<close>

inductive host_step :: "caller \<Rightarrow> caller \<Rightarrow> bool" where
  guest_write: "host_step (h, mem) (h, mem')"
| call_storage_read: "host_storage_read cl kp kl vp = Some (r, cl') \<Longrightarrow> host_step cl cl'"
| call_storage_write: "host_storage_write cl kp kl vp vl = Some cl' \<Longrightarrow> host_step cl cl'"
| call_caller: "host_step cl (host_caller cl p)"
| call_self_address: "host_step cl (host_self_address cl p)"
| call_transfer: "host_transfer cl p a = (r, cl') \<Longrightarrow> host_step cl cl'"
| call_emit_event: "host_emit_event cl tp tc dp dl = Some cl' \<Longrightarrow> host_step cl cl'"

inductive host_steps :: "caller \<Rightarrow> caller \<Rightarrow> bool" where
  steps_refl: "host_steps cl cl"
| steps_step: "host_steps cl cl' \<Longrightarrow> host_step cl' cl'' \<Longrightarrow> host_steps cl cl''"

section \<open>engine.rs: the engine\<close>

record ('m, 'i) wasmtime =
  wt_validate :: "bytes \<Rightarrow> string + unit"
  wt_compile :: "bytes \<Rightarrow> string + 'm"
  wt_set_fuel :: "u64 \<Rightarrow> string + unit"
  wt_instantiate :: "'m \<Rightarrow> u64 \<Rightarrow> host_state \<Rightarrow> string + ('i \<times> host_state)"
  wt_typed_func :: "'i \<Rightarrow> string \<Rightarrow> nat \<Rightarrow> bool"
  wt_call :: "'i \<Rightarrow> string \<Rightarrow> i32 list \<Rightarrow> host_state \<Rightarrow> string + (i32 \<times> 'i \<times> host_state)"
  wt_memory :: "'i \<Rightarrow> bytes option"
  wt_set_memory :: "'i \<Rightarrow> bytes \<Rightarrow> 'i"

text \<open>A module reaches the host state only through host calls.\<close>

definition wasm_ok :: "('m, 'i) wasmtime \<Rightarrow> bool" where
  "wasm_ok W \<longleftrightarrow>
     (\<forall>m fuel h i h'. wt_instantiate W m fuel h = Ok (i, h') \<longrightarrow>
        (\<exists>mem. host_steps (h, mem) (h', wt_memory W i))) \<and>
     (\<forall>i f as h r i' h'. wt_call W i f as h = Ok (r, i', h') \<longrightarrow>
        host_steps (h, wt_memory W i) (h', wt_memory W i'))"

record 'm wasm_engine =
  we_module_cache :: "(blake3hash, 'm) hmap"
  we_config :: vm_config
  we_gas_costs :: gas_costs

definition wasm_engine_new :: "vm_config \<Rightarrow> 'm wasm_engine" where
  "wasm_engine_new cfg = \<lparr>we_module_cache = [], we_config = cfg, we_gas_costs = gas_costs_default\<rparr>"

definition validate_module :: "('m, 'i) wasmtime \<Rightarrow> 'm wasm_engine \<Rightarrow> bytes \<Rightarrow> vm_error + unit" where
  "validate_module W E code =
     (if length code > vc_max_code_size (we_config E)
      then Err (CodeTooLarge (vc_max_code_size (we_config E)) (length code))
      else map_err InvalidModule (wt_validate W code))"

definition compile_module :: "'p crypto_prims_scheme \<Rightarrow> ('m, 'i) wasmtime \<Rightarrow> 'm wasm_engine \<Rightarrow> bytes \<Rightarrow>
    vm_error + ('m \<times> blake3hash \<times> 'm wasm_engine)" where
  "compile_module P W E code =
     (let code_hash = hash P code in
      case hm_get (we_module_cache E) code_hash of
        Some cached \<Rightarrow> Ok (cached, code_hash, E)
      | None \<Rightarrow>
          and_then (validate_module W E code) (\<lambda>_.
          and_then (map_err Compilation (wt_compile W code)) (\<lambda>m.
            Ok (m, code_hash, E\<lparr>we_module_cache := hm_put code_hash m (we_module_cache E)\<rparr>))))"

text \<open>
  The function to run, with its arguments: an allocation in the module and a copy of the
  argument bytes where the module offers \<open>allocate\<close>, no arguments otherwise.
\<close>

definition call_entry :: "('m, 'i) wasmtime \<Rightarrow> 'i \<Rightarrow> string \<Rightarrow> i32 list \<Rightarrow> host_state \<Rightarrow> vm_error + (bytes \<times> host_state)" where
  "call_entry W i f as h =
     (if \<not> wt_typed_func W i f (length as) then Err (FunctionNotFound f)
      else map_ok (\<lambda>(r, i', h'). ([ucast r], h')) (map_err Trap (wt_call W i f as h)))"

definition call_with_args :: "('m, 'i) wasmtime \<Rightarrow> 'i \<Rightarrow> string \<Rightarrow> bytes \<Rightarrow> host_state \<Rightarrow> vm_error + (bytes \<times> host_state)" where
  "call_with_args W i f args h =
     and_then (map_err Execution (wt_call W i ''allocate'' [of_nat (length args)] h)) (\<lambda>(ptr, i1, h1).
       case wt_memory W i1 of None \<Rightarrow> Err (Execution ''no memory export'') | Some m \<Rightarrow>
       (case mem_write m ptr args of
          None \<Rightarrow> Err (MemoryOutOfBounds ptr (of_nat (length args)) (of_nat (length m div 65536) * 65536))
        | Some m' \<Rightarrow> call_entry W (wt_set_memory W i1 m') f [ptr, of_nat (length args)] h1))"

definition run_module :: "('m, 'i) wasmtime \<Rightarrow> 'm wasm_engine \<Rightarrow> 'm \<Rightarrow> string \<Rightarrow> bytes \<Rightarrow> execution_context \<Rightarrow>
    vm_error + (bytes \<times> host_state)" where
  "run_module W E m f args c =
     (let h = \<lparr>hs_context = c, hs_gas_costs = we_gas_costs E\<rparr>; fuel = remaining (ec_gas_meter c) in
      and_then (if vc_fuel_metering (we_config E) then map_err Execution (wt_set_fuel W fuel) else Ok ()) (\<lambda>_.
      and_then (map_err Execution (wt_instantiate W m fuel h)) (\<lambda>(i, h1).
        if args \<noteq> [] \<and> wt_typed_func W i ''allocate'' 1 then call_with_args W i f args h1
        else call_entry W i f [] h1)))"

text \<open>
  \<open>execute_function\<close> moves the context into the store and moves it back only on success: after
  an error the caller is left with the empty context that replaced it.
\<close>

definition execute_function :: "('m, 'i) wasmtime \<Rightarrow> 'm wasm_engine \<Rightarrow> 'm \<Rightarrow> string \<Rightarrow> bytes \<Rightarrow> execution_context \<Rightarrow>
    (vm_error + bytes) \<times> execution_context" where
  "execute_function W E m f args c = (case run_module W E m f args c of
      Ok (d, h) \<Rightarrow> (Ok d, hs_context h)
    | Err e \<Rightarrow> (Err e, execution_context_new 0 0 0 0 0 0 0 0 (ec_state_reader c)))"

definition contract_address_of :: "'p crypto_prims_scheme \<Rightarrow> address \<Rightarrow> block_number \<Rightarrow> address" where
  "contract_address_of P cl n =
     from_be_bytes (take 20 (to_be_bytes (hash_multiple P [to_be_bytes cl, to_le_bytes n])))"

definition deploy_contract :: "'p crypto_prims_scheme \<Rightarrow> ('m, 'i) wasmtime \<Rightarrow> 'm wasm_engine \<Rightarrow> bytes \<Rightarrow> bytes \<Rightarrow>
    execution_context \<Rightarrow> (vm_error + deploy_result) \<times> execution_context \<times> 'm wasm_engine" where
  "deploy_contract P W E code constructor_args c = (case compile_module P W E code of
      Err e \<Rightarrow> (Err e, c, E)
    | Ok (m, code_hash, E') \<Rightarrow>
       (let ca = contract_address_of P (ec_caller c) (ec_block_number c);
            c1 = c\<lparr>ec_contract_address := ca\<rparr>;
            gas_before = gm_consumed (ec_gas_meter c1);
            (r, c2) = execute_function W E' m ''init'' constructor_args c1;
            res = (Ok \<lparr>dr_contract_address = ca, dr_code_hash = code_hash,
                      dr_gas_used = gm_consumed (ec_gas_meter c2) - gas_before, dr_logs = ec_logs c2\<rparr>,
                    c2\<lparr>ec_logs := []\<rparr>, E')
        in case r of
             Ok _ \<Rightarrow> res
           | Err (FunctionNotFound _) \<Rightarrow> res
           | Err e \<Rightarrow> (Err e, c2, E')))"

definition load_module :: "'p crypto_prims_scheme \<Rightarrow> ('m, 'i) wasmtime \<Rightarrow> 'm wasm_engine \<Rightarrow> blake3hash \<Rightarrow>
    execution_context \<Rightarrow> vm_error + ('m \<times> 'm wasm_engine)" where
  "load_module P W E code_hash c = (case hm_get (we_module_cache E) code_hash of
      Some cached \<Rightarrow> Ok (cached, E)
    | None \<Rightarrow>
        and_then (rd_code (ec_state_reader c) code_hash) (\<lambda>code.
        and_then (ok_or (ContractNotFound (hash_to_hex P code_hash)) code) (\<lambda>bytecode.
          map_ok (\<lambda>(m, _, E'). (m, E')) (compile_module P W E bytecode))))"

definition finish_call :: "u64 \<Rightarrow> vm_error + bytes \<Rightarrow> execution_context \<Rightarrow> call_result \<times> execution_context" where
  "finish_call gas_before r c = (case r of
      Ok d \<Rightarrow>
        (\<lparr>cr_return_data = d, cr_gas_used = gm_consumed (ec_gas_meter c) - gas_before,
          cr_logs = ec_logs c, cr_status = Success\<rparr>, c\<lparr>ec_logs := []\<rparr>)
    | Err (VmOutOfGas limit _) \<Rightarrow>
        (\<lparr>cr_return_data = [], cr_gas_used = limit, cr_logs = [], cr_status = OutOfGas\<rparr>, c)
    | Err e \<Rightarrow>
        (\<lparr>cr_return_data = [], cr_gas_used = gm_consumed (ec_gas_meter c) - gas_before,
          cr_logs = [], cr_status = Failure (vm_error_to_string e)\<rparr>, c))"

definition call_contract :: "'p crypto_prims_scheme \<Rightarrow> ('m, 'i) wasmtime \<Rightarrow> 'm wasm_engine \<Rightarrow> blake3hash \<Rightarrow> string \<Rightarrow>
    bytes \<Rightarrow> execution_context \<Rightarrow> (vm_error + call_result) \<times> execution_context \<times> 'm wasm_engine" where
  "call_contract P W E code_hash f args c = (case load_module P W E code_hash c of
      Err e \<Rightarrow> (Err e, c, E)
    | Ok (m, E') \<Rightarrow>
       (case execute_function W E' m f args c of (r, c2) \<Rightarrow>
       (case finish_call (gm_consumed (ec_gas_meter c)) r c2 of (cr, c3) \<Rightarrow> (Ok cr, c3, E'))))"

section \<open>Gas\<close>

definition meter_ok :: "gas_meter \<Rightarrow> bool" where
  "meter_ok m \<longleftrightarrow> gm_consumed m \<le> gm_limit m"

lemma meter_ok_new [simp]: "meter_ok (gas_meter_new l)" "gm_consumed (gas_meter_new l) = 0"
  "gm_limit (gas_meter_new l) = l"
  by (simp_all add: meter_ok_def gas_meter_new_def)

lemma consume_limit: "gm_limit (snd (consume m n)) = gm_limit m"
  by (simp add: consume_def Let_def)

lemma consume_ok: "meter_ok m \<Longrightarrow> meter_ok (snd (consume m n))"
  by (simp add: consume_def Let_def meter_ok_def not_less)

lemma consume_mono: "meter_ok m \<Longrightarrow> gm_consumed m \<le> gm_consumed (snd (consume m n))"
  by (auto simp: consume_def Let_def meter_ok_def word_le_nat_alt unat_saturating_add min_def
      dest: unat_le_max [of "gm_consumed m", simplified, THEN le_trans])
    (use unat_le_max [of "gm_consumed m"] in simp)

text \<open>Within the range of the type, gas is granted exactly when it is left.\<close>

lemma consume_exact:
  assumes "unat (gm_consumed m) + unat n < 2 ^ 64"
  shows "fst (consume m n) = Ok () \<longleftrightarrow> unat (gm_consumed m) + unat n \<le> unat (gm_limit m)"
    and "fst (consume m n) = Ok () \<Longrightarrow> unat (gm_consumed (snd (consume m n))) = unat (gm_consumed m) + unat n"
    and "fst (consume m n) \<noteq> Ok () \<Longrightarrow> remaining (snd (consume m n)) = 0 \<and> is_exhausted (snd (consume m n))"
  using assms
  by (auto simp: consume_def Let_def word_less_nat_alt unat_saturating_add not_less remaining_def
      saturating_sub_def is_exhausted_def split: if_splits)

section \<open>The journal\<close>

lemma storage_read_write:
  "storage_read (storage_write c a k v) b l = (if b = a \<and> l = k then Ok (Some v) else storage_read c b l)"
  by (simp add: storage_read_def storage_write_def split: option.split)

lemma storage_read_delete:
  "storage_read (storage_delete c a k) b l = (if b = a \<and> l = k then Ok None else storage_read c b l)"
  by (simp add: storage_read_def storage_delete_def split: option.split)

definition delta_sum :: "(address, i128) hmap \<Rightarrow> i128" where
  "delta_sum m = sum_list (map snd m)"

lemma delta_sum_put: "delta_sum (hm_put a v m) = delta_sum m - unwrap_or 0 (hm_get m a) + v"
  by (induction m) (auto simp: delta_sum_def algebra_simps split: if_splits)

lemma delta_sum_add: "delta_sum (add_delta a d m) = delta_sum m + d"
  by (simp add: add_delta_def delta_sum_put)

lemma ctx_transfer_Ok:
  assumes "ctx_transfer c from to amount = Ok c'"
  shows "c' = c\<lparr>ec_balance_changes := add_delta to amount (add_delta from (- amount) (ec_balance_changes c))\<rparr>"
    "\<exists>b. ctx_get_balance c from = Ok b \<and> amount \<le> b"
  using assms by (auto simp: ctx_transfer_def result_simps not_less split: if_splits)

section \<open>What host calls can do\<close>

text \<open>The frame of a running contract: what no host call changes, and what it keeps true.\<close>

definition ctx_frame :: "execution_context \<Rightarrow> execution_context \<Rightarrow> bool" where
  "ctx_frame c c' \<longleftrightarrow>
     ec_caller c' = ec_caller c \<and> ec_origin c' = ec_origin c \<and>
     ec_contract_address c' = ec_contract_address c \<and> ec_value c' = ec_value c \<and>
     ec_block_number c' = ec_block_number c \<and> ec_block_timestamp c' = ec_block_timestamp c \<and>
     ec_chain_id c' = ec_chain_id c \<and> ec_state_reader c' = ec_state_reader c \<and>
     gm_limit (ec_gas_meter c') = gm_limit (ec_gas_meter c) \<and>
     (meter_ok (ec_gas_meter c) \<longrightarrow>
        meter_ok (ec_gas_meter c') \<and> gm_consumed (ec_gas_meter c) \<le> gm_consumed (ec_gas_meter c')) \<and>
     (\<forall>a k. a \<noteq> ec_contract_address c \<longrightarrow>
        hm_get (ec_storage_changes c') (a, k) = hm_get (ec_storage_changes c) (a, k)) \<and>
     (hm_wf (ec_balance_changes c) \<longrightarrow> hm_wf (ec_balance_changes c')) \<and>
     delta_sum (ec_balance_changes c') = delta_sum (ec_balance_changes c)"

lemma ctx_frame_refl [simp]: "ctx_frame c c"
  by (simp add: ctx_frame_def)

lemma ctx_frame_trans: "ctx_frame c d \<Longrightarrow> ctx_frame d e \<Longrightarrow> ctx_frame c e"
  unfolding ctx_frame_def by (auto intro: order_trans)

lemma ctx_frame_consume: "ctx_frame c (c\<lparr>ec_gas_meter := snd (consume (ec_gas_meter c) n)\<rparr>)"
  by (simp add: ctx_frame_def consume_limit consume_ok consume_mono)

lemma ctx_frame_storage: "ctx_frame c (storage_write c (ec_contract_address c) k v)"
  by (simp add: ctx_frame_def storage_write_def)

lemma ctx_frame_event: "ctx_frame c (emit_event c l)"
  by (simp add: ctx_frame_def emit_event_def)

lemma ctx_frame_transfer: "ctx_transfer c from to amount = Ok c' \<Longrightarrow> ctx_frame c c'"
  using ctx_transfer_Ok(1) [of c "from" to amount c']
  by (simp add: ctx_frame_def delta_sum_add) (simp add: add_delta_def)

abbreviation host_frame :: "caller \<Rightarrow> caller \<Rightarrow> bool" where
  "host_frame cl cl' \<equiv> ctx_frame (hs_context (fst cl)) (hs_context (fst cl')) \<and>
     hs_gas_costs (fst cl') = hs_gas_costs (fst cl)"

lemma charge_frame:
  assumes "charge h n = (p, h1)"
  shows "ctx_frame (hs_context h) (hs_context h1)" "hs_gas_costs h1 = hs_gas_costs h"
proof -
  have "h1 = h\<lparr>hs_context := (hs_context h)\<lparr>ec_gas_meter := snd (consume (ec_gas_meter (hs_context h)) n)\<rparr>\<rparr>"
    using assms by (auto simp: charge_def split: prod.splits)
  then show "ctx_frame (hs_context h) (hs_context h1)" "hs_gas_costs h1 = hs_gas_costs h"
    using ctx_frame_consume by simp_all
qed

lemmas ctx_frame_step =
  ctx_frame_trans [OF _ ctx_frame_storage] ctx_frame_trans [OF _ ctx_frame_event]
  ctx_frame_trans [OF _ ctx_frame_transfer]

lemma host_storage_read_frame: "host_storage_read cl kp kl vp = Some (r, cl') \<Longrightarrow> host_frame cl cl'"
  by (auto simp: host_storage_read_def dest: charge_frame split: prod.splits if_splits option.splits sum.splits)

lemma host_storage_write_frame: "host_storage_write cl kp kl vp vl = Some cl' \<Longrightarrow> host_frame cl cl'"
  by (auto simp: host_storage_write_def dest: charge_frame intro!: ctx_frame_step(1)
      split: prod.splits option.splits)

lemma host_write_out_fst [simp]: "fst (host_write_out cl p bs) = fst cl"
  by (auto simp: host_write_out_def split: prod.splits option.splits)

lemma host_transfer_frame: "host_transfer cl p a = (r, cl') \<Longrightarrow> host_frame cl cl'"
  by (auto simp: host_transfer_def dest: charge_frame intro: ctx_frame_step(3)
      split: prod.splits if_splits option.splits sum.splits)

lemma host_emit_event_frame: "host_emit_event cl tp tc dp dl = Some cl' \<Longrightarrow> host_frame cl cl'"
  by (auto simp: host_emit_event_def Let_def dest: charge_frame intro!: ctx_frame_step(2)
      split: prod.splits if_splits option.splits)

lemma host_step_frame: "host_step cl cl' \<Longrightarrow> host_frame cl cl'"
  by (induction rule: host_step.induct)
    (auto simp: host_caller_def host_self_address_def dest: host_storage_read_frame host_storage_write_frame
      host_transfer_frame host_emit_event_frame)

lemma host_steps_frame: "host_steps cl cl' \<Longrightarrow> host_frame cl cl'"
  by (induction rule: host_steps.induct) (auto dest: host_step_frame intro: ctx_frame_trans)

section \<open>Running a contract\<close>

lemma call_entry_frame:
  "wasm_ok W \<Longrightarrow> call_entry W i f as h = Ok (d, h') \<Longrightarrow> ctx_frame (hs_context h) (hs_context h')"
  using host_steps_frame
  by (fastforce simp: call_entry_def result_simps wasm_ok_def split: if_splits)

lemma call_with_args_frame:
  assumes "wasm_ok W" "call_with_args W i f args h = Ok (d, h')"
  shows "ctx_frame (hs_context h) (hs_context h')"
proof -
  obtain ptr i1 h1 m m' where
    call: "wt_call W i ''allocate'' [of_nat (length args)] h = Ok (ptr, i1, h1)" and
    ent: "call_entry W (wt_set_memory W i1 m') f [ptr, of_nat (length args)] h1 = Ok (d, h')"
    using assms(2) by (auto simp: call_with_args_def and_then_def map_err_def split: option.splits sum.splits)
  have "host_steps (h, wt_memory W i) (h1, wt_memory W i1)"
    using assms(1) call unfolding wasm_ok_def by blast
  then have "ctx_frame (hs_context h) (hs_context h1)" using host_steps_frame by fastforce
  then show ?thesis using call_entry_frame [OF assms(1) ent] by (rule ctx_frame_trans)
qed

lemma run_module_frame:
  assumes "wasm_ok W" "run_module W E m f args c = Ok (d, h)"
  shows "ctx_frame c (hs_context h)"
proof -
  let ?h = "\<lparr>hs_context = c, hs_gas_costs = we_gas_costs E\<rparr>"
  obtain fuel i h1 where inst: "wt_instantiate W m fuel ?h = Ok (i, h1)" and
    run: "call_with_args W i f args h1 = Ok (d, h) \<or> call_entry W i f [] h1 = Ok (d, h)"
    using assms(2) by (auto simp: run_module_def Let_def result_simps split: if_splits)
  obtain mem where "host_steps (?h, mem) (h1, wt_memory W i)"
    using assms(1) inst unfolding wasm_ok_def by blast
  then have "ctx_frame c (hs_context h1)" using host_steps_frame by fastforce
  then show ?thesis
    using run call_with_args_frame [OF assms(1)] call_entry_frame [OF assms(1)] ctx_frame_trans by blast
qed

lemma execute_function_Ok:
  "wasm_ok W \<Longrightarrow> execute_function W E m f args c = (Ok d, c') \<Longrightarrow> ctx_frame c c'"
  by (auto simp: execute_function_def dest: run_module_frame split: sum.splits)

lemma execute_function_Err:
  "execute_function W E m f args c = (Err e, c') \<Longrightarrow>
     c' = execution_context_new 0 0 0 0 0 0 0 0 (ec_state_reader c)"
  by (auto simp: execute_function_def split: sum.splits)

text \<open>No run ends with the error that \<open>call_contract\<close> reports as \<open>OutOfGas\<close>.\<close>

lemma run_module_not_out_of_gas: "run_module W E m f args c \<noteq> Err (VmOutOfGas l u)"
  by (auto simp: run_module_def call_with_args_def call_entry_def Let_def result_simps map_ok_def
      split: if_splits option.splits sum.splits prod.splits)

lemma call_contract_cases:
  assumes "call_contract P W E code_hash f args c = (Ok r, c', E')"
  obtains (success) m c2 where "execute_function W E' m f args c = (Ok (cr_return_data r), c2)"
      "cr_status r = Success" "c' = c2\<lparr>ec_logs := []\<rparr>" "cr_logs r = ec_logs c2"
      "cr_gas_used r = gm_consumed (ec_gas_meter c2) - gm_consumed (ec_gas_meter c)"
  | (failure) m e where "execute_function W E' m f args c = (Err e, c')"
      "cr_status r = Failure (vm_error_to_string e)" "cr_logs r = []"
      "cr_gas_used r = gm_consumed (ec_gas_meter c') - gm_consumed (ec_gas_meter c)"
proof -
  obtain m res c2 where ex: "execute_function W E' m f args c = (res, c2)"
      and fin: "finish_call (gm_consumed (ec_gas_meter c)) res c2 = (r, c')"
    using assms by (auto simp: call_contract_def split: sum.splits prod.splits)
  have noog: "res \<noteq> Err (VmOutOfGas l u)" for l u
    using ex run_module_not_out_of_gas [of W E' m f args c l u]
    by (auto simp: execute_function_def split: sum.splits)
  show thesis
  proof (cases res)
    case (Inl e)
    then show thesis using fin ex noog by (intro failure [of m e]) (auto simp: finish_call_def split: vm_error.splits)
  next
    case (Inr d)
    then show thesis using fin ex by (intro success [of m c2]) (auto simp: finish_call_def)
  qed
qed

text \<open>
  C13 (confinement of contract calls). A contract call that succeeds uses no more gas than was
  left on the meter, changes no storage slot of any other contract, and leaves the sum of the
  balance changes (in \<open>i128\<close> arithmetic) as it was, whatever the module does with the host
  functions.
\<close>

theorem call_contract_confined:
  assumes "wasm_ok W" "meter_ok (ec_gas_meter c)"
    and "call_contract P W E code_hash f args c = (Ok r, c', E')" "cr_status r = Success"
  shows "cr_gas_used r \<le> remaining (ec_gas_meter c) \<and>
    delta_sum (ec_balance_changes c') = delta_sum (ec_balance_changes c) \<and>
    (\<forall>a k. a \<noteq> ec_contract_address c \<longrightarrow>
       hm_get (ec_storage_changes c') (a, k) = hm_get (ec_storage_changes c) (a, k))"
  using assms(3)
proof (cases rule: call_contract_cases)
  case (success m c2)
  have fr: "ctx_frame c c2" using execute_function_Ok [OF assms(1) success(1)] .
  let ?g = "ec_gas_meter c" and ?g2 = "ec_gas_meter c2"
  have g: "gm_limit ?g2 = gm_limit ?g" "gm_consumed ?g2 \<le> gm_limit ?g2" "gm_consumed ?g \<le> gm_consumed ?g2"
    using fr assms(2) unfolding ctx_frame_def meter_ok_def by blast+
  then have "cr_gas_used r \<le> remaining ?g"
    using success(5) assms(2)
    by (simp add: remaining_def word_le_nat_alt unat_sub meter_ok_def)
  with fr success(3) show ?thesis by (simp add: ctx_frame_def)
qed (use assms(4) in simp)

text \<open>
  Failed contract calls are free. When the module traps or cannot be run, the context
  that counted the gas is lost: on a fresh meter a call that does not succeed reports zero gas
  used, keeps no change of storage or balance, and is never reported as out of gas.
\<close>

theorem call_contract_failure_free:
  assumes "gm_consumed (ec_gas_meter c) = 0"
    and "call_contract P W E code_hash f args c = (Ok r, c', E')" "cr_status r \<noteq> Success"
  shows "cr_gas_used r = 0 \<and> ec_storage_changes c' = [] \<and> ec_balance_changes c' = [] \<and> cr_status r \<noteq> OutOfGas"
  using assms(2)
proof (cases rule: call_contract_cases)
  case (failure m e)
  then show ?thesis using assms(1) execute_function_Err [OF failure(1)]
    by (simp add: execution_context_new_def)
qed (use assms(3) in simp)

section \<open>Transfers between contracts\<close>

lemma sint_nonneg_iff: "0 \<le> sint (w :: i128) \<longleftrightarrow> unat w < 2 ^ 127"
proof -
  have "uint w < 2 ^ 128" using uint_lt2p [of w] by simp
  then have "odd (uint w div 2 ^ 127) \<longleftrightarrow> 2 ^ 127 \<le> uint w"
    by (cases "uint w < 2 ^ 127") (simp_all add: div_pos_geq)
  then show ?thesis
    using of_nat_less_iff [of "unat w" "2 ^ 127", where ?'a = int]
    by (simp add: sint_uint signed_take_bit_nonnegative_iff bit_iff_odd not_le)
qed

text \<open>The balance that the context computes for an address, before it is cut off at zero.\<close>

definition raw_balance :: "execution_context \<Rightarrow> address \<Rightarrow> vm_error + i128" where
  "raw_balance c a = map_ok (\<lambda>r. (case r of None \<Rightarrow> 0 | Some acc \<Rightarrow> acc_balance acc) +
     unwrap_or 0 (hm_get (ec_balance_changes c) a)) (rd_account (ec_state_reader c) a)"

lemma ctx_get_balance_raw:
  "ctx_get_balance c a = map_ok (\<lambda>s. if sint s < 0 then 0 else s) (raw_balance c a)"
  by (cases "rd_account (ec_state_reader c) a") (simp_all add: ctx_get_balance_def raw_balance_def Let_def)

lemma raw_balance_add_delta:
  "raw_balance (c\<lparr>ec_balance_changes := add_delta b d (ec_balance_changes c)\<rparr>) a =
     map_ok (\<lambda>s. if a = b then s + d else s) (raw_balance c a)"
  by (cases "rd_account (ec_state_reader c) a")
    (simp_all add: raw_balance_def add_delta_def)

lemma raw_balance_transfer:
  assumes "ctx_transfer c from to amount = Ok c'"
  shows "raw_balance c' a = map_ok (\<lambda>s. (if a = from then s - amount else s) + (if a = to then amount else 0)) (raw_balance c a)"
proof -
  let ?c1 = "c\<lparr>ec_balance_changes := add_delta from (- amount) (ec_balance_changes c)\<rparr>"
  have "c' = ?c1\<lparr>ec_balance_changes := add_delta to amount (ec_balance_changes ?c1)\<rparr>"
    using ctx_transfer_Ok(1) [OF assms] by simp
  then have "raw_balance c' a = map_ok (\<lambda>s. if a = to then s + amount else s)
      (map_ok (\<lambda>s. if a = from then s + - amount else s) (raw_balance c a))"
    by (simp only: raw_balance_add_delta)
  then show ?thesis by (cases "raw_balance c a") simp_all
qed

text \<open>
  Transfers between contracts. A transfer that the context grants moves exactly the
  amount: the sender had it, the balances of sender and receiver change by it, and no other
  balance changes, as long as the receiver's balance is not negative and stays within \<open>i128\<close>.
\<close>

theorem ctx_transfer_exact:
  assumes "ctx_transfer c from to amount = Ok c'" "from \<noteq> to"
    and "raw_balance c to = Ok t" "0 \<le> sint t" "unat t + unat amount < 2 ^ 127"
  shows "\<exists>b. ctx_get_balance c from = Ok b \<and> amount \<le> b \<and> ctx_get_balance c' from = Ok (b - amount) \<and>
    ctx_get_balance c' to = Ok (t + amount) \<and>
    (\<forall>a. a \<noteq> from \<and> a \<noteq> to \<longrightarrow> ctx_get_balance c' a = ctx_get_balance c a)"
proof -
  obtain b where b: "ctx_get_balance c from = Ok b" "amount \<le> b" using ctx_transfer_Ok(2) [OF assms(1)] by blast
  then obtain s where s: "raw_balance c from = Ok s" "b = (if sint s < 0 then 0 else s)"
    by (auto simp: ctx_get_balance_raw result_simps)
  have "sint (s - amount) < 0 \<longleftrightarrow> sint s < 0"
  proof (cases "sint s < 0")
    case True
    then show ?thesis using s b by simp
  next
    case False
    then have "amount \<le> s" "unat s < 2 ^ 127" using s b sint_nonneg_iff [of s] by simp_all
    then have "unat (s - amount) < 2 ^ 127" by (simp add: unat_sub)
    then show ?thesis using False sint_nonneg_iff [of "s - amount"] by linarith
  qed
  then have "ctx_get_balance c' from = Ok (b - amount)"
    using s b assms(2) by (auto simp: ctx_get_balance_raw raw_balance_transfer [OF assms(1)])
  moreover have "unat (t + amount) = unat t + unat amount"
    using assms(5) by (intro unat_add_nowrap) simp
  then have "0 \<le> sint (t + amount)" using assms(5) by (simp add: sint_nonneg_iff)
  then have "ctx_get_balance c' to = Ok (t + amount)"
    using assms(2,3) by (simp add: ctx_get_balance_raw raw_balance_transfer [OF assms(1)])
  moreover have "\<forall>a. a \<noteq> from \<and> a \<noteq> to \<longrightarrow> ctx_get_balance c' a = ctx_get_balance c a"
    by (auto simp: ctx_get_balance_raw raw_balance_transfer [OF assms(1)] map_ok_def split: sum.split)
  ultimately show ?thesis using b by blast
qed

section \<open>Linear memory\<close>

lemma mem_read_write: "mem_write m p bs = Some m' \<Longrightarrow> mem_read m' p (length bs) = Some bs \<and> length m' = length m"
  by (auto simp: mem_write_def mem_read_def split: if_splits)

text \<open>A negative length makes the host function panic, whatever the contract has left to spend.\<close>

lemma host_storage_write_panics:
  "sint key_len < 0 \<Longrightarrow> host_storage_write (h, Some m) key_ptr key_len val_ptr val_len = None"
  by (simp add: host_storage_write_def alloc_len_def split: prod.split)

text \<open>A write is journaled even when the gas for it is not left.\<close>

lemma host_storage_write_unpaid:
  assumes "mem_read m kp (nat (sint kl)) = Some k" "mem_read m vp (nat (sint vl)) = Some v"
    "0 \<le> sint kl" "0 \<le> sint vl" "host_storage_write (h, Some m) kp kl vp vl = Some (h', mem')"
  shows "hm_get (ec_storage_changes (hs_context h')) (ec_contract_address (hs_context h), k) = Some (Some v)"
  using assms by (auto simp: host_storage_write_def alloc_len_def storage_write_def charge_def
      split: prod.splits)

section \<open>The journal as a store of slots\<close>

interpretation journal: slot_store
  "\<lambda>c (a, k). case storage_read c a k of Ok r \<Rightarrow> r | Err _ \<Rightarrow> None"
  "\<lambda>c (a, k) v. storage_write c a k v" "\<lambda>c (a, k). storage_delete c a k"
  by unfold_locales (auto simp: storage_read_write storage_read_delete split: prod.splits sum.splits)

text \<open>
  Journaled storage. After any sequence of writes of a contract, a read of the journal
  returns the last value written to the slot, and what the state reader has for a slot that
  was not written.
\<close>

theorem journal_last_write:
  "(case storage_read (foldl (\<lambda>c ((a, k), v). storage_write c a k v) c ws) a k of Ok r \<Rightarrow> r | Err _ \<Rightarrow> None) =
   (case map_of (rev ws) (a, k) of Some v \<Rightarrow> Some v
    | None \<Rightarrow> (case storage_read c a k of Ok r \<Rightarrow> r | Err _ \<Rightarrow> None))"
proof -
  have "foldl (\<lambda>c ((a, k), v). storage_write c a k v) c ws =
      foldl (\<lambda>c (ak, v). case ak of (a, k) \<Rightarrow> storage_write c a k v) c ws"
    by (rule arg_cong [of _ _ "\<lambda>f. foldl f c ws"]) (auto simp: fun_eq_iff)
  then show ?thesis using journal.wr_all [of c ws "(a, k)"] by (simp split: option.split)
qed

section \<open>Witnesses\<close>

text \<open>
  A module whose function sends five units to the address at offset 0 of its memory, and one
  that traps.
\<close>

definition sending_module :: "(unit, bytes option) wasmtime" where
  "sending_module = \<lparr>wt_validate = (\<lambda>_. Ok ()), wt_compile = (\<lambda>_. Ok ()), wt_set_fuel = (\<lambda>_. Ok ()),
     wt_instantiate = (\<lambda>_ _ h. Ok (Some (replicate 64 0), h)), wt_typed_func = (\<lambda>_ _ n. n = 0),
     wt_call = (\<lambda>i _ _ h. case host_transfer (h, i) 0 5 of (r, h', i') \<Rightarrow> Ok (r, i', h')),
     wt_memory = (\<lambda>i. i), wt_set_memory = (\<lambda>_ m. Some m)\<rparr>"

definition trapping_module :: "(unit, bytes option) wasmtime" where
  "trapping_module = sending_module\<lparr>wt_call := (\<lambda>_ _ _ _. Err ''unreachable'')\<rparr>"

definition example_reader :: state_reader where
  "example_reader = \<lparr>rd_account = (\<lambda>a. Ok (if a = 9 then Some (account_new 9 100) else None)),
     rd_storage = (\<lambda>_ _. Ok None), rd_code = (\<lambda>_. Ok (Some [0]))\<rparr>"

definition example_ctx :: execution_context where
  "example_ctx = execution_context_new 1 1 9 0 7 1000 1 10000 example_reader"

lemma sending_module_ok: "wasm_ok sending_module"
proof -
  have "host_steps (h, i) (h', i')" if "host_transfer (h, i) p a = (r, h', i')" for h i p a r h' i'
    using steps_step [OF steps_refl call_transfer [OF that]] .
  moreover have "\<exists>mem. host_steps (h, mem) (h, m)" for h m
    using steps_step [OF steps_refl guest_write] by blast
  ultimately show ?thesis
    by (auto simp: wasm_ok_def sending_module_def split: prod.splits)
qed

lemma le_nat_zeros: "le_nat (replicate n 0) = 0"
  by (induction n) simp_all

lemma example_call:
  "call_contract example_prims sending_module (wasm_engine_new vm_config_default) 3 ''run'' [] example_ctx =
     (Ok \<lparr>cr_return_data = [0], cr_gas_used = 2300, cr_logs = [], cr_status = Success\<rparr>,
      example_ctx\<lparr>ec_gas_meter := \<lparr>gm_limit = 10000, gm_consumed = 2300\<rparr>,
        ec_balance_changes := [(9, - 5), (0, 5)]\<rparr>,
      (wasm_engine_new vm_config_default)\<lparr>we_module_cache := [(hash example_prims [0], ())]\<rparr>)"
proof -
  have mem: "mem_read (replicate 64 0) 0 20 = Some (replicate 20 0)" by (simp add: mem_read_def)
  have zero: "from_be_bytes (replicate 20 0) = (0 :: address)"
    by (simp add: from_be_bytes_def from_le_bytes_def le_nat_zeros)
  show ?thesis
    by (simp add: call_contract_def load_module_def wasm_engine_new_def example_ctx_def execution_context_new_def
        example_reader_def compile_module_def validate_module_def vm_config_default_def sending_module_def
        execute_function_def run_module_def call_entry_def host_transfer_def charge_def consume_def
        gas_meter_new_def gas_costs_default_def saturating_add_def mem zero ctx_transfer_def
        ctx_get_balance_def add_delta_def finish_call_def Let_def)
qed

theorem call_contract_confined_witness:
  "cr_gas_used \<lparr>cr_return_data = [0], cr_gas_used = 2300, cr_logs = [], cr_status = Success\<rparr> \<le>
     remaining (ec_gas_meter example_ctx) \<and> delta_sum [(9 :: address, - 5), (0, 5)] = 0"
  using call_contract_confined [OF sending_module_ok _ example_call]
  by (simp add: example_ctx_def execution_context_new_def delta_sum_def)

theorem call_contract_failure_free_witness:
  "\<exists>r c' E'. call_contract example_prims trapping_module (wasm_engine_new vm_config_default) 3 ''run'' [] example_ctx =
     (Ok r, c', E') \<and> cr_status r = Failure ''trap: unreachable'' \<and> cr_gas_used r = 0"
proof -
  obtain r c' E' where r: "call_contract example_prims trapping_module (wasm_engine_new vm_config_default) 3
      ''run'' [] example_ctx = (Ok r, c', E')" "cr_status r = Failure ''trap: unreachable''"
    by (simp add: call_contract_def load_module_def wasm_engine_new_def example_ctx_def execution_context_new_def
        example_reader_def compile_module_def validate_module_def vm_config_default_def trapping_module_def
        sending_module_def execute_function_def run_module_def call_entry_def gas_meter_new_def
        finish_call_def vm_error_to_string_def Let_def)
  have "gm_consumed (ec_gas_meter example_ctx) = 0"
    by (simp add: example_ctx_def execution_context_new_def)
  then show ?thesis using call_contract_failure_free [OF _ r(1)] r by auto
qed

theorem ctx_transfer_exact_witness:
  "\<exists>c'. ctx_transfer example_ctx 9 2 30 = Ok c' \<and> ctx_get_balance c' 9 = Ok 70 \<and> ctx_get_balance c' 2 = Ok 30"
proof -
  have b: "ctx_get_balance example_ctx 9 = Ok 100"
    by (simp add: ctx_get_balance_def example_ctx_def execution_context_new_def example_reader_def Let_def)
  then obtain c' where c': "ctx_transfer example_ctx 9 2 30 = Ok c'"
    by (simp add: ctx_transfer_def)
  have "raw_balance example_ctx 2 = Ok 0"
    by (simp add: raw_balance_def example_ctx_def execution_context_new_def example_reader_def)
  then show ?thesis using ctx_transfer_exact [OF c'] b c' by simp
qed

end
