(* ===== verification/Mempool.thy ===== *)
theory Mempool
  imports Vm "HOL-Library.Sublist"
begin

text \<open>
  The transaction pool of \<open>crates/consensus/src/tx_pool.rs\<close>, and the error type of the
  consensus crate (\<open>error.rs\<close>). Every method is one atomic operation on the state; the races
  that concurrent callers of the two maps can produce are not modelled. Instants are counted
  in nanoseconds and passed as arguments.

  Shown: every operation keeps the two maps consistent and the pool within its capacity; what
  a reachable pool holds has passed verification; \<open>select_transactions\<close> returns distinct
  pooled transactions by descending price, within the count and gas limits, and leaves out
  none that would still fit.
\<close>

section \<open>error.rs\<close>

datatype consensus_error =
    ConsInvalidBlock string
  | BlockValidation string
  | UnknownParent string
  | WrongProposer string string
  | StateTransition string
  | TransactionPoolError string
  | TransactionExecution string
  | FinalityError string
  | EpochError string
  | SlashingError string
  | NotValidator
  | ConsStorage storage_error
  | ConsCore core_error
  | ConsVm vm_error
  | ConsCrypto crypto_error

definition consensus_error_to_string :: "consensus_error \<Rightarrow> string" where
  "consensus_error_to_string e = (case e of
      ConsInvalidBlock s \<Rightarrow> ''invalid block: '' @ s
    | BlockValidation s \<Rightarrow> ''block validation failed: '' @ s
    | UnknownParent s \<Rightarrow> ''unknown parent block: '' @ s
    | WrongProposer ex got \<Rightarrow> ''wrong proposer: expected '' @ ex @ '', got '' @ got
    | StateTransition s \<Rightarrow> ''state transition error: '' @ s
    | TransactionPoolError s \<Rightarrow> ''transaction pool error: '' @ s
    | TransactionExecution s \<Rightarrow> ''transaction execution error: '' @ s
    | FinalityError s \<Rightarrow> ''finality error: '' @ s
    | EpochError s \<Rightarrow> ''epoch error: '' @ s
    | SlashingError s \<Rightarrow> ''slashing error: '' @ s
    | NotValidator \<Rightarrow> ''not a validator''
    | ConsStorage se \<Rightarrow> ''storage error: '' @ storage_error_to_string se
    | ConsCore ce \<Rightarrow> ''core error: '' @ core_error_to_string ce
    | ConsVm ve \<Rightarrow> ''vm error: '' @ vm_error_to_string ve
    | ConsCrypto ce \<Rightarrow> ''crypto error: '' @ crypto_error_to_string ce)"

section \<open>tx_pool.rs\<close>

record pooled_transaction =
  pt_tx :: signed_transaction
  pt_added_at :: nat
  pt_gas_price :: gas_price

record transaction_pool =
  tp_pending :: "(blake3hash, pooled_transaction) hmap"
  tp_by_sender :: "(address, (nonce \<times> blake3hash) set) hmap"
  tp_max_size :: nat
  tp_min_gas_price :: gas_price

definition pool_new :: "nat \<Rightarrow> gas_price \<Rightarrow> transaction_pool" where
  "pool_new mx mn = \<lparr>tp_pending = [], tp_by_sender = [], tp_max_size = mx, tp_min_gas_price = mn\<rparr>"

definition pool_insert :: "'p tx_prims_scheme \<Rightarrow> nat \<Rightarrow> transaction_pool \<Rightarrow> signed_transaction \<Rightarrow>
    consensus_error + transaction_pool" where
  "pool_insert P now pool tx =
     and_then (map_err (\<lambda>e. TransactionPoolError (''invalid transaction: '' @ core_error_to_string e))
        (stx_verify P tx)) (\<lambda>_.
       let price = tx_gas_price (stx_transaction tx); h = stx_hash tx; from = sender tx;
           n = tx_nonce (stx_transaction tx) in
       if price < tp_min_gas_price pool
       then Err (TransactionPoolError (''gas price '' @ show_word price @ '' below minimum '' @
              show_word (tp_min_gas_price pool)))
       else if length (tp_pending pool) \<ge> tp_max_size pool
       then Err (TransactionPoolError ''transaction pool is full'')
       else if hm_contains h (tp_pending pool)
       then Err (TransactionPoolError ''duplicate transaction'')
       else Ok (pool\<lparr>
         tp_pending := hm_put h \<lparr>pt_tx = tx, pt_added_at = now, pt_gas_price = price\<rparr> (tp_pending pool),
         tp_by_sender := hm_put from
           (insert (n, h) (unwrap_or {} (hm_get (tp_by_sender pool) from))) (tp_by_sender pool)\<rparr>))"

definition pool_remove :: "transaction_pool \<Rightarrow> blake3hash \<Rightarrow> signed_transaction option \<times> transaction_pool" where
  "pool_remove pool h = (case hm_get (tp_pending pool) h of
      None \<Rightarrow> (None, pool)
    | Some p \<Rightarrow>
       (let from = sender (pt_tx p); n = tx_nonce (stx_transaction (pt_tx p)) in
        (Some (pt_tx p), pool\<lparr>
          tp_pending := hm_remove h (tp_pending pool),
          tp_by_sender := (case hm_get (tp_by_sender pool) from of
             None \<Rightarrow> tp_by_sender pool
           | Some s \<Rightarrow> if s - {(n, h)} = {} then hm_remove from (tp_by_sender pool)
                       else hm_put from (s - {(n, h)}) (tp_by_sender pool))\<rparr>)))"

definition pool_get :: "transaction_pool \<Rightarrow> blake3hash \<Rightarrow> signed_transaction option" where
  "pool_get pool h = map_option pt_tx (hm_get (tp_pending pool) h)"

definition pending_count :: "transaction_pool \<Rightarrow> nat" where
  "pending_count pool = length (tp_pending pool)"

definition pool_contains :: "transaction_pool \<Rightarrow> blake3hash \<Rightarrow> bool" where
  "pool_contains pool h = hm_contains h (tp_pending pool)"

text \<open>Descending gas price, then ascending nonce.\<close>

definition candidate_le :: "gas_price \<times> nonce \<times> blake3hash \<Rightarrow> gas_price \<times> nonce \<times> blake3hash \<Rightarrow> bool" where
  "candidate_le a b \<longleftrightarrow> fst b < fst a \<or> fst b = fst a \<and> fst (snd a) \<le> fst (snd b)"

definition candidates :: "transaction_pool \<Rightarrow> (gas_price \<times> nonce \<times> blake3hash) list" where
  "candidates pool = sort_by candidate_le
     (map (\<lambda>(h, p). (pt_gas_price p, tx_nonce (stx_transaction (pt_tx p)), h)) (tp_pending pool))"

fun select_loop :: "(blake3hash, pooled_transaction) hmap \<Rightarrow> gas \<Rightarrow> nat \<Rightarrow> (gas_price \<times> nonce \<times> blake3hash) list \<Rightarrow>
    signed_transaction list \<Rightarrow> gas \<Rightarrow> signed_transaction list" where
  "select_loop pending gl mx [] selected total_gas = selected"
| "select_loop pending gl mx ((price, n, h) # cs) selected total_gas =
     (if length selected \<ge> mx then selected
      else case hm_get pending h of
        None \<Rightarrow> select_loop pending gl mx cs selected total_gas
      | Some p \<Rightarrow>
         (let tx_gas = tx_gas_limit (stx_transaction (pt_tx p)) in
          if total_gas + tx_gas > gl then select_loop pending gl mx cs selected total_gas
          else select_loop pending gl mx cs (selected @ [pt_tx p]) (total_gas + tx_gas)))"

definition select_transactions :: "transaction_pool \<Rightarrow> gas \<Rightarrow> nat \<Rightarrow> signed_transaction list" where
  "select_transactions pool gl mx = select_loop (tp_pending pool) gl mx (candidates pool) [] 0"

definition remove_all :: "blake3hash list \<Rightarrow> transaction_pool \<Rightarrow> transaction_pool" where
  "remove_all hs pool = foldl (\<lambda>p h. snd (pool_remove p h)) pool hs"

definition prune_committed :: "transaction_pool \<Rightarrow> blake3hash list \<Rightarrow> transaction_pool" where
  "prune_committed pool hs = remove_all hs pool"

text \<open>\<open>duration_since\<close> is zero when the instant lies in the future.\<close>

definition prune_expired :: "nat \<Rightarrow> nat \<Rightarrow> transaction_pool \<Rightarrow> transaction_pool" where
  "prune_expired now max_age pool =
     remove_all (map fst (filter (\<lambda>(h, p). now - pt_added_at p > max_age) (tp_pending pool))) pool"

definition pending_hashes :: "transaction_pool \<Rightarrow> blake3hash list" where
  "pending_hashes pool = map fst (tp_pending pool)"

section \<open>The invariant of the pool\<close>

text \<open>
  Keys are the hashes of the entries, entries have passed the checks of \<open>insert\<close>, the index by
  sender lists exactly the pending transactions and has no empty sets, and the capacity holds.
\<close>

definition entry_ok :: "'p tx_prims_scheme \<Rightarrow> gas_price \<Rightarrow> blake3hash \<Rightarrow> pooled_transaction \<Rightarrow> bool" where
  "entry_ok P mn h p \<longleftrightarrow> stx_hash (pt_tx p) = h \<and> stx_verify P (pt_tx p) = Ok () \<and>
     pt_gas_price p = tx_gas_price (stx_transaction (pt_tx p)) \<and> mn \<le> tx_gas_price (stx_transaction (pt_tx p))"

definition index_ok :: "transaction_pool \<Rightarrow> bool" where
  "index_ok pool \<longleftrightarrow>
     (\<forall>a. hm_get (tp_by_sender pool) a \<noteq> Some {}) \<and>
     (\<forall>a n h. (n, h) \<in> unwrap_or {} (hm_get (tp_by_sender pool) a) \<longleftrightarrow>
        (\<exists>p. hm_get (tp_pending pool) h = Some p \<and> sender (pt_tx p) = a \<and>
           tx_nonce (stx_transaction (pt_tx p)) = n))"

definition pool_inv :: "'p tx_prims_scheme \<Rightarrow> transaction_pool \<Rightarrow> bool" where
  "pool_inv P pool \<longleftrightarrow> hm_wf (tp_pending pool) \<and> hm_wf (tp_by_sender pool) \<and>
     length (tp_pending pool) \<le> tp_max_size pool \<and>
     (\<forall>h p. hm_get (tp_pending pool) h = Some p \<longrightarrow> entry_ok P (tp_min_gas_price pool) h p) \<and>
     index_ok pool"

lemma pool_inv_new: "pool_inv P (pool_new mx mn)"
  by (simp add: pool_inv_def pool_new_def index_ok_def)

lemma pool_insert_Ok:
  assumes "pool_insert P now pool tx = Ok pool'"
  shows "stx_verify P tx = Ok ()" "tp_min_gas_price pool \<le> tx_gas_price (stx_transaction tx)"
    "length (tp_pending pool) < tp_max_size pool" "hm_get (tp_pending pool) (stx_hash tx) = None"
    "pool' = pool\<lparr>
       tp_pending := hm_put (stx_hash tx) \<lparr>pt_tx = tx, pt_added_at = now,
         pt_gas_price = tx_gas_price (stx_transaction tx)\<rparr> (tp_pending pool),
       tp_by_sender := hm_put (sender tx) (insert (tx_nonce (stx_transaction tx), stx_hash tx)
         (unwrap_or {} (hm_get (tp_by_sender pool) (sender tx)))) (tp_by_sender pool)\<rparr>"
  using assms by (auto simp: pool_insert_def result_simps Let_def hm_contains_def not_less not_le
      split: if_splits)

lemma pool_insert_inv:
  assumes "pool_inv P pool" "pool_insert P now pool tx = Ok pool'"
  shows "pool_inv P pool'"
proof -
  note ins = pool_insert_Ok [OF assms(2)]
  have "index_ok pool'"
    using assms(1) ins(4)
    unfolding pool_inv_def index_ok_def ins(5)
    by (auto split: if_splits)
  moreover have "length (tp_pending pool') \<le> tp_max_size pool'"
    using ins(3,4) unfolding ins(5) by (simp add: length_put)
  ultimately show ?thesis
    using assms(1) ins(1,2) unfolding pool_inv_def ins(5) by (simp add: entry_ok_def)
qed

lemma pool_remove_Some:
  assumes "hm_get (tp_pending pool) h = Some p"
  shows "fst (pool_remove pool h) = Some (pt_tx p)"
    "tp_pending (snd (pool_remove pool h)) = hm_remove h (tp_pending pool)"
    "tp_max_size (snd (pool_remove pool h)) = tp_max_size pool"
    "tp_min_gas_price (snd (pool_remove pool h)) = tp_min_gas_price pool"
    "unwrap_or {} (hm_get (tp_by_sender (snd (pool_remove pool h))) a) =
       (if a = sender (pt_tx p)
        then unwrap_or {} (hm_get (tp_by_sender pool) a) - {(tx_nonce (stx_transaction (pt_tx p)), h)}
        else unwrap_or {} (hm_get (tp_by_sender pool) a))"
    "hm_wf (tp_by_sender pool) \<Longrightarrow> hm_wf (tp_by_sender (snd (pool_remove pool h)))"
    "hm_get (tp_by_sender pool) a \<noteq> Some {} \<Longrightarrow> hm_get (tp_by_sender (snd (pool_remove pool h))) a \<noteq> Some {}"
  using assms by (auto simp: pool_remove_def Let_def split: option.split)

lemma pool_remove_inv:
  assumes "pool_inv P pool"
  shows "pool_inv P (snd (pool_remove pool h))"
proof (cases "hm_get (tp_pending pool) h")
  case None
  with assms show ?thesis by (simp add: pool_remove_def)
next
  case (Some p)
  note rem = pool_remove_Some [OF Some]
  have idx: "index_ok pool" "hm_wf (tp_pending pool)" using assms by (simp_all add: pool_inv_def)
  have "index_ok (snd (pool_remove pool h))"
    using idx Some rem(7) unfolding index_ok_def rem(2,5) by (auto split: if_splits)
  moreover have "length (hm_remove h (tp_pending pool)) \<le> length (tp_pending pool)"
    using idx(2) by (simp add: length_remove)
  ultimately show ?thesis
    using assms rem(6) unfolding pool_inv_def rem(2,3,4) by auto
qed

lemma remove_all_inv: "pool_inv P pool \<Longrightarrow> pool_inv P (remove_all hs pool)"
  unfolding remove_all_def by (induction hs arbitrary: pool) (auto intro: pool_remove_inv)

text \<open>The pools that the operations can produce.\<close>

inductive pool_reach :: "'p tx_prims_scheme \<Rightarrow> transaction_pool \<Rightarrow> bool" for P where
  reach_new: "pool_reach P (pool_new mx mn)"
| reach_insert: "pool_reach P pool \<Longrightarrow> pool_insert P now pool tx = Ok pool' \<Longrightarrow> pool_reach P pool'"
| reach_remove: "pool_reach P pool \<Longrightarrow> pool_reach P (snd (pool_remove pool h))"
| reach_prune_committed: "pool_reach P pool \<Longrightarrow> pool_reach P (prune_committed pool hs)"
| reach_prune_expired: "pool_reach P pool \<Longrightarrow> pool_reach P (prune_expired now age pool)"

lemma pool_reach_inv: "pool_reach P pool \<Longrightarrow> pool_inv P pool"
  by (induction rule: pool_reach.induct)
    (auto simp: prune_committed_def prune_expired_def intro: pool_inv_new pool_insert_inv pool_remove_inv
      remove_all_inv)

text \<open>
  C16 (consistency of the mempool). Every pool that \<open>insert\<close>, \<open>remove\<close> and the two pruning
  operations can produce is within its capacity; every entry is stored under its own hash, has
  passed signature verification and pays at least the minimum price; and the index by sender
  holds exactly the nonces and hashes of the pending transactions, with no empty sets.
\<close>

theorem mempool_invariant:
  assumes "pool_reach P pool"
  shows "pending_count pool \<le> tp_max_size pool \<and> distinct (pending_hashes pool) \<and>
    (\<forall>h tx. pool_get pool h = Some tx \<longrightarrow> stx_hash tx = h \<and> stx_verify P tx = Ok () \<and>
       tp_min_gas_price pool \<le> tx_gas_price (stx_transaction tx)) \<and>
    (\<forall>a n h. (n, h) \<in> unwrap_or {} (hm_get (tp_by_sender pool) a) \<longleftrightarrow>
       (\<exists>tx. pool_get pool h = Some tx \<and> sender tx = a \<and> tx_nonce (stx_transaction tx) = n)) \<and>
    (\<forall>a. hm_get (tp_by_sender pool) a \<noteq> Some {})"
  using pool_reach_inv [OF assms]
  by (auto simp: pool_inv_def index_ok_def pending_count_def pending_hashes_def hm_wf_def pool_get_def
      entry_ok_def)

lemma remove_all_get:
  "pool_get (remove_all hs pool) h = (if h \<in> set hs then None else pool_get pool h)"
proof -
  have one: "pool_get (snd (pool_remove q g)) h = (if h = g then None else pool_get q h)" for q g
    by (cases "hm_get (tp_pending q) g") (auto simp: pool_get_def pool_remove_Some, auto simp: pool_remove_def)
  show ?thesis
    unfolding remove_all_def
    by (induction hs arbitrary: pool) (auto simp: one)
qed

text \<open>
  Pruning. Pruning the hashes of a block removes exactly those transactions; pruning by
  age removes exactly the transactions that have been pending for longer than the given age.
\<close>

theorem prune_exact:
  assumes "hm_wf (tp_pending pool)"
  shows "pool_get (prune_committed pool hs) h = (if h \<in> set hs then None else pool_get pool h) \<and>
    pool_get (prune_expired now max_age pool) h =
      (case hm_get (tp_pending pool) h of None \<Rightarrow> None
       | Some p \<Rightarrow> if now - pt_added_at p > max_age then None else Some (pt_tx p))"
proof -
  have "h \<in> set (map fst (filter (\<lambda>(h, p). now - pt_added_at p > max_age) (tp_pending pool))) \<longleftrightarrow>
      (\<exists>p. hm_get (tp_pending pool) h = Some p \<and> max_age < now - pt_added_at p)"
    using hm_get_in_set [OF assms] by force
  then show ?thesis
    unfolding prune_committed_def prune_expired_def remove_all_get
    by (auto simp: pool_get_def split: option.split)
qed

section \<open>Selection for a block\<close>

abbreviation tx_gas :: "signed_transaction \<Rightarrow> nat" where
  "tx_gas tx \<equiv> unat (tx_gas_limit (stx_transaction tx))"

definition total_tx_gas :: "signed_transaction list \<Rightarrow> nat" where
  "total_tx_gas txs = sum_list (map tx_gas txs)"

text \<open>No pending transaction can make the sum of gas limits wrap around.\<close>

definition gas_fits :: "(blake3hash, pooled_transaction) hmap \<Rightarrow> gas \<Rightarrow> bool" where
  "gas_fits pending gl \<longleftrightarrow> (\<forall>h p. hm_get pending h = Some p \<longrightarrow> unat gl + tx_gas (pt_tx p) < 2 ^ 64)"

definition picks :: "(blake3hash, pooled_transaction) hmap \<Rightarrow> (gas_price \<times> nonce \<times> blake3hash) list \<Rightarrow> signed_transaction list" where
  "picks pending cs = map (\<lambda>(price, n, h). pt_tx (the (hm_get pending h))) cs"

lemma select_loop_spec:
  assumes "gas_fits pending gl" "\<forall>(price, n, h) \<in> set cs. hm_get pending h \<noteq> None"
    and "unat total_gas = total_tx_gas selected" "total_tx_gas selected \<le> unat gl" "length selected \<le> mx"
    and "r = select_loop pending gl mx cs selected total_gas"
  shows "\<exists>ds. subseq ds cs \<and> r = selected @ picks pending ds \<and> total_tx_gas r \<le> unat gl \<and> length r \<le> mx \<and>
    (\<forall>(price, n, h) \<in> set cs. pt_tx (the (hm_get pending h)) \<in> set r \<or> length r = mx \<or>
       unat gl < total_tx_gas r + tx_gas (pt_tx (the (hm_get pending h))))"
  using assms(2-)
proof (induction cs arbitrary: selected total_gas)
  case Nil
  then show ?case by (intro exI [of _ "[]"]) (simp add: picks_def)
next
  case (Cons c cs)
  obtain price n h where c: "c = (price, n, h)" by (cases c)
  obtain p where p: "hm_get pending h = Some p" using Cons.prems(1) c by auto
  show ?case
  proof (cases "mx \<le> length selected")
    case True
    with Cons.prems c show ?thesis by (intro exI [of _ "[]"]) (auto simp: picks_def)
  next
    case False
    let ?g = "tx_gas_limit (stx_transaction (pt_tx p))"
    have "unat gl + unat ?g < 2 ^ 64" using assms(1) p by (simp add: gas_fits_def)
    then have add: "unat (total_gas + ?g) = total_tx_gas selected + unat ?g"
      using Cons.prems(2,3) by (subst unat_add_nowrap) simp_all
    show ?thesis
    proof (cases "total_gas + ?g > gl")
      case True
      have r: "r = select_loop pending gl mx cs selected total_gas"
        using Cons.prems(5) c p False True by (simp add: Let_def)
      obtain ds where ds: "subseq ds cs" "r = selected @ picks pending ds" "total_tx_gas r \<le> unat gl" "length r \<le> mx"
          "\<forall>(price, n, h) \<in> set cs. pt_tx (the (hm_get pending h)) \<in> set r \<or> length r = mx \<or>
             unat gl < total_tx_gas r + tx_gas (pt_tx (the (hm_get pending h)))"
        using Cons.IH [OF _ Cons.prems(2-4) r] Cons.prems(1) by auto
      have "total_tx_gas selected \<le> total_tx_gas r" by (simp add: ds(2) total_tx_gas_def)
      then have "unat gl < total_tx_gas r + unat ?g" using True add by (simp add: word_less_nat_alt)
      with ds c p show ?thesis by (intro exI [of _ ds]) auto
    next
      case nf: False
      have r: "r = select_loop pending gl mx cs (selected @ [pt_tx p]) (total_gas + ?g)"
        using Cons.prems(5) c p False nf by (simp add: Let_def)
      have t: "unat (total_gas + ?g) = total_tx_gas (selected @ [pt_tx p])"
        using add by (simp add: total_tx_gas_def)
      then have "total_tx_gas (selected @ [pt_tx p]) \<le> unat gl"
        using nf by (simp add: word_less_nat_alt)
      then obtain ds where ds: "subseq ds cs" "r = (selected @ [pt_tx p]) @ picks pending ds"
          "total_tx_gas r \<le> unat gl" "length r \<le> mx"
          "\<forall>(price, n, h) \<in> set cs. pt_tx (the (hm_get pending h)) \<in> set r \<or> length r = mx \<or>
             unat gl < total_tx_gas r + tx_gas (pt_tx (the (hm_get pending h)))"
        using Cons.IH [OF _ t _ _ r] Cons.prems(1) False by auto
      then show ?thesis using c p by (intro exI [of _ "c # ds"]) (auto simp: picks_def)
    qed
  qed
qed

lemma sorted_candidates: "sorted_wrt candidate_le (candidates pool)"
  unfolding candidates_def by (rule sorted_sort_by) (auto simp: candidate_le_def)

lemma set_candidates:
  "set (candidates pool) =
     (\<lambda>(h, p). (pt_gas_price p, tx_nonce (stx_transaction (pt_tx p)), h)) ` set (tp_pending pool)"
  by (simp add: candidates_def)

lemma distinct_candidates:
  assumes "hm_wf (tp_pending pool)"
  shows "distinct (map (snd \<circ> snd) (candidates pool))"
proof -
  have "mset (map (snd \<circ> snd) (candidates pool)) = mset (map fst (tp_pending pool))"
    by (simp add: candidates_def comp_def case_prod_beta image_mset.compositionality)
  then show ?thesis using assms by (metis hm_wf_def mset_eq_imp_distinct_iff)
qed

lemma subseq_set_le: "subseq xs ys \<Longrightarrow> set xs \<subseteq> set ys"
  by (induction rule: list_emb.induct) auto

lemma subseq_sorted: "subseq xs ys \<Longrightarrow> sorted_wrt R ys \<Longrightarrow> sorted_wrt R xs"
  by (induction rule: list_emb.induct) (auto dest: subseq_set_le)

lemma subseq_distinct: "subseq xs ys \<Longrightarrow> distinct ys \<Longrightarrow> distinct xs"
  by (induction rule: list_emb.induct) (auto dest: subseq_set_le)

text \<open>
  Where the sum does overflow, in a release build, a transaction that does not fit is taken, and
  the gas counted for the block drops.
\<close>

lemma select_loop_wraps:
  assumes "hm_get pending h = Some p" "length selected < mx" "total_gas \<le> gl" "2 ^ 64 \<le> unat total_gas + tx_gas (pt_tx p)"
  shows "\<exists>g < total_gas. select_loop pending gl mx ((price, n, h) # cs) selected total_gas =
    select_loop pending gl mx cs (selected @ [pt_tx p]) g"
proof -
  let ?g = "tx_gas_limit (stx_transaction (pt_tx p))"
  have "unat ?g < 2 ^ 64" "unat total_gas < 2 ^ 64"
    by (rule order.strict_trans2 [OF unsigned_less], simp)+
  then have less: "total_gas + ?g < total_gas"
    using assms(4) by (simp add: word_less_nat_alt unat_word_ariths le_mod_geq less_diff_conv2)
  moreover have "select_loop pending gl mx ((price, n, h) # cs) selected total_gas =
      select_loop pending gl mx cs (selected @ [pt_tx p]) (total_gas + ?g)"
    using assms(1,2) order.strict_trans2 [OF less assms(3)] by (auto simp: Let_def)
  ultimately show ?thesis by blast
qed

text \<open>
  C23 (block selection). From a consistent pool whose gas limits cannot overflow the sum,
  \<open>select_transactions\<close> returns distinct pending transactions in descending order of gas price,
  no more than the maximal count, with a total gas limit within the block's; and it leaves a
  pending transaction out only if the count is reached or the transaction does not fit.
\<close>

theorem select_transactions_correct:
  assumes "pool_reach P pool" "gas_fits (tp_pending pool) gl"
    and "sel = select_transactions pool gl mx"
  shows "length sel \<le> mx \<and> total_tx_gas sel \<le> unat gl \<and> distinct (map stx_hash sel) \<and>
    (\<forall>tx\<in>set sel. pool_get pool (stx_hash tx) = Some tx) \<and>
    sorted_wrt (\<lambda>a b. tx_gas_price (stx_transaction b) \<le> tx_gas_price (stx_transaction a)) sel \<and>
    (\<forall>h tx. pool_get pool h = Some tx \<and> tx \<notin> set sel \<longrightarrow>
       length sel = mx \<or> unat gl < total_tx_gas sel + tx_gas tx)"
proof -
  let ?pend = "tp_pending pool" and ?cs = "candidates pool"
  have inv: "hm_wf ?pend" and ent: "\<And>h p. hm_get ?pend h = Some p \<Longrightarrow> entry_ok P (tp_min_gas_price pool) h p"
    using pool_reach_inv [OF assms(1)] by (simp_all add: pool_inv_def)
  have mem: "\<exists>p. hm_get ?pend h = Some p \<and> stx_hash (pt_tx p) = h \<and> tx_gas_price (stx_transaction (pt_tx p)) = price"
    if "(price, n, h) \<in> set ?cs" for price n h
    using that ent by (auto simp: set_candidates entry_ok_def hm_get_in_set [OF inv])
  then have mem': "\<forall>(price, n, h) \<in> set ?cs. hm_get ?pend h \<noteq> None" by fastforce
  obtain ds where ds: "subseq ds ?cs" "sel = picks ?pend ds" "total_tx_gas sel \<le> unat gl" "length sel \<le> mx"
      "\<forall>(price, n, h) \<in> set ?cs. pt_tx (the (hm_get ?pend h)) \<in> set sel \<or> length sel = mx \<or>
         unat gl < total_tx_gas sel + tx_gas (pt_tx (the (hm_get ?pend h)))"
    using select_loop_spec [OF assms(2) mem', of 0 "[]" mx sel] assms(3)
    by (auto simp: select_transactions_def total_tx_gas_def)
  have sub: "set ds \<subseteq> set ?cs" using subseq_set_le [OF ds(1)] .
  have hash_eq: "map stx_hash sel = map (snd \<circ> snd) ds"
    unfolding ds(2) picks_def using sub mem by fastforce
  have price_eq: "map (\<lambda>tx. tx_gas_price (stx_transaction tx)) sel = map fst ds"
    unfolding ds(2) picks_def using sub mem by fastforce
  have "subseq (map (snd \<circ> snd) ds) (map (snd \<circ> snd) ?cs)" using ds(1) by (rule subseq_map)
  then have dist: "distinct (map stx_hash sel)"
    unfolding hash_eq using distinct_candidates [OF inv] subseq_distinct by blast
  have "sorted_wrt (\<lambda>x y. y \<le> x) (map fst ds)"
    using subseq_sorted [OF ds(1) sorted_candidates]
    by (auto simp: sorted_wrt_map candidate_le_def elim!: sorted_wrt_mono_rel [rotated])
  then have sorted: "sorted_wrt (\<lambda>a b. tx_gas_price (stx_transaction b) \<le> tx_gas_price (stx_transaction a)) sel"
    unfolding price_eq [symmetric] by (simp add: sorted_wrt_map)
  have all: "\<forall>tx\<in>set sel. pool_get pool (stx_hash tx) = Some tx"
    unfolding ds(2) picks_def pool_get_def using sub mem by fastforce
  have "length sel = mx \<or> unat gl < total_tx_gas sel + tx_gas tx"
    if get: "pool_get pool h = Some tx" and out: "tx \<notin> set sel" for h tx
  proof -
    obtain p where p: "hm_get ?pend h = Some p" "tx = pt_tx p" using get by (auto simp: pool_get_def)
    then have "(pt_gas_price p, tx_nonce (stx_transaction tx), h) \<in> set ?cs"
      using hm_get_in_set [OF inv] by (force simp: set_candidates)
    then show ?thesis using ds(5) p out by fastforce
  qed
  with ds(3,4) dist sorted all show ?thesis by blast
qed

section \<open>Witnesses\<close>

definition example_ptx :: "nonce \<Rightarrow> gas_price \<Rightarrow> signed_transaction" where
  "example_ptx n price = (signed_transaction_new example_tx_prims
     (example_tx\<lparr>tx_nonce := n, tx_gas_price := price\<rparr>) example_kp)\<lparr>stx_hash := ucast price\<rparr>"

lemma example_ptx_simps [simp]:
  "stx_hash (example_ptx n price) = ucast price"
  "tx_nonce (stx_transaction (example_ptx n price)) = n"
  "tx_gas_price (stx_transaction (example_ptx n price)) = price"
  "tx_gas_limit (stx_transaction (example_ptx n price)) = 21000"
  by (simp_all add: example_ptx_def signed_transaction_new_def Let_def example_tx_def)

lemma example_ptx_verifies: "price \<noteq> 0 \<Longrightarrow> stx_verify example_tx_prims (example_ptx n price) = Ok ()"
  unfolding example_ptx_def stx_verify_ignores_hash
  by (rule stx_verify_new [OF example_tx_ed25519]) (simp_all add: example_tx_def tx_wf_def)

text \<open>Two transactions of one sender: the later nonce pays more.\<close>

definition example_pool :: transaction_pool where
  "example_pool = pool_new 10 1 \<lparr>
     tp_pending := [(1, \<lparr>pt_tx = example_ptx 0 1, pt_added_at = 0, pt_gas_price = 1\<rparr>),
       (2, \<lparr>pt_tx = example_ptx 1 2, pt_added_at = 5, pt_gas_price = 2\<rparr>)],
     tp_by_sender := [(keypair_address example_tx_prims example_kp, {(1, 2), (0, 1)})]\<rparr>"

lemma example_pool_reach: "pool_reach example_tx_prims example_pool"
proof -
  have s: "sender (example_ptx n price) = keypair_address example_tx_prims example_kp" for n price
    by (simp add: sender_def example_ptx_def signed_transaction_new_def Let_def example_tx_def)
  obtain pool1 where p1: "pool_insert example_tx_prims 0 (pool_new 10 1) (example_ptx 0 1) = Ok pool1"
      "pool1 = pool_new 10 1 \<lparr>tp_pending := [(1, \<lparr>pt_tx = example_ptx 0 1, pt_added_at = 0, pt_gas_price = 1\<rparr>)],
        tp_by_sender := [(keypair_address example_tx_prims example_kp, {(0, 1)})]\<rparr>"
    by (simp add: pool_insert_def example_ptx_verifies s pool_new_def hm_contains_def Let_def)
  have p2: "pool_insert example_tx_prims 5 pool1 (example_ptx 1 2) = Ok example_pool"
    unfolding p1(2)
    by (simp add: pool_insert_def example_ptx_verifies s pool_new_def hm_contains_def Let_def example_pool_def)
  show ?thesis
    using reach_insert [OF reach_insert [OF reach_new p1(1)] p2] .
qed

theorem mempool_invariant_witness: "pending_count example_pool = 2 \<and> pending_count example_pool \<le> tp_max_size example_pool"
  using mempool_invariant [OF example_pool_reach]
  by (simp add: pending_count_def example_pool_def)

theorem prune_exact_witness:
  "pool_get (prune_expired 20 16 example_pool) 1 = None \<and> pool_get (prune_expired 20 16 example_pool) 2 = Some (example_ptx 1 2)"
  using prune_exact [of example_pool "[]" _ 20 16]
  by (simp add: example_pool_def pool_new_def hm_wf_def)

text \<open>The higher price goes first although its nonce is the later one of the same sender.\<close>

lemma example_selection: "select_transactions example_pool 100000 10 = [example_ptx 1 2, example_ptx 0 1]"
  by (simp add: select_transactions_def candidates_def example_pool_def pool_new_def sort_by_def candidate_le_def Let_def)

theorem select_transactions_correct_witness:
  "total_tx_gas [example_ptx 1 2, example_ptx 0 1] \<le> 100000 \<and>
   pool_get example_pool 2 = Some (example_ptx 1 2)"
  using select_transactions_correct [OF example_pool_reach _ example_selection [symmetric]]
  by (simp add: gas_fits_def example_pool_def pool_new_def split: if_splits)

end
