(* ===== verification/Pos.thy ===== *)
theory Pos
  imports Mempool
begin

text \<open>
  Proposer selection (\<open>crates/consensus/src/pos.rs\<close>) and slashing (\<open>slashing.rs\<close>). The random
  generator \<open>ChaCha20Rng\<close> and its \<open>gen_range\<close> are third-party code: the parameter \<open>gen_range\<close>
  maps a seed and an upper bound to the number drawn, and \<open>gen_range_ok\<close> states that it is
  below the bound.

  Shown: the proposer is an active validator with stake; the share of random targets that
  select a validator is exactly its stake; a slash takes the given fraction of the stake and
  removes the validator from the active set.
\<close>

section \<open>pos.rs\<close>

type_synonym rng = "blake3hash \<Rightarrow> u128 \<Rightarrow> u128"

definition gen_range_ok :: "rng \<Rightarrow> bool" where
  "gen_range_ok gen_range \<longleftrightarrow> (\<forall>seed bound. bound \<noteq> 0 \<longrightarrow> gen_range seed bound < bound)"

fun pick_loop :: "validator_info list \<Rightarrow> u128 \<Rightarrow> balance \<Rightarrow> address option" where
  "pick_loop [] target cumulative = None"
| "pick_loop (v # vs) target cumulative =
     (if target < cumulative + vi_stake v then Some (vi_address v)
      else pick_loop vs target (cumulative + vi_stake v))"

definition proposer_seed :: "'p crypto_prims_scheme \<Rightarrow> blake3hash \<Rightarrow> block_number \<Rightarrow> blake3hash" where
  "proposer_seed P parent n =
     hash_multiple P [to_be_bytes parent, to_le_bytes n, string_bytes ''proposer_selection'']"

definition select_proposer :: "'p crypto_prims_scheme \<Rightarrow> rng \<Rightarrow> validator_info list \<Rightarrow> blake3hash \<Rightarrow>
    block_number \<Rightarrow> consensus_error + address" where
  "select_proposer P gen_range avs parent n =
     (if avs = [] then Err (EpochError ''no active validators'')
      else if length avs = 1 then Ok (vi_address (hd avs))
      else let total_stake = sum_list (map vi_stake avs) in
        if total_stake = 0 then Err (EpochError ''total stake is zero'')
        else let target = gen_range (proposer_seed P parent n) total_stake in
          Ok (unwrap_or (vi_address (last avs)) (pick_loop avs target 0)))"

definition verify_proposer :: "'p crypto_prims_scheme \<Rightarrow> rng \<Rightarrow> address \<Rightarrow> validator_info list \<Rightarrow> blake3hash \<Rightarrow>
    block_number \<Rightarrow> consensus_error + unit" where
  "verify_proposer P gen_range proposer avs parent n =
     and_then (select_proposer P gen_range avs parent n) (\<lambda>expected.
       if proposer \<noteq> expected then Err (WrongProposer (address_to_hex P expected) (address_to_hex P proposer))
       else Ok ())"

section \<open>slashing.rs\<close>

datatype slash_reason =
    DoubleSign blake3hash blake3hash block_number
  | Downtime u64 u64

record slash_penalty =
  sp_amount :: balance
  sp_jail :: bool
  sp_jail_duration_ms :: u64

definition evaluate_evidence :: "consensus_params \<Rightarrow> slash_reason \<Rightarrow> validator_info \<Rightarrow> slash_penalty option" where
  "evaluate_evidence params reason v = (case reason of
      DoubleSign a b h \<Rightarrow>
        Some \<lparr>sp_amount = (vi_stake v * ucast (cp_slash_fraction_double_sign params)) div 10000,
          sp_jail = True, sp_jail_duration_ms = cp_downtime_jail_duration_ms params * 10\<rparr>
    | Downtime missed window \<Rightarrow>
        if missed > cp_max_missed_blocks params
        then Some \<lparr>sp_amount = (vi_stake v * ucast (cp_slash_fraction_downtime params)) div 10000,
          sp_jail = True, sp_jail_duration_ms = cp_downtime_jail_duration_ms params\<rparr>
        else None)"

definition apply_slash :: "consensus_params \<Rightarrow> validator_info \<Rightarrow> slash_penalty \<Rightarrow> timestamp \<Rightarrow> validator_info" where
  "apply_slash params v pen now =
     (let slash_amount = min (sp_amount pen) (vi_stake v);
          v1 = v\<lparr>vi_stake := vi_stake v - slash_amount, vi_slash_count := vi_slash_count v + 1\<rparr>;
          v2 = (if sp_jail pen
                then v1\<lparr>vi_jailed_until := Some (now + sp_jail_duration_ms pen), vi_is_active := False\<rparr>
                else v1)
      in if vi_stake v2 < cp_min_stake params then v2\<lparr>vi_is_active := False\<rparr> else v2)"

definition detect_double_sign :: "blake3hash \<Rightarrow> blake3hash \<Rightarrow> block_number \<Rightarrow> slash_reason option" where
  "detect_double_sign a b h = (if a \<noteq> b then Some (DoubleSign a b h) else None)"

section \<open>The proposer\<close>

abbreviation stake_nat :: "validator_info list \<Rightarrow> nat" where
  "stake_nat vs \<equiv> sum_list (map (\<lambda>v. unat (vi_stake v)) vs)"

lemma pick_loop_Some:
  "pick_loop vs t c = Some a \<Longrightarrow> \<exists>v\<in>set vs. vi_address v = a"
  by (induction vs arbitrary: c) (auto split: if_splits)

text \<open>Without overflow the loop finds the first validator whose cumulated stake exceeds the target.\<close>

lemma pick_loop_spec:
  assumes "unat c + stake_nat vs < 2 ^ 128" "c \<le> t" "unat t < unat c + stake_nat vs"
  shows "\<exists>v\<in>set vs. pick_loop vs t c = Some (vi_address v) \<and> vi_stake v \<noteq> 0"
  using assms
proof (induction vs arbitrary: c)
  case (Cons v vs)
  have c: "unat (c + vi_stake v) = unat c + unat (vi_stake v)"
    using Cons.prems(1) by (intro unat_add_nowrap) simp
  show ?case
  proof (cases "t < c + vi_stake v")
    case True
    then have "vi_stake v \<noteq> 0" using Cons.prems(2) by auto
    with True show ?thesis by auto
  next
    case False
    then have "c + vi_stake v \<le> t" by simp
    then show ?thesis using Cons.IH [of "c + vi_stake v"] Cons.prems c False by auto
  qed
qed (auto simp: word_le_nat_alt)

text \<open>
  The proposer is a staked validator. Where selection returns an address and the total
  stake fits its type, it is the address of one of the active validators given, and unless
  there is only one, of a validator with stake.
\<close>

theorem select_proposer_sound:
  assumes "gen_range_ok gen_range" "stake_nat avs < 2 ^ 128"
    and "select_proposer P gen_range avs parent n = Ok a"
  shows "\<exists>v\<in>set avs. vi_address v = a \<and> (1 < length avs \<longrightarrow> vi_stake v \<noteq> 0)"
proof (cases "length avs = 1")
  case True
  then obtain v where "avs = [v]" by (cases avs) auto
  with assms(3) show ?thesis by (simp add: select_proposer_def)
next
  case False
  let ?t = "gen_range (proposer_seed P parent n) (sum_list (map vi_stake avs))"
  have total: "unat (sum_list (map vi_stake avs)) = stake_nat avs"
    using unat_sum_list [of "map vi_stake avs"] assms(2) by (simp add: comp_def)
  have a: "sum_list (map vi_stake avs) \<noteq> 0" "a = unwrap_or (vi_address (last avs)) (pick_loop avs ?t 0)"
    using assms(3) False by (auto simp: select_proposer_def Let_def split: if_splits)
  then have "?t < sum_list (map vi_stake avs)" using assms(1) by (simp add: gen_range_ok_def)
  then have "unat ?t < stake_nat avs" using total by (simp add: word_less_nat_alt)
  then obtain v where "v \<in> set avs" "pick_loop avs ?t 0 = Some (vi_address v)" "vi_stake v \<noteq> 0"
    using pick_loop_spec [of 0 avs ?t] assms(2) by auto
  then show ?thesis using a by auto
qed

text \<open>Selection depends on its arguments only and fails only without active stake.\<close>

lemma select_proposer_total:
  assumes "avs \<noteq> []" "1 < length avs \<Longrightarrow> sum_list (map vi_stake avs) \<noteq> 0"
  shows "\<exists>a. select_proposer P gen_range avs parent n = Ok a"
proof (cases "length avs = 1")
  case False
  with assms(1) have "1 < length avs" by (cases avs) (auto simp: Suc_lessI)
  with assms show ?thesis by (simp add: select_proposer_def Let_def)
qed (use assms in \<open>simp add: select_proposer_def\<close>)

lemma verify_proposer_iff:
  "verify_proposer P gen_range a avs parent n = Ok () \<longleftrightarrow> select_proposer P gen_range avs parent n = Ok a"
  by (auto simp: verify_proposer_def result_simps split: if_splits)

section \<open>Shares of the stake\<close>

lemma card_word_interval:
  assumes "m + k \<le> 2 ^ 128"
  shows "card {t :: u128. m \<le> unat t \<and> unat t < m + k} = k"
proof -
  have img: "unat ` {t :: u128. m \<le> unat t \<and> unat t < m + k} = {m..<m + k}"
  proof (intro equalityI subsetI)
    fix x assume "x \<in> {m..<m + k}"
    then have "x < 2 ^ 128" using assms by simp
    then have "unat (of_nat x :: u128) = x" by (simp add: unat_of_nat)
    with \<open>x \<in> {m..<m + k}\<close> show "x \<in> unat ` {t :: u128. m \<le> unat t \<and> unat t < m + k}"
      by (intro image_eqI [of _ _ "of_nat x"]) simp_all
  qed auto
  have "inj_on unat {t :: u128. m \<le> unat t \<and> unat t < m + k}"
    by (rule inj_onI) (simp add: word_unat_eq_iff)
  from card_image [OF this] show ?thesis unfolding img by simp
qed

lemma pick_loop_share:
  assumes "unat c + stake_nat vs < 2 ^ 128" "distinct (map vi_address vs)" "v \<in> set vs"
  shows "card {t. unat c \<le> unat t \<and> unat t < unat c + stake_nat vs \<and> pick_loop vs t c = Some (vi_address v)} =
    unat (vi_stake v)"
  using assms
proof (induction vs arbitrary: c)
  case (Cons w vs)
  have c: "unat (c + vi_stake w) = unat c + unat (vi_stake w)"
    using Cons.prems(1) by (intro unat_add_nowrap) simp
  have other: "pick_loop vs t d \<noteq> Some (vi_address w)" for t d
    using pick_loop_Some [of vs t d "vi_address w"] Cons.prems(2) by (metis distinct.simps(2) image_eqI list.map(2) set_map)
  show ?case
  proof (cases "v = w")
    case True
    have "{t. unat c \<le> unat t \<and> unat t < unat c + stake_nat (w # vs) \<and> pick_loop (w # vs) t c = Some (vi_address v)} =
        {t. unat c \<le> unat t \<and> unat t < unat c + unat (vi_stake w)}"
      using True c other by (auto simp: word_less_nat_alt)
    then show ?thesis using True Cons.prems(1) by (simp add: card_word_interval)
  next
    case False
    then have v: "v \<in> set vs" "vi_address w \<noteq> vi_address v" using Cons.prems by auto
    have "{t. unat c \<le> unat t \<and> unat t < unat c + stake_nat (w # vs) \<and> pick_loop (w # vs) t c = Some (vi_address v)} =
        {t. unat (c + vi_stake w) \<le> unat t \<and> unat t < unat (c + vi_stake w) + stake_nat vs \<and>
            pick_loop vs t (c + vi_stake w) = Some (vi_address v)}"
      using v c by (auto simp: word_less_nat_alt)
    then show ?thesis using Cons.IH [of "c + vi_stake w"] Cons.prems v c by simp
  qed
qed simp

text \<open>
  C24 (selection is proportional to stake). Of the random targets below the total stake, as many
  select a given validator as it has stake, so under a uniform target the probability of being
  the proposer is the validator's share of the stake.
\<close>

theorem proposer_share_is_stake:
  assumes "stake_nat avs < 2 ^ 128" "distinct (map vi_address avs)" "v \<in> set avs"
  shows "card {t. t < sum_list (map vi_stake avs) \<and> pick_loop avs t 0 = Some (vi_address v)} = unat (vi_stake v)"
proof -
  have "unat (sum_list (map vi_stake avs)) = stake_nat avs"
    using unat_sum_list [of "map vi_stake avs"] assms(1) by (simp add: comp_def)
  then show ?thesis using pick_loop_share [of 0 avs v] assms by (simp add: word_less_nat_alt)
qed

section \<open>Slashing\<close>

lemma unat_slash_amount:
  assumes "unat st * 65536 < 2 ^ 128"
  shows "unat ((st * ucast (f :: u16)) div 10000 :: u128) = unat st * unat f div 10000"
proof -
  have f: "unat f < 65536" using unat_le_max [of f] by simp
  then have "unat (ucast f :: u128) = unat f" by (simp add: unsigned_ucast_eq take_bit_nat_eq_self)
  moreover have "unat st * unat f < 2 ^ 128"
    using f assms by (meson le_less_trans less_imp_le mult_le_mono2)
  ultimately have "unat (st * ucast f) = unat st * unat f" by (simp add: unat_mult_nowrap)
  then show ?thesis by (simp add: unat_div)
qed

text \<open>
  Double-sign slashing. Slashing a validator for double signing takes exactly the
  configured fraction of its stake (rounded down), counts the slash, jails it for ten times the
  downtime period and deactivates it, so it is no longer a validator of its set.
\<close>

theorem double_sign_slash:
  assumes "evaluate_evidence params (DoubleSign a b h) v = Some pen"
    and "cp_slash_fraction_double_sign params \<le> 10000" "unat (vi_stake v) * 65536 < 2 ^ 128"
    and "v' = apply_slash params v pen now"
  shows "unat (vi_stake v') =
      unat (vi_stake v) - unat (vi_stake v) * unat (cp_slash_fraction_double_sign params) div 10000 \<and>
    vi_slash_count v' = vi_slash_count v + 1 \<and>
    vi_jailed_until v' = Some (now + cp_downtime_jail_duration_ms params * 10) \<and> \<not> vi_is_active v' \<and>
    v' \<notin> set (active_validators (validator_set_new (v' # vs) mn mx))"
proof -
  let ?f = "cp_slash_fraction_double_sign params"
  have amt: "unat (sp_amount pen) = unat (vi_stake v) * unat ?f div 10000"
    using assms(1) unat_slash_amount [OF assms(3)] by (auto simp: evaluate_evidence_def)
  have "unat ?f \<le> 10000" using assms(2) by (simp add: word_le_nat_alt)
  then have "unat (vi_stake v) * unat ?f div 10000 \<le> unat (vi_stake v)"
    by (metis div_le_mono mult_le_mono2 nonzero_mult_div_cancel_right zero_neq_numeral)
  then have le: "sp_amount pen \<le> vi_stake v" using amt by (simp add: word_le_nat_alt)
  then have "vi_stake v' = vi_stake v - sp_amount pen"
    using assms(4) by (simp add: apply_slash_def Let_def min_def)
  then have "unat (vi_stake v') = unat (vi_stake v) - unat (vi_stake v) * unat ?f div 10000"
    using le amt by (simp add: unat_sub)
  moreover have "\<not> vi_is_active v' \<and> vi_slash_count v' = vi_slash_count v + 1 \<and>
      vi_jailed_until v' = Some (now + cp_downtime_jail_duration_ms params * 10)"
    using assms(1,4) by (auto simp: apply_slash_def Let_def evaluate_evidence_def)
  ultimately show ?thesis by (simp add: active_validators_def)
qed

text \<open>Downtime is punished only above the limit of missed blocks, and no slash takes more than the stake.\<close>

lemma downtime_evidence_iff:
  "evaluate_evidence params (Downtime missed window) v \<noteq> None \<longleftrightarrow> cp_max_missed_blocks params < missed"
  by (simp add: evaluate_evidence_def)

lemma apply_slash_stake_le: "vi_stake (apply_slash params v pen now) \<le> vi_stake v"
proof -
  have "vi_stake (apply_slash params v pen now) = vi_stake v - min (sp_amount pen) (vi_stake v)"
    by (simp add: apply_slash_def Let_def)
  moreover have "vi_stake v - min (sp_amount pen) (vi_stake v) \<le> vi_stake v"
    by (simp add: min_def word_sub_le)
  ultimately show ?thesis by simp
qed

section \<open>Witnesses\<close>

text \<open>A generator that reduces the seed modulo the bound.\<close>

definition example_rng :: rng where
  "example_rng seed bound = ucast seed mod bound"

lemma example_rng_ok: "gen_range_ok example_rng"
  by (simp add: gen_range_ok_def example_rng_def word_mod_less_divisor word_gt_0)

theorem select_proposer_sound_witness:
  "\<exists>a. select_proposer example_prims example_rng (active_validators example_vset) 5 1 = Ok a \<and>
     (\<exists>v\<in>set (active_validators example_vset). vi_address v = a \<and> vi_stake v \<noteq> 0)"
proof -
  let ?avs = "active_validators example_vset"
  have len: "length ?avs = 4" "stake_nat ?avs = 400" "sum_list (map vi_stake ?avs) = 400"
    by (simp_all add: example_vset_simps) (simp_all add: validator_info_new_def)
  then obtain a where a: "select_proposer example_prims example_rng ?avs 5 1 = Ok a"
    using select_proposer_total [of ?avs] by fastforce
  then show ?thesis using select_proposer_sound [OF example_rng_ok _ a] len by auto
qed

theorem proposer_share_is_stake_witness:
  "card {t. t < 400 \<and> pick_loop (active_validators example_vset) t 0 = Some 3} = 100"
proof -
  let ?avs = "active_validators example_vset"
  have "stake_nat ?avs < 2 ^ 128" "distinct (map vi_address ?avs)"
      "validator_info_new 3 13 100 \<in> set ?avs" "sum_list (map vi_stake ?avs) = 400"
    by (simp_all add: example_vset_simps) (simp_all add: validator_info_new_def)
  moreover have "vi_address (validator_info_new 3 13 100) = 3" "unat (vi_stake (validator_info_new 3 13 100)) = 100"
    by (simp_all add: validator_info_new_def)
  ultimately show ?thesis using proposer_share_is_stake [of ?avs "validator_info_new 3 13 100"] by simp
qed

theorem double_sign_slash_witness:
  "unat (vi_stake (apply_slash consensus_params_default (validator_info_new 1 11 100)
     \<lparr>sp_amount = 5, sp_jail = True, sp_jail_duration_ms = 6000000\<rparr> 1000)) = 95"
proof -
  let ?v = "validator_info_new 1 11 100" and ?P = consensus_params_default
  have ev: "evaluate_evidence ?P (DoubleSign 1 2 3) ?v =
      Some \<lparr>sp_amount = 5, sp_jail = True, sp_jail_duration_ms = 6000000\<rparr>"
    by (simp add: evaluate_evidence_def consensus_params_default_def validator_info_new_def)
  have "cp_slash_fraction_double_sign ?P \<le> 10000" "unat (vi_stake ?v) * 65536 < 2 ^ 128"
    by (simp_all add: consensus_params_default_def validator_info_new_def)
  from double_sign_slash [OF ev this refl, THEN conjunct1, of 1000]
  show ?thesis by (simp add: consensus_params_default_def validator_info_new_def)
qed

end
