(* ===== verification/Finality.thy ===== *)
theory Finality
  imports Pos
begin

text \<open>
  The finality engine (\<open>crates/consensus/src/finality.rs\<close>). The atomic counter and the maps are
  components of one state; each call is one atomic operation. The validator set behind the
  lock is part of the state. The clock is an argument.

  Shown: the finalised height never decreases; a height is finalised only when the stake behind
  the recorded votes reaches the quorum; if no validator votes twice for a height, two
  finalisations of it share a validator outside any faulty minority; a vote is accepted for any
  validator whatever key signed it, because nothing compares the key with the validator, so that
  one key finalises any height.
\<close>

record finality_vote =
  fv_block_number :: block_number
  fv_block_hash :: blake3hash
  fv_validator :: address
  fv_validator_pubkey :: public_key
  fv_signature :: signature
  fv_timestamp :: timestamp

definition vote_data :: "block_number \<Rightarrow> blake3hash \<Rightarrow> bytes" where
  "vote_data n h = to_le_bytes n @ to_be_bytes h @ string_bytes ''finality_vote''"

definition finality_vote_new :: "'p crypto_prims_scheme \<Rightarrow> block_number \<Rightarrow> blake3hash \<Rightarrow> key_pair \<Rightarrow> timestamp \<Rightarrow> finality_vote" where
  "finality_vote_new P n h kp now = \<lparr>fv_block_number = n, fv_block_hash = h,
     fv_validator = keypair_address P kp, fv_validator_pubkey = keypair_public_key P kp,
     fv_signature = sign P kp (vote_data n h), fv_timestamp = now\<rparr>"

definition vote_verify :: "'p crypto_prims_scheme \<Rightarrow> finality_vote \<Rightarrow> consensus_error + unit" where
  "vote_verify P v = map_err (\<lambda>_. FinalityError ''invalid vote signature'')
     (verify P (fv_validator_pubkey v) (vote_data (fv_block_number v) (fv_block_hash v)) (fv_signature v))"

datatype finality_status = Pending balance balance | Finalized

record finality_engine =
  fe_votes :: "(block_number, finality_vote list) hmap"
  fe_finalized_height :: u64
  fe_validator_set :: validator_set

definition finality_engine_new :: "validator_set \<Rightarrow> finality_engine" where
  "finality_engine_new vs = \<lparr>fe_votes = [], fe_finalized_height = 0, fe_validator_set = vs\<rparr>"

text \<open>\<open>filter_map\<close> over the votes, then \<open>sum\<close>.\<close>

definition voted_stake :: "validator_set \<Rightarrow> finality_vote list \<Rightarrow> balance" where
  "voted_stake vs votes =
     sum_list (map vi_stake (List.map_filter (\<lambda>v. get_validator vs (fv_validator v)) votes))"

definition check_quorum :: "finality_engine \<Rightarrow> block_number \<Rightarrow> finality_status \<times> finality_engine" where
  "check_quorum fe n =
     (let threshold = quorum_threshold (fe_validator_set fe) in
      case hm_get (fe_votes fe) n of
        None \<Rightarrow> (Pending 0 threshold, fe)
      | Some votes \<Rightarrow>
         (let st = voted_stake (fe_validator_set fe) votes in
          if st \<ge> threshold then
            (Finalized, fe\<lparr>
               fe_finalized_height := (if n > fe_finalized_height fe then n else fe_finalized_height fe),
               fe_votes := filter (\<lambda>(bn, _). \<not> bn \<le> n) (fe_votes fe)\<rparr>)
          else (Pending st threshold, fe)))"

definition add_vote :: "'p crypto_prims_scheme \<Rightarrow> finality_engine \<Rightarrow> finality_vote \<Rightarrow>
    consensus_error + (finality_status \<times> finality_engine)" where
  "add_vote P fe v =
     and_then (vote_verify P v) (\<lambda>_.
       if \<not> is_validator (fe_validator_set fe) (fv_validator v)
       then Err (FinalityError (''voter '' @ address_to_hex P (fv_validator v) @ '' is not an active validator''))
       else if fv_block_number v \<le> fe_finalized_height fe then Ok (Finalized, fe)
       else Ok (check_quorum (fe\<lparr>fe_votes := hm_put (fv_block_number v)
              (unwrap_or [] (hm_get (fe_votes fe) (fv_block_number v)) @ [v]) (fe_votes fe)\<rparr>)
              (fv_block_number v)))"

definition is_finalized :: "finality_engine \<Rightarrow> block_number \<Rightarrow> bool" where
  "is_finalized fe n \<longleftrightarrow> n \<le> fe_finalized_height fe"

definition update_validator_set :: "finality_engine \<Rightarrow> validator_set \<Rightarrow> finality_engine" where
  "update_validator_set fe vs = fe\<lparr>fe_validator_set := vs\<rparr>"

text \<open>The votes that stand recorded for a height when a vote is counted.\<close>

definition recorded_votes :: "finality_engine \<Rightarrow> finality_vote \<Rightarrow> finality_vote list" where
  "recorded_votes fe v = unwrap_or [] (hm_get (fe_votes fe) (fv_block_number v)) @ [v]"

section \<open>Votes\<close>

lemma vote_verify_new: "ed25519_correct P \<Longrightarrow> vote_verify P (finality_vote_new P n h kp now) = Ok ()"
  using verify_sign [of P kp] by (simp add: vote_verify_def finality_vote_new_def)

lemma vote_data_inject: "vote_data m g = vote_data n h \<longleftrightarrow> m = n \<and> g = h"
  by (simp add: vote_data_def codec_simps)

lemma check_quorum_height: "fe_finalized_height fe \<le> fe_finalized_height (snd (check_quorum fe n))"
  by (auto simp: check_quorum_def Let_def split: option.split)

lemma add_vote_cases:
  assumes "add_vote P fe v = Ok (st, fe')"
  shows "vote_verify P v = Ok () \<and> is_validator (fe_validator_set fe) (fv_validator v) \<and>
    (fv_block_number v \<le> fe_finalized_height fe \<and> st = Finalized \<and> fe' = fe \<or>
     fv_block_number v > fe_finalized_height fe \<and>
     (st, fe') = check_quorum (fe\<lparr>fe_votes := hm_put (fv_block_number v) (recorded_votes fe v) (fe_votes fe)\<rparr>)
       (fv_block_number v))"
  using assms by (auto simp: add_vote_def result_simps recorded_votes_def split: if_splits)

text \<open>
  Finality is never undone. The finalised height never decreases: not when a vote is
  added, and not when the validator set changes; what was final stays final.
\<close>

theorem finality_monotone:
  assumes "add_vote P fe v = Ok (st, fe')" "is_finalized fe n"
  shows "fe_finalized_height fe \<le> fe_finalized_height fe' \<and> is_finalized fe' n \<and>
    is_finalized (update_validator_set fe' vs) n"
proof -
  let ?fe = "fe\<lparr>fe_votes := hm_put (fv_block_number v) (recorded_votes fe v) (fe_votes fe)\<rparr>"
  have "fe_finalized_height fe \<le> fe_finalized_height fe'"
    using add_vote_cases [OF assms(1)] check_quorum_height [of ?fe "fv_block_number v"]
    by (auto simp: prod_eq_iff)
  then show ?thesis
    using assms(2) by (auto simp: is_finalized_def update_validator_set_def)
qed

text \<open>The height advances only to the height of the vote, and only with the stake of a quorum.\<close>

lemma add_vote_finalizes:
  assumes "add_vote P fe v = Ok (st, fe')" "fe_finalized_height fe < fe_finalized_height fe'"
  shows "st = Finalized" "fe_finalized_height fe' = fv_block_number v"
    "quorum_threshold (fe_validator_set fe) \<le> voted_stake (fe_validator_set fe) (recorded_votes fe v)"
  using add_vote_cases [OF assms(1)] assms(2)
  by (auto simp: check_quorum_def Let_def split: if_splits)

section \<open>Quorums of voters\<close>

definition voters :: "validator_set \<Rightarrow> finality_vote list \<Rightarrow> validator_info set" where
  "voters s votes = {w \<in> set (active_validators s). \<exists>v\<in>set votes. fv_validator v = vi_address w}"

lemma find_distinct: "distinct (map f xs) \<Longrightarrow> w \<in> set xs \<Longrightarrow> find (\<lambda>v. f v = f w) xs = Some w"
  by (induction xs) (auto simp: image_iff)

lemma get_validator_active:
  assumes "distinct (map vi_address (vs_validators s))" "w \<in> set (active_validators s)"
  shows "get_validator s (vi_address w) = Some w"
  using assms by (simp add: get_validator_def active_validators_def find_distinct)

text \<open>Votes of distinct active validators: their stake is the stake of the set of voters.\<close>

lemma voted_stake_voters:
  assumes "distinct (map vi_address (vs_validators s))" "distinct (map fv_validator votes)"
    "list_all (\<lambda>v. is_validator s (fv_validator v)) votes"
  shows "unat (voted_stake s votes) \<le> (\<Sum>w\<in>voters s votes. unat (vi_stake w))"
proof -
  let ?ws = "List.map_filter (\<lambda>v. get_validator s (fv_validator v)) votes"
  have ws: "map vi_address ?ws = map fv_validator votes \<and> set ?ws \<subseteq> voters s votes"
    using assms(2,3)
  proof (induction votes)
    case (Cons v votes)
    then obtain w where w: "w \<in> set (active_validators s)" "vi_address w = fv_validator v"
      by (auto simp: is_validator_def list_ex_iff)
    then have "get_validator s (fv_validator v) = Some w" using get_validator_active [OF assms(1)] by metis
    moreover have "voters s votes \<subseteq> voters s (v # votes)" by (auto simp: voters_def)
    ultimately show ?case using Cons w by (auto simp: map_filter_simps voters_def)
  qed (simp add: map_filter_simps)
  then have "distinct ?ws" using assms(2) by (metis distinct_map)
  then have "sum_list (map (unat \<circ> vi_stake) ?ws) = (\<Sum>w\<in>set ?ws. unat (vi_stake w))"
    by (simp add: sum_list_distinct_conv_sum_set)
  also have "\<dots> \<le> (\<Sum>w\<in>voters s votes. unat (vi_stake w))"
    using ws by (intro sum_mono2) (auto simp: voters_def)
  finally show ?thesis
    using unat_sum_list_le [of "map vi_stake ?ws"] by (simp add: voted_stake_def)
qed

text \<open>
  C6 (safety of finality). If two engines with the same validator set each finalise a height, on
  recorded votes of distinct active validators, then outside any faulty set with less than a
  third of the stake there is a validator who has voted in both.
\<close>

theorem finality_safety:
  assumes "quorum_ok s" "fe_validator_set fe1 = s" "fe_validator_set fe2 = s"
    and "add_vote P fe1 v1 = Ok (st1, fe1')" "fe_finalized_height fe1 < fe_finalized_height fe1'"
    and "add_vote P fe2 v2 = Ok (st2, fe2')" "fe_finalized_height fe2 < fe_finalized_height fe2'"
    and "distinct (map fv_validator (recorded_votes fe1 v1))" "distinct (map fv_validator (recorded_votes fe2 v2))"
    and "list_all (\<lambda>v. is_validator s (fv_validator v)) (recorded_votes fe1 v1)"
    and "list_all (\<lambda>v. is_validator s (fv_validator v)) (recorded_votes fe2 v2)"
    and "F \<subseteq> set (active_validators s)"
    and "3 * (\<Sum>w\<in>F. unat (vi_stake w)) < (\<Sum>w\<in>set (active_validators s). unat (vi_stake w))"
  shows "\<exists>w. w \<in> set (active_validators s) - F \<and>
    (\<exists>u1\<in>set (recorded_votes fe1 v1). fv_validator u1 = vi_address w) \<and>
    (\<exists>u2\<in>set (recorded_votes fe2 v2). fv_validator u2 = vi_address w)"
proof -
  have dist: "distinct (map vi_address (vs_validators s))" using assms(1) by (simp add: quorum_ok_def)
  have q1: "unat (quorum_threshold s) \<le> (\<Sum>w\<in>voters s (recorded_votes fe1 v1). unat (vi_stake w))"
    using add_vote_finalizes(3) [OF assms(4,5)] voted_stake_voters [OF dist assms(8,10)] assms(2)
    by (auto simp: word_le_nat_alt)
  have q2: "unat (quorum_threshold s) \<le> (\<Sum>w\<in>voters s (recorded_votes fe2 v2). unat (vi_stake w))"
    using add_vote_finalizes(3) [OF assms(6,7)] voted_stake_voters [OF dist assms(9,11)] assms(3)
    by (auto simp: word_le_nat_alt)
  have "\<exists>w. w \<in> voters s (recorded_votes fe1 v1) \<inter> voters s (recorded_votes fe2 v2) - F"
    by (rule vq.quorum_overlap_honest [OF assms(1) _ _ q1 q2 assms(12,13)]) (auto simp: voters_def)
  then show ?thesis by (auto simp: voters_def)
qed

section \<open>Forged votes\<close>

text \<open>A vote in the name of a validator, signed with any key pair, and votes that arrive one after the other.\<close>

definition forged_vote :: "'p crypto_prims_scheme \<Rightarrow> block_number \<Rightarrow> blake3hash \<Rightarrow> key_pair \<Rightarrow> timestamp \<Rightarrow> address \<Rightarrow> finality_vote" where
  "forged_vote P n h kp now a = (finality_vote_new P n h kp now)\<lparr>fv_validator := a\<rparr>"

fun add_votes :: "'p crypto_prims_scheme \<Rightarrow> finality_engine \<Rightarrow> finality_vote list \<Rightarrow> consensus_error + finality_engine" where
  "add_votes P fe [] = Ok fe"
| "add_votes P fe (v # vs) = and_then (add_vote P fe v) (\<lambda>(st, fe'). add_votes P fe' vs)"

definition stake_for :: "finality_engine \<Rightarrow> block_number \<Rightarrow> balance" where
  "stake_for fe n = voted_stake (fe_validator_set fe) (unwrap_or [] (hm_get (fe_votes fe) n))"

lemma voted_stake_snoc:
  "get_validator s (fv_validator v) = Some w \<Longrightarrow> voted_stake s (votes @ [v]) = voted_stake s votes + vi_stake w"
  by (simp add: voted_stake_def map_filter_def)

lemma add_forged:
  assumes "ed25519_correct P" "quorum_ok (fe_validator_set fe)" "w \<in> set (active_validators (fe_validator_set fe))"
    and "v = forged_vote P n h kp now (vi_address w)" "fe_finalized_height fe < n"
  shows "add_vote P fe v = Ok
    (if quorum_threshold (fe_validator_set fe) \<le> stake_for fe n + vi_stake w
     then (Finalized, fe\<lparr>fe_finalized_height := n, fe_votes := filter (\<lambda>(bn, _). n < bn) (hm_put n (recorded_votes fe v) (fe_votes fe))\<rparr>)
     else (Pending (stake_for fe n + vi_stake w) (quorum_threshold (fe_validator_set fe)),
       fe\<lparr>fe_votes := hm_put n (recorded_votes fe v) (fe_votes fe)\<rparr>))"
proof -
  have v: "fv_block_number v = n" "fv_validator v = vi_address w" "vote_verify P v = Ok ()"
    using vote_verify_new [OF assms(1), of n h kp now] assms(4)
    by (simp_all add: forged_vote_def vote_verify_def) (simp_all add: finality_vote_new_def)
  have "get_validator (fe_validator_set fe) (fv_validator v) = Some w"
    using get_validator_active assms(2,3) v(2) by (simp add: quorum_ok_def)
  then have "voted_stake (fe_validator_set fe) (recorded_votes fe v) = stake_for fe n + vi_stake w"
    by (simp add: recorded_votes_def voted_stake_snoc v(1) stake_for_def)
  moreover have "is_validator (fe_validator_set fe) (vi_address w)"
    using assms(3) by (auto simp: is_validator_def list_ex_iff)
  ultimately show ?thesis
    using assms(5) v by (simp add: add_vote_def recorded_votes_def check_quorum_def Let_def not_le not_less case_prod_unfold)
qed

lemma add_forged_late:
  assumes "ed25519_correct P" "set ws \<subseteq> set (active_validators (fe_validator_set fe))" "n \<le> fe_finalized_height fe"
  shows "add_votes P fe (map (forged_vote P n h kp now \<circ> vi_address) ws) = Ok fe"
  using assms(2)
proof (induction ws)
  case (Cons w ws)
  have "vote_verify P (forged_vote P n h kp now (vi_address w)) = Ok ()"
    using vote_verify_new [OF assms(1), of n h kp now] by (simp add: forged_vote_def vote_verify_def)
  moreover have "is_validator (fe_validator_set fe) (vi_address w)"
    using Cons.prems by (auto simp: is_validator_def list_ex_iff)
  ultimately show ?case
    using Cons assms(3) by (simp add: add_vote_def) (simp add: forged_vote_def finality_vote_new_def)
qed simp

text \<open>Votes for validators whose stake, with the stake counted before, reaches the threshold.\<close>

lemma add_forged_all:
  assumes "ed25519_correct P" "quorum_ok (fe_validator_set fe)" "set ws \<subseteq> set (active_validators (fe_validator_set fe))" "ws \<noteq> []"
    and "fe_finalized_height fe < n" "quorum_threshold (fe_validator_set fe) \<le> stake_for fe n + sum_list (map vi_stake ws)"
  shows "\<exists>fe'. add_votes P fe (map (forged_vote P n h kp now \<circ> vi_address) ws) = Ok fe' \<and> fe_finalized_height fe' = n"
  using assms(2-6)
proof (induction ws arbitrary: fe)
  case (Cons w ws)
  let ?v = "forged_vote P n h kp now (vi_address w)"
  obtain st fe' where step: "add_vote P fe ?v = Ok (st, fe')" "fe_validator_set fe' = fe_validator_set fe"
    "quorum_threshold (fe_validator_set fe) \<le> stake_for fe n + vi_stake w \<Longrightarrow> fe_finalized_height fe' = n"
    "\<not> quorum_threshold (fe_validator_set fe) \<le> stake_for fe n + vi_stake w \<Longrightarrow>
       fe_finalized_height fe' < n \<and> fe' = fe\<lparr>fe_votes := hm_put n (recorded_votes fe ?v) (fe_votes fe)\<rparr>"
    using add_forged [OF assms(1) Cons.prems(1) _ refl Cons.prems(4), of w h kp now] Cons.prems(2,4)
    by (cases "quorum_threshold (fe_validator_set fe) \<le> stake_for fe n + vi_stake w") auto
  show ?case
  proof (cases "quorum_threshold (fe_validator_set fe) \<le> stake_for fe n + vi_stake w")
    case True
    then show ?thesis
      using step(1-3) add_forged_late [OF assms(1), of ws fe' n h kp now] Cons.prems(2) by (simp add: comp_def)
  next
    case False
    then have "ws \<noteq> []" using Cons.prems(5) by auto
    have "get_validator (fe_validator_set fe) (fv_validator ?v) = Some w"
      using get_validator_active Cons.prems(1,2) by (simp add: quorum_ok_def forged_vote_def)
    then have "stake_for fe' n = stake_for fe n + vi_stake w"
      using step(4) [OF False] by (simp add: stake_for_def recorded_votes_def voted_stake_snoc) (simp add: forged_vote_def finality_vote_new_def)
    then show ?thesis
      using Cons.IH [of fe'] Cons.prems step(1,2) step(4) [OF False] \<open>ws \<noteq> []\<close> by (simp add: add.assoc comp_def)
  qed
qed simp

text \<open>
  C31 (votes are not bound to validators). A vote in the name of an active validator for a height above
  the finalised one is accepted whichever key pair signed it: the stake of the validator it names is
  added to the stake counted for the height, and the height is finalised as soon as the sum reaches
  the threshold. So one key pair, of a validator or not, finalises any such height alone: it is
  enough to send a vote in the name of each active validator.
\<close>

theorem forged_vote_counted:
  assumes "ed25519_correct P" "quorum_ok (fe_validator_set fe)" "fe_finalized_height fe < n"
  shows "(\<forall>w \<in> set (active_validators (fe_validator_set fe)). \<exists>fe'.
      add_vote P fe (forged_vote P n h kp now (vi_address w)) =
        (if quorum_threshold (fe_validator_set fe) \<le> stake_for fe n + vi_stake w then Ok (Finalized, fe')
         else Ok (Pending (stake_for fe n + vi_stake w) (quorum_threshold (fe_validator_set fe)), fe')) \<and>
      (is_finalized fe' n \<longleftrightarrow> quorum_threshold (fe_validator_set fe) \<le> stake_for fe n + vi_stake w)) \<and>
    (active_validators (fe_validator_set fe) \<noteq> [] \<and> hm_get (fe_votes fe) n = None \<longrightarrow>
      (\<exists>fe'. add_votes P fe (map (forged_vote P n h kp now \<circ> vi_address) (active_validators (fe_validator_set fe))) = Ok fe' \<and>
        is_finalized fe' n))"
proof (intro conjI ballI impI)
  let ?s = "fe_validator_set fe"
  fix w assume w: "w \<in> set (active_validators ?s)"
  show "\<exists>fe'. add_vote P fe (forged_vote P n h kp now (vi_address w)) =
        (if quorum_threshold ?s \<le> stake_for fe n + vi_stake w then Ok (Finalized, fe')
         else Ok (Pending (stake_for fe n + vi_stake w) (quorum_threshold ?s), fe')) \<and>
      (is_finalized fe' n \<longleftrightarrow> quorum_threshold ?s \<le> stake_for fe n + vi_stake w)"
    using add_forged [OF assms(1,2) w refl assms(3), of h kp now] assms(3)
    by (cases "quorum_threshold ?s \<le> stake_for fe n + vi_stake w") (simp_all add: is_finalized_def)
next
  let ?s = "fe_validator_set fe"
  assume a: "active_validators ?s \<noteq> [] \<and> hm_get (fe_votes fe) n = None"
  have "unat (quorum_threshold ?s) \<le> unat (total_active_stake ?s)"
    using assms(2) total_active_stake_nat [of ?s] by (simp add: quorum_ok_def unat_quorum_threshold)
  then have "quorum_threshold ?s \<le> stake_for fe n + sum_list (map vi_stake (active_validators ?s))"
    using a by (simp add: stake_for_def voted_stake_def map_filter_simps total_active_stake_def word_le_nat_alt)
  then show "\<exists>fe'. add_votes P fe (map (forged_vote P n h kp now \<circ> vi_address) (active_validators ?s)) = Ok fe' \<and> is_finalized fe' n"
    using add_forged_all [OF assms(1,2) order.refl _ assms(3), of h kp now] a by (auto simp: is_finalized_def)
qed

section \<open>Witnesses\<close>

text \<open>All votes are signed with one key, for three validators.\<close>

definition example_vote :: "address \<Rightarrow> finality_vote" where
  "example_vote a = (finality_vote_new example_prims 5 77 \<lparr>signing_key = 9\<rparr> 1000)\<lparr>fv_validator := a\<rparr>"

definition example_fe :: finality_engine where
  "example_fe = (finality_engine_new example_vset)\<lparr>fe_votes := [(5, [example_vote 1, example_vote 2])]\<rparr>"

lemma example_is_validator: "is_validator example_vset 1" "is_validator example_vset 2" "is_validator example_vset 3"
  by (simp_all add: is_validator_def example_vset_simps) (simp_all add: validator_info_new_def)

lemma example_vote_simps [simp]: "fv_validator (example_vote a) = a" "fv_block_number (example_vote a) = 5"
  by (simp_all add: example_vote_def finality_vote_new_def)

lemma example_fe_simps [simp]: "fe_validator_set example_fe = example_vset" "fe_finalized_height example_fe = 0"
    "fe_votes example_fe = [(5, [example_vote 1, example_vote 2])]"
  by (simp_all add: example_fe_def finality_engine_new_def)

theorem forged_vote_counted_witness:
  "\<exists>fe'. add_votes example_prims (finality_engine_new example_vset)
      (map (forged_vote example_prims 5 77 \<lparr>signing_key = 9\<rparr> 1000 \<circ> vi_address) (active_validators example_vset)) = Ok fe' \<and>
    is_finalized fe' 5 \<and> \<not> is_finalized (finality_engine_new example_vset) 5"
proof -
  let ?fe = "finality_engine_new example_vset"
  have "active_validators (fe_validator_set ?fe) \<noteq> []" by (simp add: finality_engine_new_def example_vset_simps(1))
  then show ?thesis
    using forged_vote_counted [OF example_ed25519_correct, of ?fe 5 77 "\<lparr>signing_key = 9\<rparr>" 1000] example_vset_simps(2)
    by (simp add: finality_engine_new_def is_finalized_def)
qed

lemma example_quorum:
  "check_quorum (example_fe\<lparr>fe_votes := [(5, [example_vote 1, example_vote 2, example_vote 3])]\<rparr>) 5 =
     (Finalized, example_fe\<lparr>fe_finalized_height := 5, fe_votes := []\<rparr>)"
proof -
  have "quorum_threshold example_vset = 267"
    using example_vset_simps(3) by (simp add: word_unat_eq_iff)
  moreover have "voted_stake example_vset [example_vote 1, example_vote 2, example_vote 3] = 300"
    by (simp add: voted_stake_def map_filter_simps get_validator_def)
      (simp add: example_vset_def validator_set_new_def validator_info_new_def)
  ultimately show ?thesis by (simp add: check_quorum_def)
qed

lemma example_add_vote:
  "add_vote example_prims example_fe (example_vote 3) = Ok (Finalized, example_fe\<lparr>fe_finalized_height := 5, fe_votes := []\<rparr>)"
proof -
  have "vote_verify example_prims (example_vote 3) = Ok ()"
    using vote_verify_new [OF example_ed25519_correct, of 5 77 "\<lparr>signing_key = 9\<rparr>" 1000]
    by (simp add: vote_verify_def example_vote_def)
  then show ?thesis using example_quorum by (simp add: add_vote_def example_is_validator)
qed

theorem finality_monotone_witness: "is_finalized (example_fe\<lparr>fe_finalized_height := 5, fe_votes := []\<rparr>) 0"
  using finality_monotone [OF example_add_vote, of 0] by (simp add: is_finalized_def)

theorem finality_safety_witness:
  "\<exists>w. w \<in> set (active_validators example_vset) - {validator_info_new 1 11 100} \<and> vi_address w \<in> {1, 2, 3}"
proof -
  have rec: "recorded_votes example_fe (example_vote 3) = [example_vote 1, example_vote 2, example_vote 3]"
    by (simp add: recorded_votes_def)
  have "\<exists>w. w \<in> set (active_validators example_vset) - {validator_info_new 1 11 100} \<and>
      (\<exists>u1\<in>set (recorded_votes example_fe (example_vote 3)). fv_validator u1 = vi_address w) \<and>
      (\<exists>u2\<in>set (recorded_votes example_fe (example_vote 3)). fv_validator u2 = vi_address w)"
    by (rule finality_safety [OF example_vset_simps(2) _ _ example_add_vote _ example_add_vote])
      (simp_all add: rec example_is_validator, simp_all add: example_vset_simps, simp_all add: validator_info_new_def)
  then show ?thesis by (auto simp: rec)
qed

end
