(* ===== verification/Chain_State.thy ===== *)
theory Chain_State
  imports Finality
begin

text \<open>
  The chain state (\<open>crates/consensus/src/state.rs\<close>): loading or creating the state from the
  genesis configuration, executing the transactions of a block, committing the result and
  advancing the epoch. \<open>apply_block\<close> is one long loop in the source; here each kind of
  transaction is a definition of its own (\<open>exec_transfer\<close> and so on), \<open>exec_tx\<close> is the body
  of the loop and \<open>exec_txs\<close> the loop.

  The database and the module cache of the engine change while transactions run, before the
  final batch is written; the state is therefore returned together with the result, also when
  the result is an error. Arithmetic wraps, as in the release profile.
\<close>

section \<open>State\<close>

definition db_state_reader :: "('db, 'p) storage_prims_scheme \<Rightarrow> 'db \<Rightarrow> state_reader" where
  "db_state_reader P db = \<lparr>
     rd_account = (\<lambda>a. map_err (\<lambda>e. StateError (storage_error_to_string e)) (get_account P db a)),
     rd_storage = (\<lambda>a k. map_err (\<lambda>e. StateError (storage_error_to_string e)) (get_contract_storage P db a k)),
     rd_code = (\<lambda>h. map_err (\<lambda>e. StateError (storage_error_to_string e)) (get_contract_code P db h))\<rparr>"

record 'db chain_state =
  cs_head :: block
  cs_height :: block_number
  cs_current_epoch :: epoch_info
  cs_storage :: 'db

definition epoch_of :: "genesis_config \<Rightarrow> epoch_number \<Rightarrow> block_number \<Rightarrow> block_number \<Rightarrow> epoch_info" where
  "epoch_of g n st en = \<lparr>ep_number = n, ep_start_block = st, ep_end_block = en,
     ep_validator_set = validator_set_new (to_validator_infos g)
       (cp_min_stake (gc_consensus_params g)) (cp_max_validators (gc_consensus_params g)),
     ep_finalized_block = None\<rparr>"

text \<open>
  \<open>None\<close> is a panic: the validation of a genesis configuration accepts an epoch length of 0,
  and loading an existing chain divides by it.
\<close>

definition load_existing :: "('db, 'p) storage_prims_scheme \<Rightarrow> genesis_config \<Rightarrow> 'db \<Rightarrow> (consensus_error + 'db chain_state) option" where
  "load_existing P g db =
     (case and_then (map_err ConsStorage (get_chain_height P db)) (\<lambda>h.
        and_then (map_err ConsStorage (get_block_by_number P db (unwrap_or 0 h))) (\<lambda>hb.
        and_then (ok_or (StateTransition ''head block not found'') hb) (\<lambda>head. Ok (unwrap_or 0 h, head)))) of
        Err e \<Rightarrow> Some (Err e)
      | Ok (height, head) \<Rightarrow>
          (let el = cp_epoch_length (gc_consensus_params g) in
           if el = 0 then None
           else let epoch_number = height div el; epoch_start = epoch_number * el in
             Some (Ok \<lparr>cs_head = head, cs_height = height,
               cs_current_epoch = epoch_of g epoch_number epoch_start (epoch_start + el - 1), cs_storage = db\<rparr>)))"

definition init_genesis :: "('db, 'p) storage_prims_scheme \<Rightarrow> genesis_config \<Rightarrow> block \<Rightarrow> 'db \<Rightarrow> consensus_error + 'db chain_state" where
  "init_genesis P g gb db =
     (let ep = epoch_of g 0 0 (cp_epoch_length (gc_consensus_params g) - 1) in
      and_then (map_err ConsStorage (put_block P db gb)) (\<lambda>db1.
      and_then (map_err ConsStorage (set_chain_height P db1 0)) (\<lambda>db2.
      and_then (map_err ConsStorage (set_genesis_hash P db2 (block_hash P gb))) (\<lambda>db3.
      and_then (map_err ConsStorage (put_all (put_account P) db3
         (map (\<lambda>a. account_new (ga_address a) (ga_balance a)) (gc_initial_accounts g)))) (\<lambda>db4.
      and_then (map_err ConsStorage (put_all (put_validator P) db4 (to_validator_infos g))) (\<lambda>db5.
      and_then (map_err ConsStorage (put_epoch P db5 ep)) (\<lambda>db6.
        Ok \<lparr>cs_head = gb, cs_height = 0, cs_current_epoch = ep, cs_storage = db6\<rparr>)))))))"

text \<open>
  A failed initialisation leaves whatever it had written in the database; the node then stops,
  and the model returns only the error. \<open>to_genesis_block\<close> panics on an empty validator list,
  which \<open>genesis.validate()\<close> has excluded.
\<close>

definition from_genesis :: "('db, 'p) storage_prims_scheme \<Rightarrow> genesis_config \<Rightarrow> 'db \<Rightarrow> (consensus_error + 'db chain_state) option" where
  "from_genesis P g db =
     (case genesis_validate P g of
        Err e \<Rightarrow> Some (Err (ConsCore e))
      | Ok _ \<Rightarrow>
          (case to_genesis_block g of
             None \<Rightarrow> None
           | Some gb \<Rightarrow>
               (case get_genesis_hash P db of
                  Err e \<Rightarrow> Some (Err (ConsStorage e))
                | Ok (Some eh) \<Rightarrow>
                    if eh \<noteq> block_hash P gb
                    then Some (Err (StateTransition ''genesis hash mismatch with existing database''))
                    else load_existing P g db
                | Ok None \<Rightarrow> Some (init_genesis P g gb db))))"

section \<open>Executing transactions\<close>

type_synonym account_map = "(address, account) hmap"

definition find_account :: "('db, 'p) storage_prims_scheme \<Rightarrow> 'db \<Rightarrow> account_map \<Rightarrow> address \<Rightarrow> account option" where
  "find_account P db accs a = or_else (hm_get accs a) (flatten (ok (get_account P db a)))"

definition load_account :: "('db, 'p) storage_prims_scheme \<Rightarrow> 'db \<Rightarrow> account_map \<Rightarrow> address \<Rightarrow> account" where
  "load_account P db accs a = unwrap_or (account_new a 0) (find_account P db accs a)"

definition apply_delta :: "account \<Rightarrow> i128 \<Rightarrow> account" where
  "apply_delta acc d = (let s = acc_balance acc + d in acc\<lparr>acc_balance := (if sint s < 0 then 0 else s)\<rparr>)"

definition apply_balance_changes :: "('db, 'p) storage_prims_scheme \<Rightarrow> 'db \<Rightarrow> (address, i128) hmap \<Rightarrow> account_map \<Rightarrow> account_map" where
  "apply_balance_changes P db changes accs =
     foldl (\<lambda>m (a, d). hm_put a (apply_delta (load_account P db m a) d) m) accs changes"

text \<open>A failed write of a contract slot is ignored (\<open>let _ = ...\<close>).\<close>

definition apply_storage_change :: "('db, 'p) storage_prims_scheme \<Rightarrow> 'db \<Rightarrow> (address \<times> bytes) \<times> bytes option \<Rightarrow> 'db" where
  "apply_storage_change P db ch = (case ch of ((a, k), v) \<Rightarrow>
     (case (case v of Some x \<Rightarrow> put_contract_storage P db a k x | None \<Rightarrow> delete_contract_storage P db a k) of
        Ok db' \<Rightarrow> db' | Err _ \<Rightarrow> db))"

definition apply_storage_changes :: "('db, 'p) storage_prims_scheme \<Rightarrow> (address \<times> bytes, bytes option) hmap \<Rightarrow> 'db \<Rightarrow> 'db" where
  "apply_storage_changes P changes db = foldl (apply_storage_change P) db changes"

definition state_root_input :: "account_map \<Rightarrow> bytes" where
  "state_root_input accs = concat (map (\<lambda>a.
     let acc = the (hm_get accs a) in
     to_be_bytes a @ to_le_bytes (acc_balance acc) @ to_le_bytes (acc_nonce acc)) (sort (map fst accs)))"

definition compute_state_root :: "'p crypto_prims_scheme \<Rightarrow> account_map \<Rightarrow> blake3hash" where
  "compute_state_root P accs = (if accs = [] then hash_ZERO else hash P (state_root_input accs))"

definition extract_function_name :: "bytes \<Rightarrow> string \<times> bytes" where
  "extract_function_name d =
     (if length d \<ge> 4 then
        let name_len = unat (from_le_bytes (take 4 d) :: u32) in
        if name_len > 0 \<and> name_len \<le> 256 \<and> length d \<ge> 4 + name_len then
          (case from_utf8 (take name_len (drop 4 d)) of
             Some name \<Rightarrow> (name, drop (4 + name_len) d)
           | None \<Rightarrow> (''call'', d))
        else (''call'', d)
      else (''call'', d))"

record ('db, 'm) exec_state =
  xs_db :: 'db
  xs_epoch :: epoch_info
  xs_engine :: "'m wasm_engine"
  xs_accounts :: account_map
  xs_receipts :: "transaction_receipt list"
  xs_total_gas :: gas

definition mk_receipt :: "'p block_prims_scheme \<Rightarrow> block \<Rightarrow> nat \<Rightarrow> signed_transaction \<Rightarrow> tx_status \<Rightarrow> gas \<Rightarrow>
    event_log list \<Rightarrow> address option \<Rightarrow> bytes \<Rightarrow> transaction_receipt" where
  "mk_receipt P b i stx status g logs ca ret = \<lparr>rc_tx_hash = stx_hash stx, rc_block_number = bh_number (bk_header b),
     rc_block_hash = block_hash P b, rc_index = of_nat i, rc_status = status, rc_gas_used = g, rc_logs = logs,
     rc_contract_address = ca, rc_return_data = ret\<rparr>"

definition BASE_GAS :: gas where "BASE_GAS = 21000"

text \<open>\<open>(tx.gas_limit.saturating_sub(used) * tx.gas_price) as Balance\<close>: the product is a \<open>u64\<close>.\<close>

definition gas_refund :: "transaction \<Rightarrow> gas \<Rightarrow> balance" where
  "gas_refund tx used = ucast (saturating_sub (tx_gas_limit tx) used * tx_gas_price tx)"

definition add_balance :: "account \<Rightarrow> balance \<Rightarrow> account" where
  "add_balance acc v = acc\<lparr>acc_balance := acc_balance acc + v\<rparr>"

definition sub_balance :: "account \<Rightarrow> balance \<Rightarrow> account" where
  "sub_balance acc v = acc\<lparr>acc_balance := acc_balance acc - v\<rparr>"

text \<open>What executing one transaction yields: its receipt, the gas charged, the sender's account and the state.\<close>

type_synonym ('db, 'm) outcome = "transaction_receipt \<times> gas \<times> account \<times> ('db, 'm) exec_state"

definition exec_transfer :: "('db, 'p) storage_prims_scheme \<Rightarrow> block \<Rightarrow> nat \<Rightarrow> signed_transaction \<Rightarrow> account \<Rightarrow>
    ('db, 'm) exec_state \<Rightarrow> ('db, 'm) outcome" where
  "exec_transfer P b i stx acc st =
     (let tx = stx_transaction stx; to_addr = unwrap_or address_ZERO (tx_to tx);
          to_account = load_account P (xs_db st) (xs_accounts st) to_addr;
          acc1 = sub_balance acc (tx_value tx);
          st1 = st\<lparr>xs_accounts := hm_put to_addr (add_balance to_account (tx_value tx)) (xs_accounts st)\<rparr>
      in (mk_receipt P b i stx Success BASE_GAS [] None [], BASE_GAS,
          add_balance acc1 (gas_refund tx BASE_GAS), st1))"

definition tx_context :: "('db, 'p) storage_prims_scheme \<Rightarrow> block \<Rightarrow> signed_transaction \<Rightarrow> address \<Rightarrow> 'db \<Rightarrow> execution_context" where
  "tx_context P b stx ca db = (let tx = stx_transaction stx; h = bk_header b in
     execution_context_new (sender stx) (sender stx) ca (tx_value tx) (bh_number h) (bh_timestamp h)
       (bh_chain_id h) (tx_gas_limit tx) (db_state_reader P db))"

text \<open>The contract's code is written at once, and a failure to write it is ignored.\<close>

definition save_code :: "('db, 'p) storage_prims_scheme \<Rightarrow> 'db \<Rightarrow> blake3hash \<Rightarrow> bytes \<Rightarrow> 'db" where
  "save_code P db h code = unwrap_or db (ok (put_contract_code P db h code))"

definition exec_deploy :: "('db, 'p) storage_prims_scheme \<Rightarrow> ('m, 'i) wasmtime \<Rightarrow> block \<Rightarrow> nat \<Rightarrow> signed_transaction \<Rightarrow>
    account \<Rightarrow> ('db, 'm) exec_state \<Rightarrow> ('db, 'm) outcome" where
  "exec_deploy P W b i stx acc st =
     (let tx = stx_transaction stx in
      case deploy_contract P W (xs_engine st) (tx_data tx) [] (tx_context P b stx address_ZERO (xs_db st)) of
        (Ok r, c, E') \<Rightarrow>
          (let db1 = save_code P (xs_db st) (dr_code_hash r) (tx_data tx);
               accs1 = hm_put (dr_contract_address r)
                 (account_new_contract (dr_contract_address r) (tx_value tx) (dr_code_hash r)) (xs_accounts st);
               db2 = apply_storage_changes P (ec_storage_changes c) db1;
               accs2 = apply_balance_changes P db2 (ec_balance_changes c) accs1
           in (mk_receipt P b i stx Success (dr_gas_used r) (dr_logs r) (Some (dr_contract_address r)) [],
               dr_gas_used r,
               add_balance (sub_balance acc (tx_value tx)) (gas_refund tx (dr_gas_used r)),
               st\<lparr>xs_db := db2, xs_accounts := accs2, xs_engine := E'\<rparr>))
      | (Err e, c, E') \<Rightarrow>
          (mk_receipt P b i stx (Failure (vm_error_to_string e)) (tx_gas_limit tx) [] None [],
           tx_gas_limit tx, acc, st\<lparr>xs_engine := E'\<rparr>))"

definition exec_call :: "('db, 'p) storage_prims_scheme \<Rightarrow> ('m, 'i) wasmtime \<Rightarrow> block \<Rightarrow> nat \<Rightarrow> signed_transaction \<Rightarrow>
    account \<Rightarrow> ('db, 'm) exec_state \<Rightarrow> ('db, 'm) outcome" where
  "exec_call P W b i stx acc st =
     (let tx = stx_transaction stx; to_addr = unwrap_or address_ZERO (tx_to tx) in
      case find_account P (xs_db st) (xs_accounts st) to_addr of
        None \<Rightarrow> (mk_receipt P b i stx (Failure ''contract not found'') BASE_GAS [] None [], BASE_GAS, acc, st)
      | Some target \<Rightarrow>
         (case acc_code_hash target of
            None \<Rightarrow> (mk_receipt P b i stx (Failure ''target is not a contract'') BASE_GAS [] None [], BASE_GAS, acc, st)
          | Some ch \<Rightarrow>
             (let (f, args) = extract_function_name (tx_data tx) in
              case call_contract P W (xs_engine st) ch f args (tx_context P b stx to_addr (xs_db st)) of
                (Ok r, c, E') \<Rightarrow>
                  (let db1 = (if cr_status r = Success then apply_storage_changes P (ec_storage_changes c) (xs_db st)
                              else xs_db st);
                       accs1 = (if cr_status r = Success
                              then apply_balance_changes P db1 (ec_balance_changes c) (xs_accounts st)
                              else xs_accounts st)
                   in (mk_receipt P b i stx (cr_status r) (cr_gas_used r) (cr_logs r) None (cr_return_data r),
                       cr_gas_used r, add_balance acc (gas_refund tx (cr_gas_used r)),
                       st\<lparr>xs_db := db1, xs_accounts := accs1, xs_engine := E'\<rparr>))
              | (Err e, c, E') \<Rightarrow>
                  (mk_receipt P b i stx (Failure (vm_error_to_string e)) (tx_gas_limit tx) [] None [],
                   tx_gas_limit tx, acc, st\<lparr>xs_engine := E'\<rparr>))))"

definition set_validators :: "epoch_info \<Rightarrow> validator_info list \<Rightarrow> epoch_info" where
  "set_validators ep vs = ep\<lparr>ep_validator_set := recalculate_total_stake ((ep_validator_set ep)\<lparr>vs_validators := vs\<rparr>)\<rparr>"

text \<open>A validator record that cannot be written is dropped silently (\<open>.ok()\<close>).\<close>

definition save_validator :: "('db, 'p) storage_prims_scheme \<Rightarrow> 'db \<Rightarrow> validator_info \<Rightarrow> 'db" where
  "save_validator P db vi = unwrap_or db (ok (put_validator P db vi))"

definition exec_stake :: "('db, 'p) storage_prims_scheme \<Rightarrow> block \<Rightarrow> nat \<Rightarrow> signed_transaction \<Rightarrow> account \<Rightarrow>
    ('db, 'm) exec_state \<Rightarrow> ('db, 'm) outcome" where
  "exec_stake P b i stx acc st =
     (let tx = stx_transaction stx; vset = ep_validator_set (xs_epoch st); amount = tx_value tx;
          acc1 = sub_balance acc amount;
          bump = (\<lambda>vi. vi\<lparr>vi_stake := vi_stake vi + amount, vi_is_active := True\<rparr>);
          (vi, vals) = (case get_validator vset (sender stx) of
             Some v \<Rightarrow> (bump v, update_validator bump (sender stx) (vs_validators vset))
           | None \<Rightarrow> (let v = validator_info_new (sender stx) (stx_public_key stx) amount in
                      (v, vs_validators vset @ [v])))
      in (mk_receipt P b i stx Success BASE_GAS [] None [], BASE_GAS,
          add_balance acc1 (gas_refund tx BASE_GAS),
          st\<lparr>xs_db := save_validator P (xs_db st) vi, xs_epoch := set_validators (xs_epoch st) vals\<rparr>))"

definition exec_unstake :: "('db, 'p) storage_prims_scheme \<Rightarrow> block \<Rightarrow> nat \<Rightarrow> signed_transaction \<Rightarrow> account \<Rightarrow>
    ('db, 'm) exec_state \<Rightarrow> ('db, 'm) outcome" where
  "exec_unstake P b i stx acc st =
     (let tx = stx_transaction stx; vset = ep_validator_set (xs_epoch st); amount = tx_value tx;
          refund = gas_refund tx BASE_GAS in
      case get_validator vset (sender stx) of
        Some v \<Rightarrow>
          if vi_stake v < amount then
            (mk_receipt P b i stx (Failure (''insufficient stake: have '' @ show_word (vi_stake v) @
               '', want to unstake '' @ show_word amount)) BASE_GAS [] None [], BASE_GAS,
             add_balance acc refund, st)
          else
            (let drop_stake = (\<lambda>vi. let vi' = vi\<lparr>vi_stake := vi_stake vi - amount\<rparr> in
                   if vi_stake vi' < vs_min_stake vset then vi'\<lparr>vi_is_active := False\<rparr> else vi')
             in (mk_receipt P b i stx Success BASE_GAS [] None [], BASE_GAS,
                 add_balance (add_balance acc amount) refund,
                 st\<lparr>xs_db := save_validator P (xs_db st) (drop_stake v),
                    xs_epoch := set_validators (xs_epoch st)
                      (update_validator drop_stake (sender stx) (vs_validators vset))\<rparr>))
      | None \<Rightarrow>
          (mk_receipt P b i stx (Failure ''not a validator'') BASE_GAS [] None [], BASE_GAS,
           add_balance acc refund, st))"

definition exec_by_type :: "('db, 'p) storage_prims_scheme \<Rightarrow> ('m, 'i) wasmtime \<Rightarrow> block \<Rightarrow> nat \<Rightarrow> signed_transaction \<Rightarrow>
    account \<Rightarrow> ('db, 'm) exec_state \<Rightarrow> ('db, 'm) outcome" where
  "exec_by_type P W b i stx acc st = (case tx_type (stx_transaction stx) of
      Transfer \<Rightarrow> exec_transfer P b i stx acc st
    | ContractDeploy \<Rightarrow> exec_deploy P W b i stx acc st
    | ContractCall \<Rightarrow> exec_call P W b i stx acc st
    | Stake \<Rightarrow> exec_stake P b i stx acc st
    | Unstake \<Rightarrow> exec_unstake P b i stx acc st)"

text \<open>
  The body of the loop. A transaction with the wrong nonce or too poor a sender leaves a failure
  receipt and changes nothing else; otherwise the gas is paid in advance, the nonce is increased,
  the transaction runs, and the sender's account is stored last.
\<close>

definition exec_tx :: "('db, 'p) storage_prims_scheme \<Rightarrow> ('m, 'i) wasmtime \<Rightarrow> block \<Rightarrow> nat \<times> signed_transaction \<Rightarrow>
    ('db, 'm) exec_state \<Rightarrow> ('db, 'm) exec_state" where
  "exec_tx P W b itx st =
     (let (i, stx) = itx; tx = stx_transaction stx;
          acc = load_account P (xs_db st) (xs_accounts st) (sender stx) in
      if tx_nonce tx \<noteq> acc_nonce acc then
        st\<lparr>xs_receipts := xs_receipts st @ [mk_receipt P b i stx (Failure (''nonce mismatch: expected '' @
             show_word (acc_nonce acc) @ '', got '' @ show_word (tx_nonce tx))) 0 [] None []]\<rparr>
      else if \<not> has_sufficient_balance acc (total_cost tx) then
        st\<lparr>xs_receipts := xs_receipts st @ [mk_receipt P b i stx (Failure (''insufficient balance: have '' @
             show_word (acc_balance acc) @ '', need '' @ show_word (total_cost tx))) 0 [] None []]\<rparr>
      else
        (let acc1 = increment_nonce (sub_balance acc (max_gas_cost tx));
             (receipt, gas_used, acc2, st1) = exec_by_type P W b i stx acc1 st
         in st1\<lparr>xs_total_gas := xs_total_gas st1 + gas_used,
              xs_accounts := hm_put (sender stx) acc2 (xs_accounts st1),
              xs_receipts := xs_receipts st1 @ [receipt]\<rparr>))"

definition exec_txs :: "('db, 'p) storage_prims_scheme \<Rightarrow> ('m, 'i) wasmtime \<Rightarrow> block \<Rightarrow>
    ('db, 'm) exec_state \<Rightarrow> ('db, 'm) exec_state" where
  "exec_txs P W b st = fold (exec_tx P W b) (enumerate 0 (bk_transactions b)) st"

section \<open>Applying a block\<close>

definition commit_block :: "('db, 'p) storage_prims_scheme \<Rightarrow> block \<Rightarrow> ('db, 'm) exec_state \<Rightarrow> storage_error + 'db" where
  "commit_block P b st = (let db = xs_db st in
     and_then (batch_put_block P db b []) (\<lambda>b1.
     and_then (batch_put_transactions P db (bk_transactions b) (bh_number (bk_header b)) b1) (\<lambda>b2.
     and_then (batch_put_receipts P db (xs_receipts st) b2) (\<lambda>b3.
     and_then (batch_update_accounts P db (map snd (xs_accounts st)) b3) (\<lambda>b4.
     and_then (batch_set_chain_height P db (bh_number (bk_header b)) b4) (\<lambda>b5.
     and_then (batch_set_best_block_hash P db (block_hash P b) b5) (\<lambda>b6.
       batch_commit P db b6)))))))"

definition exec_init :: "'db chain_state \<Rightarrow> 'm wasm_engine \<Rightarrow> ('db, 'm) exec_state" where
  "exec_init s E = \<lparr>xs_db = cs_storage s, xs_epoch = cs_current_epoch s, xs_engine = E,
     xs_accounts = [], xs_receipts = [], xs_total_gas = 0\<rparr>"

definition apply_block :: "('db, 'p) storage_prims_scheme \<Rightarrow> ('m, 'i) wasmtime \<Rightarrow> 'db chain_state \<Rightarrow> block \<Rightarrow> 'm wasm_engine \<Rightarrow>
    (consensus_error + transaction_receipt list) \<times> 'db chain_state \<times> 'm wasm_engine" where
  "apply_block P W s b E =
     (let expected_parent = block_hash P (cs_head s) in
      if bh_parent_hash (bk_header b) \<noteq> expected_parent then
        (Err (ConsInvalidBlock (''parent hash mismatch: expected '' @ hash_display P expected_parent @ '', got '' @
           hash_display P (bh_parent_hash (bk_header b)))), s, E)
      else if bh_number (bk_header b) \<noteq> cs_height s + 1 then
        (Err (ConsInvalidBlock (''block number mismatch: expected '' @ show_word (cs_height s + 1) @ '', got '' @
           show_word (bh_number (bk_header b)))), s, E)
      else
        (let st = exec_txs P W b (exec_init s E);
             s1 = s\<lparr>cs_current_epoch := xs_epoch st, cs_storage := xs_db st\<rparr> in
         case commit_block P b st of
           Err e \<Rightarrow> (Err (ConsStorage e), s1, xs_engine st)
         | Ok db \<Rightarrow> (Ok (xs_receipts st),
             s1\<lparr>cs_storage := db, cs_head := b, cs_height := bh_number (bk_header b)\<rparr>, xs_engine st)))"

section \<open>Advancing the epoch\<close>

definition unjail :: "consensus_params \<Rightarrow> timestamp \<Rightarrow> validator_info \<Rightarrow> validator_info" where
  "unjail cp now vi = (case vi_jailed_until vi of
      Some until \<Rightarrow>
        if now \<ge> until then
          (let vi' = vi\<lparr>vi_jailed_until := None\<rparr> in
           if vi_stake vi' \<ge> cp_min_stake cp then vi'\<lparr>vi_is_active := True\<rparr> else vi')
        else vi
    | None \<Rightarrow> vi)"

definition next_validators :: "consensus_params \<Rightarrow> timestamp \<Rightarrow> validator_info list \<Rightarrow> validator_info list" where
  "next_validators cp now vs = take (unat (cp_max_validators cp))
     (sort_by (\<lambda>a b. vi_stake b \<le> vi_stake a)
       (filter (\<lambda>v. vi_stake v \<ge> cp_min_stake cp) (map (unjail cp now) vs)))"

definition maybe_advance_epoch :: "('db, 'p) storage_prims_scheme \<Rightarrow> timestamp \<Rightarrow> 'db chain_state \<Rightarrow> consensus_params \<Rightarrow>
    (consensus_error + epoch_info option) \<times> 'db chain_state" where
  "maybe_advance_epoch P now s cp =
     (if \<not> is_last_block (cs_current_epoch s) (cs_height s) then (Ok None, s)
      else
        (let start = cs_height s + 1;
             vs = next_validators cp now (vs_validators (ep_validator_set (cs_current_epoch s)));
             ep = \<lparr>ep_number = ep_number (cs_current_epoch s) + 1, ep_start_block = start,
                   ep_end_block = start + cp_epoch_length cp - 1,
                   ep_validator_set = validator_set_new vs (cp_min_stake cp) (cp_max_validators cp),
                   ep_finalized_block = None\<rparr>
         in case put_epoch P (cs_storage s) ep of
              Err e \<Rightarrow> (Err (ConsStorage e), s)
            | Ok db \<Rightarrow> (Ok (Some ep), s\<lparr>cs_storage := db, cs_current_epoch := ep\<rparr>)))"

section \<open>What executing a transaction leaves alone\<close>

definition cf_frame :: "('db, 'p) storage_prims_scheme \<Rightarrow> string set \<Rightarrow> 'db \<Rightarrow> 'db \<Rightarrow> bool" where
  "cf_frame P cfs db db' \<longleftrightarrow> rdb_cf_handle P db' = rdb_cf_handle P db \<and>
     (\<forall>cf k. cf \<notin> cfs \<longrightarrow> get_cf P db' cf k = get_cf P db cf k)"

abbreviation exec_cfs :: "string set" where
  "exec_cfs \<equiv> {CONTRACTS, CONTRACT_STORAGE, VALIDATORS}"

lemma cf_frame_refl [simp, intro]: "cf_frame P cfs db db"
  by (simp add: cf_frame_def)

lemma cf_frame_trans: "cf_frame P cfs db db1 \<Longrightarrow> cf_frame P cfs db1 db2 \<Longrightarrow> cf_frame P cfs db db2"
  by (auto simp: cf_frame_def)

lemma cf_frame_put: "rocks_ok P \<Longrightarrow> put_cf P db cf k v = Ok db' \<Longrightarrow> cf \<in> cfs \<Longrightarrow> cf_frame P cfs db db'"
  by (auto simp: cf_frame_def put_cf_Ok)

lemma cf_frame_put_typed:
  "rocks_ok P \<Longrightarrow> put_typed P c db cf k v = Ok db' \<Longrightarrow> cf \<in> cfs \<Longrightarrow> cf_frame P cfs db db'"
  by (auto dest!: put_typed_Ok intro: cf_frame_put)

lemma cf_frame_delete: "rocks_ok P \<Longrightarrow> delete_cf P db cf k = Ok db' \<Longrightarrow> cf \<in> cfs \<Longrightarrow> cf_frame P cfs db db'"
  by (auto simp: cf_frame_def delete_cf_Ok)

lemma apply_storage_change_frame: "rocks_ok P \<Longrightarrow> cf_frame P exec_cfs db (apply_storage_change P db ch)"
  by (auto simp: apply_storage_change_def put_contract_storage_def delete_contract_storage_def
      split: prod.split option.split sum.split intro: cf_frame_put cf_frame_delete)

lemma apply_storage_changes_frame: "rocks_ok P \<Longrightarrow> cf_frame P exec_cfs db (apply_storage_changes P chs db)"
proof (induction chs arbitrary: db)
  case (Cons ch chs)
  then show ?case
    using cf_frame_trans [OF apply_storage_change_frame [OF Cons.prems] Cons.IH [OF Cons.prems]]
    by (simp add: apply_storage_changes_def)
qed (simp add: apply_storage_changes_def)

lemma save_validator_frame: "rocks_ok P \<Longrightarrow> cf_frame P exec_cfs db (save_validator P db vi)"
  by (cases "put_validator P db vi")
    (auto simp: save_validator_def put_validator_def intro: cf_frame_put_typed)

lemma save_code_frame: "rocks_ok P \<Longrightarrow> cf_frame P exec_cfs db (save_code P db h c)"
  by (cases "put_contract_code P db h c")
    (auto simp: save_code_def put_contract_code_def intro: cf_frame_put)

lemma exec_by_type_frame:
  assumes "rocks_ok P" "exec_by_type P W b i stx acc st = (r, g, acc', st')"
  shows "cf_frame P exec_cfs (xs_db st) (xs_db st')" "xs_receipts st' = xs_receipts st"
    "xs_total_gas st' = xs_total_gas st"
proof -
  have code: "cf_frame P exec_cfs db (apply_storage_changes P chs (save_code P db h c))" for db chs h c
    by (rule cf_frame_trans [OF save_code_frame [OF assms(1)] apply_storage_changes_frame [OF assms(1)]])
  show "cf_frame P exec_cfs (xs_db st) (xs_db st')" "xs_receipts st' = xs_receipts st"
    "xs_total_gas st' = xs_total_gas st"
    using assms(2) code
    by (auto simp: exec_by_type_def exec_transfer_def exec_deploy_def exec_call_def exec_stake_def
        exec_unstake_def Let_def apply_storage_changes_frame [OF assms(1)] save_validator_frame [OF assms(1)]
        split: tx_type.splits prod.splits sum.splits option.splits if_splits)
qed

lemma exec_tx_frame: "rocks_ok P \<Longrightarrow> cf_frame P exec_cfs (xs_db st) (xs_db (exec_tx P W b itx st))"
  by (auto simp: exec_tx_def Let_def exec_by_type_frame split: prod.split)

lemma exec_fold_frame:
  "rocks_ok P \<Longrightarrow> cf_frame P exec_cfs (xs_db st) (xs_db (fold (exec_tx P W b) itxs st))"
  by (induction itxs arbitrary: st) (auto intro: cf_frame_trans exec_tx_frame)

lemma exec_txs_frame: "rocks_ok P \<Longrightarrow> cf_frame P exec_cfs (xs_db st) (xs_db (exec_txs P W b st))"
  by (simp add: exec_txs_def exec_fold_frame)

lemma exec_cfs_others [simp]:
  "BLOCKS \<notin> exec_cfs" "BLOCK_HASHES \<notin> exec_cfs" "ACCOUNTS \<notin> exec_cfs" "META \<notin> exec_cfs"
  by (simp_all add: cf_defs)

lemma cf_frame_reads:
  assumes "cf_frame P cfs db db'"
  shows "ACCOUNTS \<notin> cfs \<Longrightarrow> get_account P db' a = get_account P db a"
    "BLOCKS \<notin> cfs \<Longrightarrow> get_block_by_number P db' n = get_block_by_number P db n"
    "META \<notin> cfs \<Longrightarrow> get_chain_height P db' = get_chain_height P db"
    "META \<notin> cfs \<Longrightarrow> get_genesis_hash P db' = get_genesis_hash P db"
  using assms
  by (simp_all add: cf_frame_def get_account_def get_block_by_number_def get_chain_height_def
      get_genesis_hash_def get_typed_def)

lemma load_account_frame:
  "cf_frame P exec_cfs db db' \<Longrightarrow> load_account P db' accs a = load_account P db accs a"
  using cf_frame_reads(1) [of P exec_cfs db db' a] by (simp add: load_account_def find_account_def del: insert_iff)

section \<open>Receipts\<close>

lemma exec_by_type_receipt:
  assumes "exec_by_type P W b i stx acc st = (r, g, acc', st')"
  shows "rc_tx_hash r = stx_hash stx \<and> rc_index r = of_nat i \<and> rc_block_number r = bh_number (bk_header b) \<and>
    rc_block_hash r = block_hash P b \<and> rc_gas_used r = g"
  using assms
  by (auto simp: exec_by_type_def exec_transfer_def exec_deploy_def exec_call_def exec_stake_def
      exec_unstake_def Let_def mk_receipt_def split: tx_type.splits prod.splits sum.splits option.splits if_splits)

lemma exec_tx_receipt:
  assumes "rocks_ok P"
  shows "\<exists>r. xs_receipts (exec_tx P W b (i, stx) st) = xs_receipts st @ [r] \<and>
    rc_tx_hash r = stx_hash stx \<and> rc_index r = of_nat i \<and> rc_block_number r = bh_number (bk_header b) \<and>
    rc_block_hash r = block_hash P b"
  by (auto simp: exec_tx_def Let_def mk_receipt_def exec_by_type_frame(2) [OF assms]
      dest: exec_by_type_receipt split: prod.split)

lemma exec_fold_receipts:
  assumes "rocks_ok P"
  shows "\<exists>rs. xs_receipts (fold (exec_tx P W b) (enumerate n txs) st) = xs_receipts st @ rs \<and>
    list_all2 (\<lambda>r (i, stx). rc_tx_hash r = stx_hash stx \<and> rc_index r = of_nat i \<and>
      rc_block_number r = bh_number (bk_header b) \<and> rc_block_hash r = block_hash P b) rs (enumerate n txs)"
proof (induction txs arbitrary: n st)
  case (Cons stx txs)
  obtain r where r: "xs_receipts (exec_tx P W b (n, stx) st) = xs_receipts st @ [r]"
    "rc_tx_hash r = stx_hash stx" "rc_index r = of_nat n" "rc_block_number r = bh_number (bk_header b)"
    "rc_block_hash r = block_hash P b"
    using exec_tx_receipt [OF assms] by blast
  obtain rs where "xs_receipts (fold (exec_tx P W b) (enumerate (Suc n) txs) (exec_tx P W b (n, stx) st)) =
      xs_receipts (exec_tx P W b (n, stx) st) @ rs" and "list_all2 (\<lambda>r (i, stx). rc_tx_hash r = stx_hash stx \<and>
      rc_index r = of_nat i \<and> rc_block_number r = bh_number (bk_header b) \<and> rc_block_hash r = block_hash P b)
      rs (enumerate (Suc n) txs)"
    using Cons.IH by blast
  with r show ?case by (intro exI [of _ "r # rs"]) simp
qed simp

section \<open>Committing a block\<close>

lemma find_app:
  "find Q (xs @ [x]) = (case find Q xs of Some y \<Rightarrow> Some y | None \<Rightarrow> if Q x then Some x else None)"
  by (induction xs) auto

lemma batch_loop_get:
  assumes "batch_loop c cf key vs ops = Ok ops'"
  shows "batch_get ops' cf' k = (case find (\<lambda>v. cf = cf' \<and> key v = k) (rev vs) of
    Some v \<Rightarrow> ok (ser c v) | None \<Rightarrow> batch_get ops cf' k)"
  using assms
  by (induction vs arbitrary: ops)
    (auto simp: result_simps find_app batch_get_append split: option.splits)

lemma batch_loop_ser: "batch_loop c cf key vs ops = Ok ops' \<Longrightarrow> v \<in> set vs \<Longrightarrow> \<exists>bs. ser c v = Ok bs"
  by (induction vs arbitrary: ops) (auto simp: result_simps)

lemma batch_tx_loop_ser:
  "batch_tx_loop P n i txs ops = Ok ops' \<Longrightarrow> t \<in> set txs \<Longrightarrow> \<exists>bs. ser (bin_transaction P) t = Ok bs"
  by (induction txs arbitrary: i ops) (auto simp: result_simps)

lemma find_SomeD: "find Q xs = Some x \<Longrightarrow> x \<in> set xs \<and> Q x"
  by (auto simp: find_Some_iff)

lemma batch_get_pair [simp]:
  "batch_get [((c, l), v), ((c', l'), v')] cf k =
     (if c' = cf \<and> l' = k then Some v' else if c = cf \<and> l = k then Some v else None)"
  by (simp add: batch_get_def)

lemma batch_tx_loop_get_tx:
  assumes "batch_tx_loop P n i txs ops = Ok ops'"
  shows "batch_get ops' TRANSACTIONS k = (case find (\<lambda>t. to_be_bytes (stx_hash t) = k) (rev txs) of
    Some t \<Rightarrow> ok (ser (bin_transaction P) t) | None \<Rightarrow> batch_get ops TRANSACTIONS k)"
  using assms
proof (induction txs arbitrary: i ops)
  case (Cons t txs)
  then obtain bt bi where b: "ser (bin_transaction P) t = Ok bt"
    "batch_tx_loop P n (i + 1) txs ((ops @ [((TRANSACTIONS, to_be_bytes (stx_hash t)), bt)]) @
      [((TX_INDEX, to_be_bytes (stx_hash t)), bi)]) = Ok ops'"
    by (auto simp: result_simps)
  then show ?case
    using Cons.IH [OF b(2)] by (auto simp: find_app batch_get_append cf_defs split: option.splits)
qed simp

lemma batch_tx_loop_get_other:
  assumes "batch_tx_loop P n i txs ops = Ok ops'" "cf \<noteq> TRANSACTIONS" "cf \<noteq> TX_INDEX"
  shows "batch_get ops' cf k = batch_get ops cf k"
  using assms(1)
proof (induction txs arbitrary: i ops)
  case (Cons t txs)
  then obtain bt bi where b: "batch_tx_loop P n (i + 1) txs ((ops @ [((TRANSACTIONS, to_be_bytes (stx_hash t)), bt)]) @
      [((TX_INDEX, to_be_bytes (stx_hash t)), bi)]) = Ok ops'"
    by (auto simp: result_simps)
  show ?case using Cons.IH [OF b] assms(2,3) by (simp add: batch_get_append)
qed simp

text \<open>The writes of the batch, column family by column family.\<close>

lemma commit_block_ops:
  assumes "commit_block P b st = Ok db'"
  shows "\<exists>bs hs b2 b3 b4. ser (bin_block P) b = Ok bs \<and> ser (bin_u64 P) (bh_number (bk_header b)) = Ok hs \<and>
    batch_tx_loop P (bh_number (bk_header b)) 0 (bk_transactions b)
      ([((BLOCKS, encode_block_number (bh_number (bk_header b))), bs)] @
       [((BLOCK_HASHES, to_be_bytes (block_hash P b)), encode_block_number (bh_number (bk_header b)))]) = Ok b2 \<and>
    batch_loop (bin_receipt P) RECEIPTS (\<lambda>r. to_be_bytes (rc_tx_hash r)) (xs_receipts st) b2 = Ok b3 \<and>
    batch_loop (bin_account P) ACCOUNTS (\<lambda>a. to_be_bytes (acc_address a)) (map snd (xs_accounts st)) b3 = Ok b4 \<and>
    (\<forall>cf \<in> {BLOCKS, BLOCK_HASHES, TRANSACTIONS, RECEIPTS, ACCOUNTS, META}. rdb_cf_handle P (xs_db st) cf) \<and>
    write_batch P (xs_db st) ((b4 @ [((META, CHAIN_HEIGHT), hs)]) @
      [((META, BEST_BLOCK_HASH), to_be_bytes (block_hash P b))]) = Ok db'"
  using assms
  by (fastforce simp: commit_block_def batch_put_block_def batch_put_transactions_def batch_put_receipts_def
      batch_update_accounts_def batch_set_chain_height_def batch_set_best_block_hash_def batch_commit_def
      Let_def result_simps cf_handle_def split: if_splits)

lemma meta_keys_distinct [simp]:
  "CHAIN_HEIGHT \<noteq> BEST_BLOCK_HASH" "BEST_BLOCK_HASH \<noteq> CHAIN_HEIGHT" "CHAIN_HEIGHT \<noteq> GENESIS_HASH" "BEST_BLOCK_HASH \<noteq> GENESIS_HASH"
  by (simp_all add: CHAIN_HEIGHT_def BEST_BLOCK_HASH_def GENESIS_HASH_def string_bytes_def)

lemma find_map_snd:
  "hm_wf m \<Longrightarrow> (\<forall>(a, v) \<in> set m. key v = a) \<Longrightarrow> find (\<lambda>v. key v = a) (rev (map snd m)) = map_of m a"
  by (induction m) (force simp: find_app hm_wf_def split: option.split dest: map_of_SomeD)+

lemma commit_block_chain:
  assumes "storage_ok P" "commit_block P b st = Ok db'"
  shows "get_block_by_number P db' n =
      (if n = bh_number (bk_header b) then Ok (Some b) else get_block_by_number P (xs_db st) n)"
    "get_block_by_hash P db' (block_hash P b) = Ok (Some b)"
    "get_chain_height P db' = Ok (Some (bh_number (bk_header b)))"
    "get_genesis_hash P db' = get_genesis_hash P (xs_db st)"
proof -
  obtain bs hs b2 b3 b4 where c: "ser (bin_block P) b = Ok bs" "ser (bin_u64 P) (bh_number (bk_header b)) = Ok hs"
    "batch_tx_loop P (bh_number (bk_header b)) 0 (bk_transactions b)
      ([((BLOCKS, encode_block_number (bh_number (bk_header b))), bs)] @
       [((BLOCK_HASHES, to_be_bytes (block_hash P b)), encode_block_number (bh_number (bk_header b)))]) = Ok b2"
    "batch_loop (bin_receipt P) RECEIPTS (\<lambda>r. to_be_bytes (rc_tx_hash r)) (xs_receipts st) b2 = Ok b3"
    "batch_loop (bin_account P) ACCOUNTS (\<lambda>a. to_be_bytes (acc_address a)) (map snd (xs_accounts st)) b3 = Ok b4"
    "\<forall>cf \<in> {BLOCKS, BLOCK_HASHES, TRANSACTIONS, RECEIPTS, ACCOUNTS, META}. rdb_cf_handle P (xs_db st) cf"
    "write_batch P (xs_db st) ((b4 @ [((META, CHAIN_HEIGHT), hs)]) @
      [((META, BEST_BLOCK_HASH), to_be_bytes (block_hash P b))]) = Ok db'"
    using commit_block_ops [OF assms(2)] by blast
  note get = write_batch_Ok(2) [OF storage_okD(1) [OF assms(1)] c(7), unfolded batch_get_append
      batch_loop_get [OF c(5)] batch_loop_get [OF c(4)]]
  note ser = storage_okD(2,9) [OF assms(1)]
  have cf: "BLOCKS \<noteq> META" "BLOCKS \<noteq> ACCOUNTS" "BLOCKS \<noteq> RECEIPTS" "BLOCK_HASHES \<noteq> META" "BLOCK_HASHES \<noteq> ACCOUNTS"
    "BLOCK_HASHES \<noteq> RECEIPTS" "META \<noteq> ACCOUNTS" "META \<noteq> RECEIPTS" "BLOCKS \<noteq> BLOCK_HASHES" "BLOCKS \<noteq> TRANSACTIONS"
    "BLOCKS \<noteq> TX_INDEX" "BLOCK_HASHES \<noteq> TRANSACTIONS" "BLOCK_HASHES \<noteq> TX_INDEX" "META \<noteq> TRANSACTIONS" "META \<noteq> TX_INDEX"
    "META \<noteq> BLOCKS" "META \<noteq> BLOCK_HASHES"
    by (simp_all add: cf_defs)
  note ops = batch_tx_loop_get_other [OF c(3)]
  have none: "find (\<lambda>_. False) xs = None" for xs :: "'x list" by (simp add: find_None_iff)
  show num: "get_block_by_number P db' n =
      (if n = bh_number (bk_header b) then Ok (Some b) else get_block_by_number P (xs_db st) n)" for n
    using c(1,6) ser cf cf [symmetric]
    by (auto simp: get_block_by_number_def get_typed_def get ops none serde_ok_def)
  have "get_cf P db' BLOCK_HASHES (to_be_bytes (block_hash P b)) =
      Ok (Some (encode_block_number (bh_number (bk_header b))))"
    using c(6) cf cf [symmetric] by (simp add: get ops none)
  then show "get_block_by_hash P db' (block_hash P b) = Ok (Some b)"
    by (simp add: get_block_by_hash_def num encode_block_number_def codec_simps)
  show "get_chain_height P db' = Ok (Some (bh_number (bk_header b)))"
    using c(2,6) ser by (simp add: get_chain_height_def get_typed_def get serde_ok_def)
  show "get_genesis_hash P db' = get_genesis_hash P (xs_db st)"
    using c(6) cf cf [symmetric] by (simp add: get_genesis_hash_def get ops none)
qed

text \<open>A typed read after a write of some entries: the last one with the key, or what was there.\<close>

lemma get_typed_written:
  assumes "serde_ok s"
    and "f = None \<Longrightarrow> get_cf P db' cf k = get_cf P db cf k"
    and "\<And>x. f = Some x \<Longrightarrow> \<exists>bs. ser s x = Ok bs \<and> get_cf P db' cf k = Ok (Some bs)"
  shows "get_typed P s db' cf k = (case f of Some x \<Rightarrow> Ok (Some x) | None \<Rightarrow> get_typed P s db cf k)"
  using assms by (cases f) (fastforce simp: get_typed_def serde_ok_def)+

lemma commit_block_accounts:
  assumes "storage_ok P" "commit_block P b st = Ok db'"
  shows "get_account P db' a = (case find (\<lambda>acc. acc_address acc = a) (rev (map snd (xs_accounts st))) of
      Some acc \<Rightarrow> Ok (Some acc) | None \<Rightarrow> get_account P (xs_db st) a)"
    "get_receipt P db' h = (case find (\<lambda>r. rc_tx_hash r = h) (rev (xs_receipts st)) of
      Some r \<Rightarrow> Ok (Some r) | None \<Rightarrow> get_receipt P (xs_db st) h)"
    "get_transaction P db' h = (case find (\<lambda>t. stx_hash t = h) (rev (bk_transactions b)) of
      Some t \<Rightarrow> Ok (Some t) | None \<Rightarrow> get_transaction P (xs_db st) h)"
proof -
  obtain bs hs b2 b3 b4 where c: "ser (bin_block P) b = Ok bs" "ser (bin_u64 P) (bh_number (bk_header b)) = Ok hs"
    "batch_tx_loop P (bh_number (bk_header b)) 0 (bk_transactions b)
      ([((BLOCKS, encode_block_number (bh_number (bk_header b))), bs)] @
       [((BLOCK_HASHES, to_be_bytes (block_hash P b)), encode_block_number (bh_number (bk_header b)))]) = Ok b2"
    "batch_loop (bin_receipt P) RECEIPTS (\<lambda>r. to_be_bytes (rc_tx_hash r)) (xs_receipts st) b2 = Ok b3"
    "batch_loop (bin_account P) ACCOUNTS (\<lambda>a. to_be_bytes (acc_address a)) (map snd (xs_accounts st)) b3 = Ok b4"
    "\<forall>cf \<in> {BLOCKS, BLOCK_HASHES, TRANSACTIONS, RECEIPTS, ACCOUNTS, META}. rdb_cf_handle P (xs_db st) cf"
    "write_batch P (xs_db st) ((b4 @ [((META, CHAIN_HEIGHT), hs)]) @
      [((META, BEST_BLOCK_HASH), to_be_bytes (block_hash P b))]) = Ok db'"
    using commit_block_ops [OF assms(2)] by blast
  note get = write_batch_Ok(2) [OF storage_okD(1) [OF assms(1)] c(7), unfolded batch_get_append
      batch_loop_get [OF c(5)] batch_loop_get [OF c(4)]]
  note ops = batch_tx_loop_get_other [OF c(3)] batch_tx_loop_get_tx [OF c(3)]
  have cf: "BLOCKS \<noteq> ACCOUNTS" "BLOCKS \<noteq> RECEIPTS" "BLOCKS \<noteq> TRANSACTIONS" "BLOCK_HASHES \<noteq> ACCOUNTS"
    "BLOCK_HASHES \<noteq> RECEIPTS" "BLOCK_HASHES \<noteq> TRANSACTIONS" "META \<noteq> ACCOUNTS" "META \<noteq> RECEIPTS" "META \<noteq> TRANSACTIONS"
    "ACCOUNTS \<noteq> RECEIPTS" "ACCOUNTS \<noteq> TRANSACTIONS" "RECEIPTS \<noteq> TRANSACTIONS" "ACCOUNTS \<noteq> TX_INDEX" "RECEIPTS \<noteq> TX_INDEX"
    by (simp_all add: cf_defs)
  have none: "find (\<lambda>_. False) xs = None" for xs :: "'x list" by (simp add: find_None_iff)
  note put = c(6) cf cf [symmetric] get ops none codec_simps
  have acc: "\<exists>bs. ser (bin_account P) x = Ok bs" if "find (\<lambda>acc. acc_address acc = a) (rev (map snd (xs_accounts st))) = Some x" for x
    using batch_loop_ser [OF c(5)] that by (force dest!: find_SomeD)
  have rc: "\<exists>bs. ser (bin_receipt P) x = Ok bs" if "find (\<lambda>r. rc_tx_hash r = h) (rev (xs_receipts st)) = Some x" for x
    using batch_loop_ser [OF c(4)] that by (force dest!: find_SomeD)
  have tx: "\<exists>bs. ser (bin_transaction P) x = Ok bs" if "find (\<lambda>t. stx_hash t = h) (rev (bk_transactions b)) = Some x" for x
    using batch_tx_loop_ser [OF c(3)] that by (force dest!: find_SomeD)
  show "get_account P db' a = (case find (\<lambda>acc. acc_address acc = a) (rev (map snd (xs_accounts st))) of
      Some acc \<Rightarrow> Ok (Some acc) | None \<Rightarrow> get_account P (xs_db st) a)"
    unfolding get_account_def by (rule get_typed_written) (use storage_okD [OF assms(1)] acc in \<open>auto simp: put\<close>)
  show "get_receipt P db' h = (case find (\<lambda>r. rc_tx_hash r = h) (rev (xs_receipts st)) of
      Some r \<Rightarrow> Ok (Some r) | None \<Rightarrow> get_receipt P (xs_db st) h)"
    unfolding get_receipt_def by (rule get_typed_written) (use storage_okD [OF assms(1)] rc in \<open>auto simp: put\<close>)
  show "get_transaction P db' h = (case find (\<lambda>t. stx_hash t = h) (rev (bk_transactions b)) of
      Some t \<Rightarrow> Ok (Some t) | None \<Rightarrow> get_transaction P (xs_db st) h)"
    unfolding get_transaction_def by (rule get_typed_written) (use storage_okD [OF assms(1)] tx in \<open>auto simp: put\<close>)
qed

section \<open>The two outcomes of a transaction\<close>

abbreviation sender_account :: "('db, 'p) storage_prims_scheme \<Rightarrow> signed_transaction \<Rightarrow> ('db, 'm) exec_state \<Rightarrow> account" where
  "sender_account P stx st \<equiv> load_account P (xs_db st) (xs_accounts st) (sender stx)"

definition admitted :: "('db, 'p) storage_prims_scheme \<Rightarrow> signed_transaction \<Rightarrow> ('db, 'm) exec_state \<Rightarrow> bool" where
  "admitted P stx st \<longleftrightarrow> tx_nonce (stx_transaction stx) = acc_nonce (sender_account P stx st) \<and>
     has_sufficient_balance (sender_account P stx st) (total_cost (stx_transaction stx))"

lemma exec_tx_skipped:
  "\<not> admitted P stx st \<Longrightarrow> \<exists>r s. exec_tx P W b (i, stx) st = st\<lparr>xs_receipts := xs_receipts st @ [r]\<rparr> \<and>
     rc_status r = Failure s \<and> rc_gas_used r = 0"
  by (auto simp: exec_tx_def Let_def admitted_def mk_receipt_def)

lemma exec_tx_admitted:
  assumes "admitted P stx st"
  obtains r g acc' st' where
    "exec_by_type P W b i stx
       (increment_nonce (sub_balance (sender_account P stx st) (max_gas_cost (stx_transaction stx)))) st = (r, g, acc', st')"
    "exec_tx P W b (i, stx) st = st'\<lparr>xs_total_gas := xs_total_gas st' + g,
       xs_accounts := hm_put (sender stx) acc' (xs_accounts st'), xs_receipts := xs_receipts st' @ [r]\<rparr>"
proof (cases "exec_by_type P W b i stx
    (increment_nonce (sub_balance (sender_account P stx st) (max_gas_cost (stx_transaction stx)))) st")
  case (fields r g acc' st')
  with assms that [OF fields] show thesis by (simp add: exec_tx_def Let_def admitted_def)
qed

section \<open>Accounts are stored under their own address\<close>

definition accounts_keyed :: "('db, 'p) storage_prims_scheme \<Rightarrow> 'db \<Rightarrow> bool" where
  "accounts_keyed P db \<longleftrightarrow> (\<forall>a acc. get_account P db a = Ok (Some acc) \<longrightarrow> acc_address acc = a)"

definition keyed :: "account_map \<Rightarrow> bool" where
  "keyed accs \<longleftrightarrow> hm_wf accs \<and> (\<forall>a acc. hm_get accs a = Some acc \<longrightarrow> acc_address acc = a)"

lemma keyed_Nil [simp]: "keyed []"
  by (simp add: keyed_def)

lemma keyed_put [intro]: "keyed accs \<Longrightarrow> acc_address acc = a \<Longrightarrow> keyed (hm_put a acc accs)"
  by (auto simp: keyed_def)

lemma balance_updates_address [simp]:
  "acc_address (add_balance acc v) = acc_address acc" "acc_address (sub_balance acc v) = acc_address acc"
  "acc_address (increment_nonce acc) = acc_address acc" "acc_address (apply_delta acc d) = acc_address acc"
  "acc_nonce (add_balance acc v) = acc_nonce acc" "acc_nonce (sub_balance acc v) = acc_nonce acc"
  "acc_nonce (apply_delta acc d) = acc_nonce acc"
  by (simp_all add: add_balance_def sub_balance_def increment_nonce_def apply_delta_def Let_def)

lemma load_account_address:
  assumes "accounts_keyed P db" "keyed accs"
  shows "acc_address (load_account P db accs a) = a"
proof (cases "hm_get accs a")
  case None
  with assms show ?thesis
    by (cases "flatten (ok (get_account P db a))"; cases "get_account P db a")
      (auto simp: load_account_def find_account_def accounts_keyed_def)
qed (use assms in \<open>simp add: load_account_def find_account_def keyed_def\<close>)

lemma apply_balance_changes_Nil [simp]: "apply_balance_changes P db [] accs = accs"
  by (simp add: apply_balance_changes_def)

lemma apply_balance_changes_Cons [simp]:
  "apply_balance_changes P db ((a, d) # chs) accs =
     apply_balance_changes P db chs (hm_put a (apply_delta (load_account P db accs a) d) accs)"
  by (simp add: apply_balance_changes_def)

lemma apply_balance_changes_keyed:
  "accounts_keyed P db \<Longrightarrow> keyed accs \<Longrightarrow> keyed (apply_balance_changes P db chs accs)"
  by (induction chs arbitrary: accs) (auto simp: load_account_address keyed_put)

lemma accounts_keyed_frame: "cf_frame P exec_cfs db db' \<Longrightarrow> accounts_keyed P db \<Longrightarrow> accounts_keyed P db'"
  using cf_frame_reads(1) [of P exec_cfs db db'] by (simp add: accounts_keyed_def del: insert_iff)

lemma exec_by_type_keyed:
  assumes "rocks_ok P" "exec_by_type P W b i stx acc st = (r, g, acc', st')" "accounts_keyed P (xs_db st)"
    "keyed (xs_accounts st)"
  shows "acc_address acc' = acc_address acc" "keyed (xs_accounts st')"
proof -
  note chs = accounts_keyed_frame [OF apply_storage_changes_frame [OF assms(1)]]
  note code = accounts_keyed_frame [OF save_code_frame [OF assms(1)]]
  show "acc_address acc' = acc_address acc" "keyed (xs_accounts st')"
    using assms(2-)
    by (auto simp: exec_by_type_def exec_transfer_def exec_deploy_def exec_call_def exec_stake_def
        exec_unstake_def Let_def load_account_address account_new_contract_def
        intro!: apply_balance_changes_keyed keyed_put chs code
        split: tx_type.splits prod.splits sum.splits option.splits if_splits)
qed

lemma exec_tx_keyed:
  assumes "rocks_ok P" "accounts_keyed P (xs_db st)" "keyed (xs_accounts st)"
  shows "keyed (xs_accounts (exec_tx P W b (i, stx) st))"
proof (cases "admitted P stx st")
  case False
  then show ?thesis using exec_tx_skipped [OF False] assms(3) by (metis exec_state.select_convs(4)
      exec_state.surjective exec_state.update_convs(5))
next
  case True
  then show ?thesis
  proof (rule exec_tx_admitted [where W = W and b = b and i = i])
    fix r g acc' st'
    assume run: "exec_by_type P W b i stx
       (increment_nonce (sub_balance (sender_account P stx st) (max_gas_cost (stx_transaction stx)))) st = (r, g, acc', st')"
      and eq: "exec_tx P W b (i, stx) st = st'\<lparr>xs_total_gas := xs_total_gas st' + g,
       xs_accounts := hm_put (sender stx) acc' (xs_accounts st'), xs_receipts := xs_receipts st' @ [r]\<rparr>"
    from exec_by_type_keyed [OF assms(1) run assms(2,3)] show ?thesis
      by (simp add: eq keyed_put load_account_address [OF assms(2,3)])
  qed
qed

lemma exec_fold_keyed:
  assumes "rocks_ok P" "accounts_keyed P (xs_db st)" "keyed (xs_accounts st)"
  shows "keyed (xs_accounts (fold (exec_tx P W b) itxs st))"
  using assms(2-)
  by (induction itxs arbitrary: st)
    (auto intro: exec_tx_keyed assms(1) accounts_keyed_frame [OF exec_tx_frame [OF assms(1)]])

lemma commit_block_view:
  assumes "storage_ok P" "commit_block P b st = Ok db'" "keyed (xs_accounts st)"
  shows "get_account P db' a = (case hm_get (xs_accounts st) a of
    Some acc \<Rightarrow> Ok (Some acc) | None \<Rightarrow> get_account P (xs_db st) a)"
proof -
  have "find (\<lambda>acc. acc_address acc = a) (rev (map snd (xs_accounts st))) = hm_get (xs_accounts st) a"
    using assms(3) by (intro find_map_snd) (auto simp: keyed_def hm_get_in_set)
  then show ?thesis using commit_block_accounts(1) [OF assms(1,2)] by simp
qed

lemma commit_block_keyed:
  assumes "storage_ok P" "commit_block P b st = Ok db'" "keyed (xs_accounts st)" "accounts_keyed P (xs_db st)"
  shows "accounts_keyed P db'"
  using assms(3,4) commit_block_view [OF assms(1-3)]
  by (auto simp: accounts_keyed_def keyed_def split: option.splits)

end
