(* ===== verification/Chain_Correct.thy ===== *)
theory Chain_Correct
  imports Chain_State
begin

text \<open>
  The correctness of the chain state: the stored chain is linked and survives restarts,
  committed accounts and receipts are the ones computed, and transactions are not replayed.
  The relation \<open>chain_reachable\<close> has the states a node can get into, failed blocks and restarts
  included.
\<close>

section \<open>The chain in the database\<close>

text \<open>
  The states a node can reach: the state made from the genesis configuration on an empty
  database, and what applying blocks (with any result), advancing the epoch and restarting
  on the stored database make of it. Block numbers stay below the largest \<open>u64\<close>.
\<close>

inductive chain_reachable :: "('db, 'p) storage_prims_scheme \<Rightarrow> ('m, 'i) wasmtime \<Rightarrow> genesis_config \<Rightarrow>
    'db chain_state \<Rightarrow> 'm wasm_engine \<Rightarrow> bool" for P W g where
  start: "get_genesis_hash P db = Ok None \<Longrightarrow> (\<And>a. get_account P db a = Ok None) \<Longrightarrow>
    from_genesis P g db = Some (Ok s) \<Longrightarrow> chain_reachable P W g s E"
| block: "chain_reachable P W g s E \<Longrightarrow> cs_height s \<noteq> - 1 \<Longrightarrow>
    apply_block P W s b E = (r, s', E') \<Longrightarrow> chain_reachable P W g s' E'"
| epoch: "chain_reachable P W g s E \<Longrightarrow> maybe_advance_epoch P now s cp = (r, s') \<Longrightarrow>
    chain_reachable P W g s' E"
| restart: "chain_reachable P W g s E \<Longrightarrow> from_genesis P g (cs_storage s) = Some (Ok s') \<Longrightarrow>
    chain_reachable P W g s' E'"

definition linked :: "('db, 'p) storage_prims_scheme \<Rightarrow> 'db \<Rightarrow> block_number \<Rightarrow> bool" where
  "linked P db n \<longleftrightarrow> (\<exists>b b'. get_block_by_number P db n = Ok (Some b) \<and> bh_number (bk_header b) = n \<and>
     get_block_by_number P db (n + 1) = Ok (Some b') \<and> bh_parent_hash (bk_header b') = block_hash P b)"

definition chain_inv :: "('db, 'p) storage_prims_scheme \<Rightarrow> genesis_config \<Rightarrow> 'db chain_state \<Rightarrow> bool" where
  "chain_inv P g s \<longleftrightarrow>
     get_chain_height P (cs_storage s) = Ok (Some (cs_height s)) \<and>
     get_block_by_number P (cs_storage s) (cs_height s) = Ok (Some (cs_head s)) \<and>
     bh_number (bk_header (cs_head s)) = cs_height s \<and>
     get_genesis_hash P (cs_storage s) = Ok (Some (block_hash P (the (to_genesis_block g)))) \<and>
     get_block_by_number P (cs_storage s) 0 = Ok (to_genesis_block g) \<and>
     accounts_keyed P (cs_storage s) \<and>
     (\<forall>n < cs_height s. linked P (cs_storage s) n)"

lemma chain_inv_frame:
  assumes "chain_inv P g s" "cf_frame P cfs (cs_storage s) (cs_storage s')" "ACCOUNTS \<notin> cfs" "BLOCKS \<notin> cfs" "META \<notin> cfs"
    "cs_head s' = cs_head s" "cs_height s' = cs_height s"
  shows "chain_inv P g s'"
  using assms cf_frame_reads [OF assms(2)] by (simp add: chain_inv_def linked_def accounts_keyed_def)

lemma cf_frame_put_all:
  assumes "\<And>db v db'. put db v = Ok db' \<Longrightarrow> cf_frame P cfs db db'" "put_all put db vs = Ok db'"
  shows "cf_frame P cfs db db'"
  using assms(2)
  by (induction vs arbitrary: db) (auto simp: result_simps dest!: assms(1) intro: cf_frame_trans)

lemma put_account_frame: "rocks_ok P \<Longrightarrow> put_account P db acc = Ok db' \<Longrightarrow> cf_frame P {ACCOUNTS} db db'"
  by (auto simp: put_account_def intro: cf_frame_put_typed)

lemma put_validator_frame: "rocks_ok P \<Longrightarrow> put_validator P db v = Ok db' \<Longrightarrow> cf_frame P {VALIDATORS} db db'"
  by (auto simp: put_validator_def intro: cf_frame_put_typed)

lemma put_epoch_frame: "rocks_ok P \<Longrightarrow> put_epoch P db e = Ok db' \<Longrightarrow> cf_frame P {EPOCHS} db db'"
  by (auto simp: put_epoch_def intro: cf_frame_put_typed)

lemma put_block_stored:
  assumes "storage_ok P" "put_block P db b = Ok db'"
  shows "get_block_by_number P db' (bh_number (bk_header b)) = Ok (Some b)"
    "cf_frame P {BLOCKS, BLOCK_HASHES} db db'"
proof -
  obtain bs where bs: "ser (bin_block P) b = Ok bs" "rdb_cf_handle P db BLOCKS"
      "write_batch P db ([((BLOCKS, encode_block_number (bh_number (bk_header b))), bs)] @
      [((BLOCK_HASHES, to_be_bytes (block_hash P b)), encode_block_number (bh_number (bk_header b)))]) = Ok db'"
    using put_block_ops [OF assms(2)] by blast
  note w = write_batch_Ok [OF storage_okD(1) [OF assms(1)] bs(3)]
  have "BLOCKS \<noteq> BLOCK_HASHES" by (simp add: cf_defs)
  then show "get_block_by_number P db' (bh_number (bk_header b)) = Ok (Some b)"
    using storage_okD(2) [OF assms(1)] bs(1,2) w(2) by (auto simp: get_block_by_number_def get_typed_def serde_ok_def)
  show "cf_frame P {BLOCKS, BLOCK_HASHES} db db'"
    using w by (auto simp: cf_frame_def get_cf_def)
qed

lemma init_genesis_inv:
  assumes "storage_ok P" "to_genesis_block g = Some gb" "init_genesis P g gb db = Ok s"
    "\<And>a. get_account P db a = Ok None"
  shows "chain_inv P g s"
proof -
  note rocks = storage_okD(1) [OF assms(1)]
  let ?accs = "map (\<lambda>a. account_new (ga_address a) (ga_balance a)) (gc_initial_accounts g)"
  obtain db1 db2 db3 db4 db5 ep where d: "put_block P db gb = Ok db1" "set_chain_height P db1 0 = Ok db2"
    "set_genesis_hash P db2 (block_hash P gb) = Ok db3" "put_all (put_account P) db3 ?accs = Ok db4"
    "put_all (put_validator P) db4 (to_validator_infos g) = Ok db5" "put_epoch P db5 ep = Ok (cs_storage s)"
    "cs_head s = gb" "cs_height s = 0"
    using assms(3) by (auto simp: init_genesis_def Let_def result_simps)
  have gb: "bh_number (bk_header gb) = 0"
    using assms(2) by (auto simp: to_genesis_block_def block_genesis_def split: list.splits)
  have f1: "cf_frame P {META} db1 db2"
    using d(2) by (auto simp: set_chain_height_def intro: cf_frame_put_typed rocks)
  have f2: "cf_frame P {META} db2 db3"
    using d(3) by (auto simp: set_genesis_hash_def intro: cf_frame_put rocks)
  have f3: "cf_frame P {ACCOUNTS} db3 db4"
    by (rule cf_frame_put_all [OF put_account_frame [OF rocks] d(4)])
  have f4: "cf_frame P {VALIDATORS} db4 db5"
    by (rule cf_frame_put_all [OF put_validator_frame [OF rocks] d(5)])
  have f5: "cf_frame P {EPOCHS} db5 (cs_storage s)" by (rule put_epoch_frame [OF rocks d(6)])
  note frames = cf_frame_reads [OF f5] cf_frame_reads [OF f4] cf_frame_reads [OF f3]
  note cf = cf_defs
  have "get_chain_height P db3 = get_chain_height P db2"
    using d(3) put_cf_Ok(3) [OF rocks] by (auto simp: set_genesis_hash_def get_chain_height_def get_typed_def)
  then have height: "get_chain_height P db3 = Ok (Some 0)" using get_set_chain_height [OF assms(1) d(2)] by simp
  have "get_account P db3 a = Ok None" for a
    using assms(4) cf_frame_reads(1) [OF put_block_stored(2) [OF assms(1) d(1)]] cf_frame_reads(1) [OF f1]
      cf_frame_reads(1) [OF f2] by (simp add: cf)
  then have "accounts_keyed P db4"
    using account_tbl.get_put_all [OF assms(1) d(4)]
    by (auto simp: accounts_keyed_def split: option.splits dest!: find_SomeD)
  then have keyed: "accounts_keyed P (cs_storage s)" by (simp add: accounts_keyed_def frames cf)
  have "get_block_by_number P db3 0 = Ok (Some gb)"
    using put_block_stored(1) [OF assms(1) d(1)] cf_frame_reads(2) [OF f1] cf_frame_reads(2) [OF f2]
    by (simp add: gb cf)
  then show ?thesis
    using height get_set_genesis_hash [OF assms(1) d(3)] d(7,8) gb assms(2) keyed
    by (simp add: chain_inv_def frames cf)
qed
lemma less_plus_one: "(w :: 'a::len word) \<noteq> - 1 \<Longrightarrow> w < w + 1"
  by (metis add.commute add_eq_0_iff unatSuc lessI word_less_nat_alt)

lemma apply_block_cases:
  assumes "apply_block P W s b E = (r, s', E')"
  obtains (rejected) e where "r = Err e" "s' = s" "E' = E"
    "bh_parent_hash (bk_header b) \<noteq> block_hash P (cs_head s) \<or> bh_number (bk_header b) \<noteq> cs_height s + 1"
  | (uncommitted) st e where "st = exec_txs P W b (exec_init s E)" "commit_block P b st = Err e"
    "r = Err (ConsStorage e)" "s' = s\<lparr>cs_current_epoch := xs_epoch st, cs_storage := xs_db st\<rparr>"
  | (applied) st db where "st = exec_txs P W b (exec_init s E)" "commit_block P b st = Ok db"
    "r = Ok (xs_receipts st)" "bh_parent_hash (bk_header b) = block_hash P (cs_head s)"
    "bh_number (bk_header b) = cs_height s + 1"
    "s' = s\<lparr>cs_current_epoch := xs_epoch st, cs_storage := db, cs_head := b, cs_height := bh_number (bk_header b)\<rparr>"
  using assms by (fastforce simp: apply_block_def Let_def split: if_splits sum.splits)

lemma exec_block_keyed:
  assumes "rocks_ok P" "accounts_keyed P (cs_storage s)"
  shows "keyed (xs_accounts (exec_txs P W b (exec_init s E)))"
    "accounts_keyed P (xs_db (exec_txs P W b (exec_init s E)))"
    "cf_frame P exec_cfs (cs_storage s) (xs_db (exec_txs P W b (exec_init s E)))"
proof -
  show frame: "cf_frame P exec_cfs (cs_storage s) (xs_db (exec_txs P W b (exec_init s E)))"
    using exec_txs_frame [OF assms(1), of "exec_init s E" W b] by (simp add: exec_init_def)
  show "accounts_keyed P (xs_db (exec_txs P W b (exec_init s E)))"
    by (rule accounts_keyed_frame [OF frame assms(2)])
  show "keyed (xs_accounts (exec_txs P W b (exec_init s E)))"
    unfolding exec_txs_def using assms by (intro exec_fold_keyed) (simp_all add: exec_init_def)
qed

lemma commit_extends_chain:
  assumes "storage_ok P" "chain_inv P g s" "cs_height s \<noteq> - 1" "st = exec_txs P W b (exec_init s E)"
    "commit_block P b st = Ok db" "bh_parent_hash (bk_header b) = block_hash P (cs_head s)"
    "bh_number (bk_header b) = cs_height s + 1"
  shows "chain_inv P g (s\<lparr>cs_current_epoch := ep, cs_storage := db, cs_head := b, cs_height := bh_number (bk_header b)\<rparr>)"
proof -
  note rocks = storage_okD(1) [OF assms(1)]
  have keyed: "accounts_keyed P (cs_storage s)" using assms(2) by (simp add: chain_inv_def)
  note ex = exec_block_keyed [OF rocks keyed, of W b E, folded assms(4)]
  note reads = cf_frame_reads [OF ex(3)]
  have block: "get_block_by_number P db n =
      (if n = cs_height s + 1 then Ok (Some b) else get_block_by_number P (cs_storage s) n)" for n
    using commit_block_chain(1) [OF assms(1,5)] reads(2) assms(7) by (simp del: insert_iff)
  have le: "cs_height s < cs_height s + 1"
    using assms(3) by (rule less_plus_one)
  have "linked P db n" if n: "n < cs_height s + 1" for n
  proof (cases "n = cs_height s")
    case True
    then show ?thesis
      using assms(2,6) le by (simp add: linked_def block chain_inv_def)
  next
    case False
    with n le have less: "n < cs_height s" by (metis antisym_conv3 inc_le leD)
    then have "n + 1 \<le> cs_height s" by (rule inc_le)
    with less le have ne: "n \<noteq> cs_height s + 1" "n + 1 \<noteq> cs_height s + 1" by auto
    have "linked P (cs_storage s) n" using assms(2) less by (simp add: chain_inv_def)
    with ne show ?thesis by (simp add: linked_def block)
  qed
  moreover have "0 \<noteq> cs_height s + 1" using le by auto
  ultimately show ?thesis
    using assms(2,7) commit_block_chain(3,4) [OF assms(1,5)] reads(4) commit_block_keyed [OF assms(1,5) ex(1,2)]
    by (simp add: chain_inv_def block del: insert_iff)
qed

lemma from_genesis_restart:
  assumes "chain_inv P g s" "from_genesis P g (cs_storage s) = Some (Ok s')"
  shows "cs_storage s' = cs_storage s \<and> cs_head s' = cs_head s \<and> cs_height s' = cs_height s"
  using assms
  by (auto simp: chain_inv_def from_genesis_def load_existing_def Let_def split: sum.splits option.splits if_splits)

lemma apply_block_inv:
  assumes "storage_ok P" "chain_inv P g s" "cs_height s \<noteq> - 1" "apply_block P W s b E = (r, s', E')"
  shows "chain_inv P g s'"
  using assms(4)
proof (cases rule: apply_block_cases)
  case (uncommitted st e)
  have "accounts_keyed P (cs_storage s)" using assms(2) by (simp add: chain_inv_def)
  from exec_block_keyed(3) [OF storage_okD(1) [OF assms(1)] this, of W b E] uncommitted show ?thesis
    using chain_inv_frame [OF assms(2), of exec_cfs s'] by (simp del: insert_iff)
next
  case (applied st db)
  then show ?thesis using commit_extends_chain [OF assms(1-3)] by metis
qed (use assms(2) in simp)

lemma maybe_advance_epoch_inv:
  assumes "storage_ok P" "chain_inv P g s" "maybe_advance_epoch P now s cp = (r, s')"
  shows "chain_inv P g s'"
proof -
  from assms(3) consider "s' = s" | db ep where "put_epoch P (cs_storage s) ep = Ok db"
      "s' = s\<lparr>cs_storage := db, cs_current_epoch := ep\<rparr>"
    by (fastforce simp: maybe_advance_epoch_def Let_def split: if_splits sum.splits)
  then show ?thesis
    by cases (use assms(2) in \<open>auto intro!: chain_inv_frame [OF assms(2), of "{EPOCHS}"]
      put_epoch_frame [OF storage_okD(1) [OF assms(1)]] simp: cf_defs\<close>)
qed

lemma from_genesis_inv:
  assumes "storage_ok P" "get_genesis_hash P db = Ok None" "\<And>a. get_account P db a = Ok None"
    "from_genesis P g db = Some (Ok s)"
  shows "chain_inv P g s"
  using assms(2-)
  by (auto simp: from_genesis_def split: sum.splits option.splits if_splits intro: init_genesis_inv [OF assms(1)])

lemma chain_reachable_inv:
  assumes "storage_ok P" "chain_reachable P W g s E"
  shows "chain_inv P g s"
  using assms(2)
proof induction
  case (start db s E)
  then show ?case by (rule from_genesis_inv [OF assms(1)])
next
  case (block s E b r s' E')
  then show ?case using apply_block_inv [OF assms(1)] by blast
next
  case (epoch s E now cp r s')
  then show ?case using maybe_advance_epoch_inv [OF assms(1)] by blast
next
  case (restart s E s' E')
  then show ?case
    using from_genesis_restart [OF restart.IH restart.hyps(2)]
    by (auto intro!: chain_inv_frame [OF restart.IH, of "{}"])
qed

lemma chain_reachable_valid: "chain_reachable P W g s E \<Longrightarrow> genesis_validate P g = Ok () \<and> to_genesis_block g \<noteq> None"
  by (induction rule: chain_reachable.induct) (auto simp: from_genesis_def split: sum.splits option.splits)

text \<open>A restart on the stored database: it succeeds, unless epochs have length 0.\<close>

lemma restart_result:
  assumes "chain_inv P g s" "genesis_validate P g = Ok ()" "to_genesis_block g \<noteq> None"
  shows "if cp_epoch_length (gc_consensus_params g) = 0 then from_genesis P g (cs_storage s) = None
    else \<exists>s'. from_genesis P g (cs_storage s) = Some (Ok s') \<and> cs_storage s' = cs_storage s \<and>
      cs_head s' = cs_head s \<and> cs_height s' = cs_height s"
  using assms by (auto simp: chain_inv_def from_genesis_def load_existing_def Let_def)

text \<open>
  C1 (the stored chain). In every state a node can reach, also after failed blocks and
  restarts, the database records the height and the head of the state, and holds a block under
  every number up to the height, each linked to its predecessor by the parent hash and the
  first being the genesis block. Loading the state from the database again succeeds and gives the
  same head and height; only a genesis with epochs of length 0 makes it panic.
\<close>

theorem stored_chain_linked:
  assumes "storage_ok P" "chain_reachable P W g s E"
  shows "get_chain_height P (cs_storage s) = Ok (Some (cs_height s)) \<and>
    get_latest_block P (cs_storage s) = Ok (Some (cs_head s)) \<and>
    get_block_by_number P (cs_storage s) 0 = Ok (to_genesis_block g) \<and>
    (\<forall>n < cs_height s. \<exists>b b'. get_block_by_number P (cs_storage s) n = Ok (Some b) \<and>
      get_block_by_number P (cs_storage s) (n + 1) = Ok (Some b') \<and>
      bh_number (bk_header b) = n \<and> bh_parent_hash (bk_header b') = block_hash P b) \<and>
    (if cp_epoch_length (gc_consensus_params g) = 0 then from_genesis P g (cs_storage s) = None
     else \<exists>s'. from_genesis P g (cs_storage s) = Some (Ok s') \<and> cs_storage s' = cs_storage s \<and>
       cs_head s' = cs_head s \<and> cs_height s' = cs_height s)"
proof -
  have inv: "chain_inv P g s" by (rule chain_reachable_inv [OF assms])
  then have "\<forall>n < cs_height s. \<exists>b b'. get_block_by_number P (cs_storage s) n = Ok (Some b) \<and>
      get_block_by_number P (cs_storage s) (n + 1) = Ok (Some b') \<and>
      bh_number (bk_header b) = n \<and> bh_parent_hash (bk_header b') = block_hash P b"
    unfolding chain_inv_def linked_def by blast
  moreover have "get_chain_height P (cs_storage s) = Ok (Some (cs_height s))"
    "get_block_by_number P (cs_storage s) (cs_height s) = Ok (Some (cs_head s))"
    "get_block_by_number P (cs_storage s) 0 = Ok (to_genesis_block g)"
    using inv unfolding chain_inv_def by blast+
  moreover from this(1,2) have "get_latest_block P (cs_storage s) = Ok (Some (cs_head s))"
    by (simp add: get_latest_block_def)
  moreover note restart_result [OF inv] chain_reachable_valid [OF assms(2)]
  ultimately show ?thesis by blast
qed

section \<open>An example chain\<close>

definition example_genesis :: genesis_config where
  "example_genesis = \<lparr>gc_chain_id = 1, gc_chain_name = ''t'', gc_timestamp = 1000,
     gc_initial_validators = [\<lparr>gv_address = 1, gv_public_key = 1, gv_stake = 100\<rparr>],
     gc_initial_accounts = [\<lparr>ga_address = 1, ga_balance = 1000\<rparr>],
     gc_consensus_params = consensus_params_default\<lparr>cp_min_stake := 10, cp_epoch_length := 5\<rparr>, gc_gas_limit = 100\<rparr>"

definition example_block0 :: block where
  "example_block0 = the (to_genesis_block example_genesis)"

definition example_block1 :: block where
  "example_block1 = \<lparr>bk_header = (bk_header example_block0)\<lparr>bh_number := 1,
     bh_parent_hash := block_hash example_block_prims example_block0\<rparr>, bk_transactions = []\<rparr>"

definition example_chain_prims :: "mem_db storage_prims" where
  "example_chain_prims = mem_prims [example_block0, example_block1] [] [] [] [account_new 1 1000]
     [validator_info_new 1 1 100] [epoch_of example_genesis 0 0 4]"

lemma example_chain_ok: "storage_ok example_chain_prims"
  unfolding example_chain_prims_def by (rule mem_prims_ok) simp_all

lemma enum_ser_mem: "x \<in> set xs \<Longrightarrow> \<exists>bs. ser (enum_serde xs) x = Ok bs"
proof -
  assume "x \<in> set xs"
  then obtain i where "i < length xs" "xs ! i = x" by (auto simp: in_set_conv_nth)
  then have "find (\<lambda>i. xs ! i = x) [0..<length xs] \<noteq> None" by (auto simp: find_None_iff)
  then show ?thesis by (auto simp: enum_serde_def)
qed

lemma put_typed_mem:
  "x \<in> set xs \<Longrightarrow> cf \<in> set cf_ALL \<Longrightarrow> \<exists>db'. put_typed (mem_prims bs txs is rs accs vs es) (enum_serde xs) db cf k x = Ok db'"
  using enum_ser_mem [of x xs] by (auto simp: put_typed_def put_cf_def)

lemma put_typed_word_mem:
  "cf \<in> set cf_ALL \<Longrightarrow> \<exists>db'. put_typed (mem_prims bs txs is rs accs vs es) word_serde db cf k x = Ok db'"
  by (auto simp: put_typed_def put_cf_def word_serde_def)

lemma block_hash_mem: "block_hash (mem_prims bs txs is rs accs vs es) b = block_hash example_block_prims b"
  by (simp add: block_hash_def header_hash_def hash_def mem_prims_def block_prims.defs)

lemma put_block_mem: "b \<in> set bs \<Longrightarrow> \<exists>db'. put_block (mem_prims bs txs is rs accs vs es) db b = Ok db'"
  using enum_ser_mem [of b bs] by (auto simp: put_block_def Let_def cf_handle_def write_batch_def)

lemma batch_loop_mem:
  "set vs \<subseteq> set xs \<Longrightarrow> \<exists>ops'. batch_loop (enum_serde xs) cf key vs ops = Ok ops'"
proof (induction vs arbitrary: ops)
  case (Cons v vs)
  then obtain bs where "ser (enum_serde xs) v = Ok bs" using enum_ser_mem [of v xs] by auto
  with Cons show ?case by simp
qed simp

lemma batch_tx_loop_mem:
  assumes "bin_transaction P = enum_serde ts" "bin_index P = enum_serde is"
  shows "set txs \<subseteq> set ts \<Longrightarrow> (\<forall>j < length txs. (n, of_nat (i + j)) \<in> set is) \<Longrightarrow>
    \<exists>ops'. batch_tx_loop P n i txs ops = Ok ops'"
proof (induction txs arbitrary: i ops)
  case (Cons t txs)
  obtain bt where bt: "ser (enum_serde ts) t = Ok bt" using enum_ser_mem [of t ts] Cons.prems(1) by auto
  have "(n, of_nat i) \<in> set is" using Cons.prems(2) [rule_format, of 0] by simp
  then have "\<exists>bi. ser (enum_serde is) (n, of_nat i) = Ok bi" by (rule enum_ser_mem)
  then obtain bi where bi: "ser (enum_serde is) (n, of_nat i) = Ok bi" ..
  have "\<forall>j < length txs. (n, of_nat (Suc i + j)) \<in> set is"
  proof (intro allI impI)
    fix j assume "j < length txs"
    then show "(n, of_nat (Suc i + j)) \<in> set is" using Cons.prems(2) [rule_format, of "Suc j"] by simp
  qed
  from Cons.IH [OF _ this] Cons.prems(1) bt bi show ?case by (simp add: assms)
qed simp

lemma commit_block_mem:
  assumes "b \<in> set bs" "set (bk_transactions b) \<subseteq> set ts"
    "\<forall>j < length (bk_transactions b). (bh_number (bk_header b), of_nat j) \<in> set is"
    "set (xs_receipts st) \<subseteq> set rs" "snd ` set (xs_accounts st) \<subseteq> set accs"
  shows "\<exists>db. commit_block (mem_prims bs ts is rs accs vs es) b st = Ok db"
proof -
  let ?P = "mem_prims bs ts is rs accs vs es" and ?db = "xs_db st"
  obtain bb where "ser (enum_serde bs) b = Ok bb" using enum_ser_mem [OF assms(1)] by blast
  then obtain b1 where 1: "batch_put_block ?P ?db b [] = Ok b1"
    by (simp add: batch_put_block_def cf_handle_def Let_def)
  obtain b2 where 2: "batch_put_transactions ?P ?db (bk_transactions b) (bh_number (bk_header b)) b1 = Ok b2"
    using batch_tx_loop_mem [of ?P ts "is" "bk_transactions b" "bh_number (bk_header b)" 0 b1] assms(2,3)
    by (auto simp: batch_put_transactions_def cf_handle_def)
  obtain b3 where "batch_loop (enum_serde rs) RECEIPTS (\<lambda>r. to_be_bytes (rc_tx_hash r)) (xs_receipts st) b2 = Ok b3"
    using batch_loop_mem [OF assms(4)] by blast
  then have 3: "batch_put_receipts ?P ?db (xs_receipts st) b2 = Ok b3" by (simp add: batch_put_receipts_def cf_handle_def)
  have "set (map snd (xs_accounts st)) \<subseteq> set accs" using assms(5) by simp
  then obtain b4 where "batch_loop (enum_serde accs) ACCOUNTS (\<lambda>a. to_be_bytes (acc_address a)) (map snd (xs_accounts st)) b3 = Ok b4"
    using batch_loop_mem by blast
  then have 4: "batch_update_accounts ?P ?db (map snd (xs_accounts st)) b3 = Ok b4"
    by (simp add: batch_update_accounts_def cf_handle_def)
  from 1 2 3 4 show ?thesis
    by (simp add: commit_block_def Let_def batch_set_chain_height_def batch_set_best_block_hash_def batch_commit_def
        cf_handle_def word_serde_def write_batch_def)
qed

lemma example_init: "\<exists>s. init_genesis example_chain_prims example_genesis example_block0 Map.empty = Ok s \<and>
    cs_head s = example_block0 \<and> cs_height s = 0"
proof -
  let ?P = example_chain_prims
  note P = example_chain_prims_def
  obtain db1 where 1: "put_block ?P Map.empty example_block0 = Ok db1"
    using put_block_mem [of example_block0] unfolding P by fastforce
  obtain db2 where 2: "set_chain_height ?P db1 0 = Ok db2"
    using put_typed_word_mem [of META] unfolding P set_chain_height_def by fastforce
  obtain db3 where 3: "set_genesis_hash ?P db2 (block_hash ?P example_block0) = Ok db3"
    unfolding P by (simp add: set_genesis_hash_def put_cf_def)
  obtain db4 where 4: "put_account ?P db3 (account_new 1 1000) = Ok db4"
    using put_typed_mem [of "account_new 1 1000" "[account_new 1 1000]" ACCOUNTS] unfolding P put_account_def by fastforce
  obtain db5 where 5: "put_validator ?P db4 (validator_info_new 1 1 100) = Ok db5"
    using put_typed_mem [of "validator_info_new 1 1 100" "[validator_info_new 1 1 100]" VALIDATORS]
    unfolding P put_validator_def by fastforce
  obtain db6 where 6: "put_epoch ?P db5 (epoch_of example_genesis 0 0 4) = Ok db6"
    using put_typed_mem [of "epoch_of example_genesis 0 0 4" "[epoch_of example_genesis 0 0 4]" EPOCHS]
    unfolding P put_epoch_def by fastforce
  have "cp_epoch_length (gc_consensus_params example_genesis) - 1 = 4"
    "map (\<lambda>a. account_new (ga_address a) (ga_balance a)) (gc_initial_accounts example_genesis) = [account_new 1 1000]"
    "to_validator_infos example_genesis = [validator_info_new 1 1 100]"
    by (simp_all add: example_genesis_def to_validator_infos_def)
  with 1 2 3 4 5 6 show ?thesis by (simp add: init_genesis_def Let_def)
qed

lemma example_start: "\<exists>s. from_genesis example_chain_prims example_genesis Map.empty = Some (Ok s) \<and>
    cs_head s = example_block0 \<and> cs_height s = 0"
proof -
  have "to_genesis_block example_genesis = Some example_block0"
    by (simp add: example_block0_def to_genesis_block_def example_genesis_def)
  moreover have "genesis_validate example_chain_prims example_genesis = Ok ()"
    by (simp add: genesis_validate_iff example_genesis_def consensus_params_default_def)
  moreover have "get_genesis_hash example_chain_prims Map.empty = Ok None"
    by (simp add: get_genesis_hash_def get_cf_def example_chain_prims_def)
  ultimately show ?thesis using example_init by (auto simp: from_genesis_def)
qed

lemma bk_transactions_example_block1: "bk_transactions example_block1 = []"
  by (simp add: example_block1_def)

lemma example_step:
  assumes "cs_head s = example_block0" "cs_height s = 0"
  shows "\<exists>s'. apply_block example_chain_prims W s example_block1 E = (Ok [], s', E) \<and>
    cs_head s' = example_block1 \<and> cs_height s' = 1"
proof -
  let ?P = example_chain_prims
  have "exec_txs ?P W example_block1 (exec_init s E) = exec_init s E"
    by (simp add: exec_txs_def example_block1_def)
  moreover obtain db where "commit_block ?P example_block1 (exec_init s E) = Ok db"
    using commit_block_mem [of example_block1 "[example_block0, example_block1]" "[]" "[]" "exec_init s E" "[]" "[account_new 1 1000]"
      "[validator_info_new 1 1 100]" "[epoch_of example_genesis 0 0 4]"]
    by (auto simp: exec_init_def example_chain_prims_def bk_transactions_example_block1)
  moreover have "bh_parent_hash (bk_header example_block1) = block_hash ?P (cs_head s)"
    by (simp add: example_block1_def assms example_chain_prims_def block_hash_mem)
  moreover have "bh_number (bk_header example_block1) = cs_height s + 1"
    by (simp add: example_block1_def assms)
  ultimately show ?thesis
    by (simp add: apply_block_def Let_def exec_init_def assms)
qed

theorem stored_chain_linked_witness:
  "\<exists>s :: mem_db chain_state. get_chain_height example_chain_prims (cs_storage s) = Ok (Some 1) \<and>
     get_latest_block example_chain_prims (cs_storage s) = Ok (Some example_block1) \<and>
     get_block_by_number example_chain_prims (cs_storage s) 0 = Ok (Some example_block0)"
proof -
  let ?P = example_chain_prims and ?E = "wasm_engine_new vm_config_default"
  obtain s where s: "from_genesis ?P example_genesis Map.empty = Some (Ok s)" "cs_head s = example_block0" "cs_height s = 0"
    using example_start by blast
  obtain s' where s': "apply_block ?P sending_module s example_block1 ?E = (Ok [], s', ?E)"
      "cs_head s' = example_block1" "cs_height s' = 1"
    using example_step [OF s(2,3)] by blast
  have "chain_reachable ?P sending_module example_genesis s ?E"
    using s(1) by (rule chain_reachable.start [rotated 2])
      (simp_all add: get_genesis_hash_def get_account_def get_typed_def get_cf_def example_chain_prims_def)
  then have "chain_reachable ?P sending_module example_genesis s' ?E"
    by (rule chain_reachable.block [OF _ _ s'(1)]) (simp add: s(3))
  moreover have "to_genesis_block example_genesis = Some example_block0"
    by (simp add: example_block0_def to_genesis_block_def example_genesis_def)
  ultimately show ?thesis
    using stored_chain_linked [OF example_chain_ok, of sending_module example_genesis s' ?E] s'(2,3) by auto
qed

section \<open>What a committed block leaves behind\<close>

lemma find_distinct_key:
  "distinct (map key xs) \<Longrightarrow> i < length xs \<Longrightarrow> find (\<lambda>x. key x = key (xs ! i)) (rev xs) = Some (xs ! i)"
proof -
  assume d: "distinct (map key xs)" and i: "i < length xs"
  have "find (\<lambda>x. key x = key (xs ! i)) (rev xs) \<noteq> None"
    using nth_mem [OF i] by (auto simp: find_None_iff)
  then obtain y where y: "find (\<lambda>x. key x = key (xs ! i)) (rev xs) = Some y" by blast
  then have "y \<in> set xs" "key y = key (xs ! i)" by (auto dest: find_SomeD)
  then have "y = xs ! i" using d i by (metis distinct_map inj_onD nth_mem)
  with y show ?thesis by simp
qed

lemma exec_block_receipts:
  assumes "rocks_ok P"
  shows "list_all2 (\<lambda>r (i, stx). rc_tx_hash r = stx_hash stx \<and> rc_index r = of_nat i \<and>
      rc_block_number r = bh_number (bk_header b) \<and> rc_block_hash r = block_hash P b)
    (xs_receipts (exec_txs P W b (exec_init s E))) (enumerate 0 (bk_transactions b))"
  using exec_fold_receipts [OF assms, of W b 0 "bk_transactions b" "exec_init s E"]
  by (auto simp: exec_txs_def exec_init_def)

text \<open>
  C22 (committing a block). When a block is applied, its receipts answer its transactions one by
  one, with their hash, position and block; afterwards the database holds the block under its
  hash, the accounts execution computed, and, if no two transactions of the block have the same
  hash, each transaction and its receipt under that hash.
\<close>

theorem apply_block_commits:
  assumes "storage_ok P" "accounts_keyed P (cs_storage s)" "apply_block P W s b E = (Ok rs, s', E')"
  shows "length rs = length (bk_transactions b) \<and>
    (\<forall>i < length rs. rc_tx_hash (rs ! i) = stx_hash (bk_transactions b ! i) \<and> rc_index (rs ! i) = of_nat i \<and>
       rc_block_hash (rs ! i) = block_hash P b) \<and>
    get_block_by_hash P (cs_storage s') (block_hash P b) = Ok (Some b) \<and>
    (\<forall>a. load_account P (cs_storage s') [] a =
       load_account P (cs_storage s) (xs_accounts (exec_txs P W b (exec_init s E))) a) \<and>
    (distinct (map stx_hash (bk_transactions b)) \<longrightarrow> (\<forall>i < length rs.
       get_receipt P (cs_storage s') (stx_hash (bk_transactions b ! i)) = Ok (Some (rs ! i)) \<and>
       get_transaction P (cs_storage s') (stx_hash (bk_transactions b ! i)) = Ok (Some (bk_transactions b ! i))))"
  using assms(3)
proof (cases rule: apply_block_cases)
  case (applied st db)
  note rocks = storage_okD(1) [OF assms(1)]
  note ex = exec_block_keyed [OF rocks assms(2), of W b E, folded applied(1)]
  have rs: "rs = xs_receipts st" and s': "cs_storage s' = db" using applied by simp_all
  have all2: "list_all2 (\<lambda>r (i, stx). rc_tx_hash r = stx_hash stx \<and> rc_index r = of_nat i \<and>
      rc_block_number r = bh_number (bk_header b) \<and> rc_block_hash r = block_hash P b)
    rs (enumerate 0 (bk_transactions b))"
    using exec_block_receipts [OF rocks, of b W s E] applied(1) by (simp add: rs)
  then have len: "length rs = length (bk_transactions b)" by (simp add: list_all2_conv_all_nth)
  have at: "rc_tx_hash (rs ! i) = stx_hash (bk_transactions b ! i) \<and> rc_index (rs ! i) = of_nat i \<and>
       rc_block_hash (rs ! i) = block_hash P b" if "i < length rs" for i
    using all2 that len by (auto simp: list_all2_conv_all_nth nth_enumerate_eq split: prod.splits)
  have view: "load_account P db [] a = load_account P (cs_storage s) (xs_accounts st) a" for a
    using commit_block_view [OF assms(1) applied(2) ex(1), of a] load_account_frame [OF ex(3), of "xs_accounts st" a]
    by (auto simp: load_account_def find_account_def split: option.splits)
  have "map rc_tx_hash rs = map stx_hash (bk_transactions b)"
    using at len by (simp add: list_eq_iff_nth_eq)
  then have "get_receipt P db (stx_hash (bk_transactions b ! i)) = Ok (Some (rs ! i)) \<and>
      get_transaction P db (stx_hash (bk_transactions b ! i)) = Ok (Some (bk_transactions b ! i))"
    if "distinct (map stx_hash (bk_transactions b))" "i < length rs" for i
    using that len at [of i] find_distinct_key [of rc_tx_hash rs i] find_distinct_key [of stx_hash "bk_transactions b" i]
      commit_block_accounts(2,3) [OF assms(1) applied(2)] by (simp add: rs)
  then show ?thesis
    using len at view commit_block_chain(2) [OF assms(1) applied(2)] applied(1) s' by simp
qed auto

section \<open>Nonces: a transaction is executed at most once\<close>

definition nonce_at :: "('db, 'p) storage_prims_scheme \<Rightarrow> ('db, 'm) exec_state \<Rightarrow> address \<Rightarrow> nonce" where
  "nonce_at P st a = acc_nonce (load_account P (xs_db st) (xs_accounts st) a)"

definition is_deploy :: "signed_transaction \<Rightarrow> bool" where
  "is_deploy stx \<longleftrightarrow> tx_type (stx_transaction stx) = ContractDeploy"

lemma load_account_put:
  "load_account P db (hm_put a acc m) b = (if b = a then acc else load_account P db m b)"
  by (simp add: load_account_def find_account_def)

lemma apply_balance_changes_nonce:
  assumes "\<And>a. get_account P db' a = get_account P db a"
  shows "acc_nonce (load_account P db' (apply_balance_changes P db chs accs) a) = acc_nonce (load_account P db' accs a)"
proof (induction chs arbitrary: accs)
  case (Cons ch chs)
  have "load_account P db accs x = load_account P db' accs x" for x
    by (simp add: load_account_def find_account_def assms)
  then show ?case using Cons.IH by (cases ch) (simp add: load_account_put)
qed simp

lemma exec_frame_account: "cf_frame P exec_cfs db db' \<Longrightarrow> get_account P db' a = get_account P db a"
  by (rule cf_frame_reads(1) [OF _ exec_cfs_others(3)])

lemma exec_by_type_nonce:
  assumes "rocks_ok P" "exec_by_type P W b i stx acc st = (r, g, acc', st')" "\<not> is_deploy stx"
  shows "acc_nonce acc' = acc_nonce acc" "nonce_at P st' a = nonce_at P st a"
proof -
  note frame = exec_by_type_frame(1) [OF assms(1,2)]
  have db: "load_account P (xs_db st') accs a = load_account P (xs_db st) accs a" for accs a
    by (rule load_account_frame [OF frame])
  have chs: "acc_nonce (load_account P db (apply_balance_changes P (apply_storage_changes P s db) d accs) a) =
      acc_nonce (load_account P db accs a)" for db s d accs a
    by (rule apply_balance_changes_nonce) (simp add: exec_frame_account [OF apply_storage_changes_frame [OF assms(1)]])
  show "acc_nonce acc' = acc_nonce acc"
    using assms(2,3)
    by (auto simp: exec_by_type_def exec_transfer_def exec_call_def exec_stake_def is_deploy_def
        exec_unstake_def Let_def split: tx_type.splits prod.splits sum.splits option.splits if_splits)
  have "acc_nonce (load_account P (xs_db st) (xs_accounts st') a) = nonce_at P st a"
    using assms(2,3)
    by (auto simp: exec_by_type_def exec_transfer_def exec_call_def exec_stake_def is_deploy_def nonce_at_def
        exec_unstake_def Let_def load_account_put chs
        split: tx_type.splits prod.splits sum.splits option.splits if_splits)
  then show "nonce_at P st' a = nonce_at P st a" by (simp add: nonce_at_def db)
qed

lemma exec_tx_nonce:
  assumes "rocks_ok P" "\<not> is_deploy stx"
  shows "nonce_at P (exec_tx P W b (i, stx) st) a =
    (if admitted P stx st \<and> a = sender stx then nonce_at P st a + 1 else nonce_at P st a)"
proof (cases "admitted P stx st")
  case False
  then obtain r where "exec_tx P W b (i, stx) st = st\<lparr>xs_receipts := xs_receipts st @ [r]\<rparr>"
    using exec_tx_skipped by blast
  with False show ?thesis by (simp add: nonce_at_def)
next
  case True
  then show ?thesis
  proof (rule exec_tx_admitted [where W = W and b = b and i = i])
    fix r g acc' st'
    assume run: "exec_by_type P W b i stx
       (increment_nonce (sub_balance (sender_account P stx st) (max_gas_cost (stx_transaction stx)))) st = (r, g, acc', st')"
      and eq: "exec_tx P W b (i, stx) st = st'\<lparr>xs_total_gas := xs_total_gas st' + g,
       xs_accounts := hm_put (sender stx) acc' (xs_accounts st'), xs_receipts := xs_receipts st' @ [r]\<rparr>"
    from exec_by_type_nonce [OF assms(1) run assms(2)] True show ?thesis
      by (simp add: eq nonce_at_def load_account_put increment_nonce_def)
  qed
qed

lemma exec_fold_nonce:
  assumes "rocks_ok P" "list_all (\<lambda>(i, stx). \<not> is_deploy stx) itxs"
  shows "\<exists>k \<le> length itxs. nonce_at P (fold (exec_tx P W b) itxs st) a = nonce_at P st a + of_nat k"
  using assms(2)
proof (induction itxs arbitrary: st)
  case (Cons itx itxs)
  obtain i stx where itx: "itx = (i, stx)" by (cases itx)
  let ?st = "exec_tx P W b itx st"
  obtain k where k: "k \<le> length itxs"
      "nonce_at P (fold (exec_tx P W b) itxs ?st) a = nonce_at P ?st a + of_nat k"
    using Cons by force
  have "nonce_at P ?st a = nonce_at P st a \<or> nonce_at P ?st a = nonce_at P st a + 1"
    using exec_tx_nonce [OF assms(1), of stx W b i st a] Cons.prems by (simp add: itx)
  then show ?case
  proof
    assume "nonce_at P ?st a = nonce_at P st a"
    with k show ?thesis by (intro exI [of _ k]) simp
  next
    assume "nonce_at P ?st a = nonce_at P st a + 1"
    with k show ?thesis by (intro exI [of _ "Suc k"]) simp
  qed
qed simp

text \<open>The state in front of the \<open>j\<close>-th transaction of a block, and a run of blocks that are all applied.\<close>

definition exec_prefix :: "('db, 'p) storage_prims_scheme \<Rightarrow> ('m, 'i) wasmtime \<Rightarrow> 'db chain_state \<Rightarrow> block \<Rightarrow>
    'm wasm_engine \<Rightarrow> nat \<Rightarrow> ('db, 'm) exec_state" where
  "exec_prefix P W s b E j = fold (exec_tx P W b) (take j (enumerate 0 (bk_transactions b))) (exec_init s E)"

fun apply_blocks :: "('db, 'p) storage_prims_scheme \<Rightarrow> ('m, 'i) wasmtime \<Rightarrow> 'db chain_state \<Rightarrow> block list \<Rightarrow>
    'm wasm_engine \<Rightarrow> ('db chain_state \<times> 'm wasm_engine) option" where
  "apply_blocks P W s [] E = Some (s, E)"
| "apply_blocks P W s (b # bs) E = (case apply_block P W s b E of
      (Ok rs, s', E') \<Rightarrow> apply_blocks P W s' bs E'
    | (Err e, s', E') \<Rightarrow> None)"

lemma list_all_enumerate: "list_all (\<lambda>(i, x). Q x) (enumerate n xs) = list_all Q xs"
  by (induction xs arbitrary: n) auto

lemma exec_block_nonce:
  assumes "rocks_ok P" "list_all (\<lambda>stx. \<not> is_deploy stx) (bk_transactions b)" "j \<le> length (bk_transactions b)"
  shows "\<exists>k \<le> j. nonce_at P (exec_prefix P W s b E j) a = nonce_at P (exec_init s E) a + of_nat k"
proof -
  have "list_all (\<lambda>(i, stx). \<not> is_deploy stx) (take j (enumerate 0 (bk_transactions b)))"
    using assms(2) list_all_enumerate [of "\<lambda>stx. \<not> is_deploy stx" 0 "bk_transactions b"]
    unfolding list_all_iff by (meson in_set_takeD)
  from exec_fold_nonce [OF assms(1) this, of W b "exec_init s E" a] show ?thesis
    using assms(3) by (simp add: exec_prefix_def min_absorb2)
qed

lemma apply_block_nonce:
  assumes "storage_ok P" "accounts_keyed P (cs_storage s)" "apply_block P W s b E = (Ok rs, s', E')"
  shows "nonce_at P (exec_init s' E'') a = nonce_at P (exec_prefix P W s b E (length (bk_transactions b))) a"
    "accounts_keyed P (cs_storage s')"
proof -
  obtain st db where d: "st = exec_txs P W b (exec_init s E)" "commit_block P b st = Ok db" "cs_storage s' = db"
    using assms(3) by (cases rule: apply_block_cases) auto
  note ex = exec_block_keyed [OF storage_okD(1) [OF assms(1)] assms(2), of W b E, folded d(1)]
  show "accounts_keyed P (cs_storage s')" using commit_block_keyed [OF assms(1) d(2) ex(1,2)] d(3) by simp
  have "load_account P db [] a = load_account P (xs_db st) (xs_accounts st) a"
    using commit_block_view [OF assms(1) d(2) ex(1), of a]
    by (auto simp: load_account_def find_account_def split: option.splits)
  then show "nonce_at P (exec_init s' E'') a = nonce_at P (exec_prefix P W s b E (length (bk_transactions b))) a"
    by (simp add: nonce_at_def exec_prefix_def exec_init_def d(3) d(1) exec_txs_def)
qed

lemma apply_blocks_nonce:
  assumes "storage_ok P" "accounts_keyed P (cs_storage s)" "apply_blocks P W s bs E = Some (s', E')"
    "\<forall>b \<in> set bs. list_all (\<lambda>stx. \<not> is_deploy stx) (bk_transactions b)"
  shows "accounts_keyed P (cs_storage s') \<and> (\<exists>k \<le> (\<Sum>b\<leftarrow>bs. length (bk_transactions b)).
    nonce_at P (exec_init s' E') a = nonce_at P (exec_init s E) a + of_nat k)"
  using assms(2-)
proof (induction bs arbitrary: s E)
  case (Cons b bs)
  from Cons.prems(2) obtain rs s1 E1 where b: "apply_block P W s b E = (Ok rs, s1, E1)" "apply_blocks P W s1 bs E1 = Some (s', E')"
    by (auto split: prod.splits sum.splits)
  note n = apply_block_nonce [OF assms(1) Cons.prems(1) b(1)]
  obtain k1 where k1: "k1 \<le> length (bk_transactions b)" "nonce_at P (exec_init s1 E1) a = nonce_at P (exec_init s E) a + of_nat k1"
    using exec_block_nonce [OF storage_okD(1) [OF assms(1)], of b "length (bk_transactions b)" W s E a] n(1) [of E1 a] Cons.prems(3) by auto
  obtain k2 where k2: "accounts_keyed P (cs_storage s')" "k2 \<le> (\<Sum>b\<leftarrow>bs. length (bk_transactions b))"
      "nonce_at P (exec_init s' E') a = nonce_at P (exec_init s1 E1) a + of_nat k2"
    using Cons.IH [OF n(2) b(2)] Cons.prems(3) by auto
  show ?case using k1 k2 by (auto intro!: exI [of _ "k1 + k2"])
qed auto

lemma exec_prefix_Suc:
  "i < length (bk_transactions b) \<Longrightarrow>
   exec_prefix P W s b E (Suc i) = exec_tx P W b (i, bk_transactions b ! i) (exec_prefix P W s b E i)"
  by (simp add: exec_prefix_def take_Suc_conv_app_nth nth_enumerate_eq)

lemma exec_prefix_all:
  "exec_prefix P W s b E (length (bk_transactions b)) =
   fold (exec_tx P W b) (drop j (enumerate 0 (bk_transactions b))) (exec_prefix P W s b E j)"
proof -
  have "enumerate 0 (bk_transactions b) = take j (enumerate 0 (bk_transactions b)) @ drop j (enumerate 0 (bk_transactions b))"
    by simp
  then show ?thesis by (metis exec_prefix_def fold_append comp_apply take_all length_enumerate order_refl)
qed

lemma used_nonce_passed:
  assumes "storage_ok P" "accounts_keyed P (cs_storage s)" "apply_blocks P W s (b # bs) E = Some (s', E')"
    "i < length (bk_transactions b)" "admitted P (bk_transactions b ! i) (exec_prefix P W s b E i)"
    "\<forall>c \<in> set (b # bs). list_all (\<lambda>stx. \<not> is_deploy stx) (bk_transactions c)"
  shows "\<exists>k < (\<Sum>c\<leftarrow>b # bs. length (bk_transactions c)). nonce_at P (exec_init s' E') (sender (bk_transactions b ! i)) =
    tx_nonce (stx_transaction (bk_transactions b ! i)) + 1 + of_nat k"
proof -
  let ?stx = "bk_transactions b ! i" and ?n = "tx_nonce (stx_transaction (bk_transactions b ! i))"
  let ?nonce = "\<lambda>st. nonce_at P st (sender ?stx)" and ?rest = "drop (Suc i) (enumerate 0 (bk_transactions b))"
  note rocks = storage_okD(1) [OF assms(1)]
  have nodep: "list_all (\<lambda>stx. \<not> is_deploy stx) (bk_transactions b)" using assms(6) by simp
  then have "\<not> is_deploy ?stx" using assms(4) by (simp add: list_all_length)
  then have n1: "?nonce (exec_prefix P W s b E (Suc i)) = ?n + 1"
    using exec_tx_nonce [OF rocks, of ?stx W b i "exec_prefix P W s b E i" "sender ?stx"] assms(4,5)
    by (simp add: exec_prefix_Suc admitted_def nonce_at_def)
  have "list_all (\<lambda>(i, stx). \<not> is_deploy stx) ?rest"
    using nodep list_all_enumerate [of "\<lambda>stx. \<not> is_deploy stx" 0 "bk_transactions b"]
    unfolding list_all_iff by (meson in_set_dropD)
  from exec_fold_nonce [OF rocks this, of W b "exec_prefix P W s b E (Suc i)" "sender ?stx"] n1
  obtain k1 where k1: "k1 \<le> length (bk_transactions b) - Suc i"
      "?nonce (exec_prefix P W s b E (length (bk_transactions b))) = ?n + 1 + of_nat k1"
    by (auto simp: exec_prefix_all [of P W s b E "Suc i"])
  from assms(3) obtain rs s1 E1 where b: "apply_block P W s b E = (Ok rs, s1, E1)" "apply_blocks P W s1 bs E1 = Some (s', E')"
    by (auto split: prod.splits sum.splits)
  note n = apply_block_nonce [OF assms(1,2) b(1)]
  obtain k2 where "k2 \<le> (\<Sum>c\<leftarrow>bs. length (bk_transactions c))"
      "?nonce (exec_init s' E') = ?nonce (exec_init s1 E1) + of_nat k2"
    using apply_blocks_nonce [OF assms(1) n(2) b(2)] assms(6) by auto
  with k1 n(1) [of E1 "sender ?stx"] assms(4) show ?thesis by (intro exI [of _ "k1 + k2"]) auto
qed

text \<open>
  C17 (no replay). A transaction that was executed in one block is not executed again: when the
  same transaction turns up in a later block, it gets a failure receipt without gas, and accounts,
  validators and database stay as they were. This holds over chains of fewer than \<open>2 ^ 64\<close>
  transactions without deployments (a deployment sets the nonce of the address it computes to 0).
\<close>

theorem replay_rejected:
  assumes "storage_ok P" "accounts_keyed P (cs_storage s)" "apply_blocks P W s (b # bs) E = Some (s', E')"
    "i < length (bk_transactions b)" "admitted P (bk_transactions b ! i) (exec_prefix P W s b E i)"
    "j < length (bk_transactions b')" "bk_transactions b' ! j = bk_transactions b ! i"
    "\<forall>c \<in> set (b # bs @ [b']). list_all (\<lambda>stx. \<not> is_deploy stx) (bk_transactions c)"
    "(\<Sum>c\<leftarrow>b # bs @ [b']. length (bk_transactions c)) < 2 ^ 64"
  shows "\<exists>r e. exec_prefix P W s' b' E' (Suc j) =
      (exec_prefix P W s' b' E' j)\<lparr>xs_receipts := xs_receipts (exec_prefix P W s' b' E' j) @ [r]\<rparr> \<and>
    rc_status r = Failure e \<and> rc_gas_used r = 0"
proof -
  let ?stx = "bk_transactions b ! i" and ?n = "tx_nonce (stx_transaction (bk_transactions b ! i))"
  note rocks = storage_okD(1) [OF assms(1)]
  obtain k where k: "k < (\<Sum>c\<leftarrow>b # bs. length (bk_transactions c))"
      "nonce_at P (exec_init s' E') (sender ?stx) = ?n + 1 + of_nat k"
    using used_nonce_passed [OF assms(1-5)] assms(8) by auto
  obtain k' where k': "k' \<le> j" "nonce_at P (exec_prefix P W s' b' E' j) (sender ?stx) = ?n + 1 + of_nat k + of_nat k'"
    using exec_block_nonce [OF rocks, of b' j W s' E' "sender ?stx"] assms(6,8) k(2) by auto
  have "Suc (k + k') < 2 ^ 64" using k(1) k'(1) assms(6,9) by simp
  then have "unat (of_nat (Suc (k + k')) :: nonce) = Suc (k + k')"
    by (simp add: unat_of_nat del: of_nat_Suc of_nat_add)
  then have "of_nat (Suc (k + k')) \<noteq> (0 :: nonce)" by (metis unat_0 Zero_not_Suc)
  then have "\<not> admitted P ?stx (exec_prefix P W s' b' E' j)"
    using k'(2) by (auto simp: admitted_def nonce_at_def algebra_simps)
  then show ?thesis
    using exec_tx_skipped [of P ?stx "exec_prefix P W s' b' E' j" W b' j] assms(6,7) by (metis exec_prefix_Suc)
qed
section \<open>An example payment\<close>

definition pay_tx :: transaction where
  "pay_tx = \<lparr>tx_chain_id = 1, tx_nonce = 0, tx_from = 1, tx_to = Some 2, tx_value = 10, tx_type = Transfer,
     tx_gas_limit = 22000, tx_gas_price = 1, tx_data = [], tx_timestamp = 0\<rparr>"

definition pay_stx :: signed_transaction where
  "pay_stx = \<lparr>stx_transaction = pay_tx, stx_public_key = 0, stx_signature = 0, stx_hash = 7\<rparr>"

definition pay_block :: block where
  "pay_block = example_block1\<lparr>bk_transactions := [pay_stx]\<rparr>"

abbreviation payer :: account where "payer \<equiv> account_new 1 50000"
abbreviation payer_after :: account where "payer_after \<equiv> (account_new 1 28990)\<lparr>acc_nonce := 1\<rparr>"
abbreviation payee_after :: account where "payee_after \<equiv> account_new 2 10"

text \<open>Any block that holds the payment only, on any chain state with the payer's account.\<close>

definition pay_receipt_in :: "block \<Rightarrow> transaction_receipt" where
  "pay_receipt_in b = mk_receipt example_block_prims b 0 pay_stx Success 21000 [] None []"

abbreviation pay_receipt :: transaction_receipt where "pay_receipt \<equiv> pay_receipt_in pay_block"

definition pay_prims_for :: "block \<Rightarrow> mem_db storage_prims" where
  "pay_prims_for b = mem_prims [example_block0, b] [pay_stx] [(1, 0)] [pay_receipt_in b] [payer, payer_after, payee_after] [] []"

abbreviation pay_prims :: "mem_db storage_prims" where "pay_prims \<equiv> pay_prims_for pay_block"

definition pay_state :: "mem_db chain_state" where
  "pay_state = \<lparr>cs_head = example_block0, cs_height = 0, cs_current_epoch = epoch_of example_genesis 0 0 4,
     cs_storage = [(ACCOUNTS, to_be_bytes (1 :: address)) \<mapsto> [0]]\<rparr>"

lemma pay_prims_ok: "storage_ok (pay_prims_for b)"
  unfolding pay_prims_for_def by (rule mem_prims_ok) simp_all

lemma pay_get_account:
  "get_account (pay_prims_for b) (cs_storage pay_state) a = Ok (if a = 1 then Some payer else None)"
  by (auto simp: get_account_def get_typed_def get_cf_def pay_prims_for_def pay_state_def enum_serde_def codec_simps)

lemma pay_keyed: "accounts_keyed (pay_prims_for b) (cs_storage pay_state)"
  by (simp add: accounts_keyed_def pay_get_account account_new_def)

lemma pay_load:
  "load_account (pay_prims_for b) (cs_storage pay_state) accs a =
     (case hm_get accs a of Some acc \<Rightarrow> acc | None \<Rightarrow> if a = 1 then payer else account_new a 0)"
  by (simp add: load_account_def find_account_def pay_get_account split: option.split)

lemma pay_admitted: "cs_storage s = cs_storage pay_state \<Longrightarrow> admitted (pay_prims_for b) pay_stx (exec_init s E)"
  by (simp add: admitted_def exec_init_def pay_load sender_def pay_stx_def
      pay_tx_def has_sufficient_balance_def total_cost_def max_gas_cost_def account_new_def)

lemma pay_exec:
  assumes "cs_storage s = cs_storage pay_state" "bk_transactions b = [pay_stx]"
  shows "exec_txs (pay_prims_for b) W b (exec_init s E) = (exec_init s E)
     \<lparr>xs_accounts := [(2, payee_after), (1, payer_after)], xs_receipts := [pay_receipt_in b], xs_total_gas := 21000\<rparr>"
proof -
  have "mk_receipt (pay_prims_for b) b 0 pay_stx Success 21000 [] None [] = pay_receipt_in b"
    by (simp add: mk_receipt_def pay_receipt_in_def pay_prims_for_def block_hash_mem)
  moreover have "gas_refund pay_tx BASE_GAS = 1000"
    by (simp add: gas_refund_def pay_tx_def BASE_GAS_def saturating_sub_def)
  moreover have "tx_type pay_tx = Transfer" "tx_value pay_tx = 10" "tx_to pay_tx = Some 2" "max_gas_cost pay_tx = 22000"
    by (simp_all add: pay_tx_def max_gas_cost_def)
  moreover have "sender pay_stx = 1" "stx_transaction pay_stx = pay_tx"
    by (simp_all add: sender_def pay_stx_def pay_tx_def)
  ultimately show ?thesis
    using pay_admitted [OF assms(1), of b E] assms
    by (simp add: exec_txs_def exec_tx_def admitted_def exec_by_type_def exec_transfer_def pay_load exec_init_def
        add_balance_def sub_balance_def increment_nonce_def account_new_def BASE_GAS_def)
qed

lemma pay_apply:
  assumes "cs_storage s = cs_storage pay_state" "bk_transactions b = [pay_stx]" "bh_number (bk_header b) = 1"
    "cs_height s = 0" "bh_parent_hash (bk_header b) = block_hash example_block_prims (cs_head s)"
  shows "\<exists>s'. apply_block (pay_prims_for b) W s b E = (Ok [pay_receipt_in b], s', E) \<and>
    cs_current_epoch s' = cs_current_epoch s \<and> cs_height s' = 1"
proof -
  have "\<exists>db. commit_block (pay_prims_for b) b ((exec_init s E)
     \<lparr>xs_accounts := [(2, payee_after), (1, payer_after)], xs_receipts := [pay_receipt_in b], xs_total_gas := 21000\<rparr>) = Ok db"
    unfolding pay_prims_for_def by (rule commit_block_mem) (use assms(2,3) in simp_all)
  moreover have "bh_parent_hash (bk_header b) = block_hash (pay_prims_for b) (cs_head s)"
    by (simp add: assms(5) pay_prims_for_def block_hash_mem)
  ultimately show ?thesis
    using assms(3,4) pay_exec [OF assms(1,2), of W E] by (auto simp: apply_block_def Let_def exec_init_def)
qed

lemma pay_applied: "\<exists>s'. apply_block pay_prims W pay_state pay_block E = (Ok [pay_receipt], s', E)"
  using pay_apply [of pay_state pay_block W E] by (auto simp: pay_block_def example_block1_def pay_state_def)

theorem apply_block_commits_witness:
  "\<exists>s'. apply_block pay_prims sending_module pay_state pay_block (wasm_engine_new vm_config_default) =
      (Ok [pay_receipt], s', wasm_engine_new vm_config_default) \<and>
    get_receipt pay_prims (cs_storage s') 7 = Ok (Some pay_receipt) \<and>
    get_transaction pay_prims (cs_storage s') 7 = Ok (Some pay_stx) \<and>
    acc_balance (load_account pay_prims (cs_storage s') [] 1) = 28990 \<and>
    acc_balance (load_account pay_prims (cs_storage s') [] 2) = 10"
proof -
  let ?E = "wasm_engine_new vm_config_default"
  obtain s' where s': "apply_block pay_prims sending_module pay_state pay_block ?E = (Ok [pay_receipt], s', ?E)"
    using pay_applied [of sending_module ?E] by blast
  have tx: "bk_transactions pay_block = [pay_stx]" "stx_hash pay_stx = 7" by (simp_all add: pay_block_def pay_stx_def)
  show ?thesis
    using s' apply_block_commits [OF pay_prims_ok pay_keyed s'] pay_exec [OF refl tx(1), of sending_module ?E]
    by (simp add: tx pay_load account_new_def)
qed

theorem replay_rejected_witness:
  "\<exists>s' r e. apply_blocks pay_prims sending_module pay_state [pay_block] (wasm_engine_new vm_config_default) =
      Some (s', wasm_engine_new vm_config_default) \<and>
    exec_prefix pay_prims sending_module s' pay_block (wasm_engine_new vm_config_default) 1 =
      (exec_init s' (wasm_engine_new vm_config_default))\<lparr>xs_receipts := [r]\<rparr> \<and> rc_status r = Failure e"
proof -
  let ?E = "wasm_engine_new vm_config_default"
  obtain s' where s': "apply_blocks pay_prims sending_module pay_state [pay_block] ?E = Some (s', ?E)"
    using pay_applied [of sending_module ?E] by auto
  have tx: "bk_transactions pay_block = [pay_stx]" "\<not> is_deploy pay_stx"
    by (simp_all add: pay_block_def is_deploy_def pay_stx_def pay_tx_def)
  have "admitted pay_prims (bk_transactions pay_block ! 0) (exec_prefix pay_prims sending_module pay_state pay_block ?E 0)"
    using pay_admitted [of pay_state] by (simp add: exec_prefix_def tx)
  from replay_rejected [OF pay_prims_ok pay_keyed s' _ this, of 0 pay_block] show ?thesis
    using s' tx by (auto simp: exec_prefix_def exec_init_def)
qed

end
