(* ===== verification/Ledger.thy ===== *)
theory Ledger
  imports Chain_Correct
begin

text \<open>
  What blocks do to the tokens: conservation over blocks of transfers, stakes and unstakes, the
  two ways in which tokens are lost or made up, the state root, and the choice of the validators
  of the next epoch.
\<close>

section \<open>Conservation of tokens\<close>

text \<open>
  The tokens of a set of accounts, as execution sees them, together with the stake of the
  validators. A transaction is \<open>fair\<close> for the set when it is a transfer, stake or unstake of its
  members, does not send to its own sender, and its costs stay within their machine types: the gas
  limit at the gas price within 64 bits, and with the value within 128 bits. The base fee is what
  an admitted transfer costs: a gas limit below the base gas caps it.
\<close>

definition balance_at :: "('db, 'p) storage_prims_scheme \<Rightarrow> ('db, 'm) exec_state \<Rightarrow> address \<Rightarrow> nat" where
  "balance_at P st a = unat (acc_balance (load_account P (xs_db st) (xs_accounts st) a))"

definition total_staked :: "validator_info list \<Rightarrow> nat" where
  "total_staked vs = (\<Sum>v\<leftarrow>vs. unat (vi_stake v))"

definition tokens :: "('db, 'p) storage_prims_scheme \<Rightarrow> address set \<Rightarrow> ('db, 'm) exec_state \<Rightarrow> nat" where
  "tokens P S st = (\<Sum>a\<in>S. balance_at P st a) + total_staked (vs_validators (ep_validator_set (xs_epoch st)))"

definition gas_cost :: "transaction \<Rightarrow> nat" where
  "gas_cost tx = unat (tx_gas_limit tx) * unat (tx_gas_price tx)"

definition base_fee :: "transaction \<Rightarrow> nat" where
  "base_fee tx = min 21000 (unat (tx_gas_limit tx)) * unat (tx_gas_price tx)"

definition fair_tx :: "address set \<Rightarrow> signed_transaction \<Rightarrow> bool" where
  "fair_tx S stx \<longleftrightarrow> (let tx = stx_transaction stx in
     tx_type tx \<in> {Transfer, Stake, Unstake} \<and> sender stx \<in> S \<and>
     (tx_type tx = Transfer \<longrightarrow> unwrap_or address_ZERO (tx_to tx) \<in> S - {sender stx}) \<and>
     gas_cost tx < 2 ^ 64 \<and> unat (tx_value tx) + gas_cost tx < 2 ^ 128)"

lemma sum_fun_upd:
  fixes f :: "'x \<Rightarrow> nat"
  assumes "finite S" "a \<in> S"
  shows "(\<Sum>x\<in>S. (f(a := v)) x) + f a = (\<Sum>x\<in>S. f x) + v"
proof -
  have "(\<Sum>x\<in>S. (f(a := v)) x) = v + (\<Sum>x\<in>S - {a}. f x)"
    using assms by (simp add: sum.remove)
  then show ?thesis using assms by (simp add: sum.remove)
qed

lemma total_staked_update:
  assumes "find (\<lambda>v. vi_address v = a) vs = Some v"
  shows "total_staked (update_validator f a vs) + unat (vi_stake v) = total_staked vs + unat (vi_stake (f v))"
    "unat (vi_stake v) \<le> total_staked vs"
  using assms by (induction vs) (auto simp: total_staked_def split: if_splits)

lemma unat_gas_refund:
  assumes "gas_cost tx < 2 ^ 64"
  shows "unat (gas_refund tx BASE_GAS) + base_fee tx = gas_cost tx"
proof -
  have "(unat (tx_gas_limit tx) - 21000) * unat (tx_gas_price tx) \<le> gas_cost tx"
    unfolding gas_cost_def by (rule mult_right_mono) simp_all
  then have "unat (gas_refund tx BASE_GAS) = (unat (tx_gas_limit tx) - 21000) * unat (tx_gas_price tx)"
    using assms by (simp add: gas_refund_def BASE_GAS_def unat_mult_nowrap)
  moreover have "(unat (tx_gas_limit tx) - 21000) + min 21000 (unat (tx_gas_limit tx)) = unat (tx_gas_limit tx)" by simp
  ultimately show ?thesis by (metis add_mult_distrib base_fee_def gas_cost_def)
qed

lemma balance_add: "unat (acc_balance acc) + unat v < 2 ^ 128 \<Longrightarrow>
    unat (acc_balance (add_balance acc v)) = unat (acc_balance acc) + unat v"
  by (simp add: add_balance_def unat_add_nowrap)

lemma balance_sub: "unat v \<le> unat (acc_balance acc) \<Longrightarrow>
    unat (acc_balance (sub_balance acc v)) = unat (acc_balance acc) - unat v"
  by (simp add: sub_balance_def unat_sub_le word_le_nat_alt)

lemma balance_nonce [simp]: "acc_balance (increment_nonce acc) = acc_balance acc"
  by (simp add: increment_nonce_def)

text \<open>What a fair transaction does to the account it charges, to the others and to the stake.\<close>

lemma exec_fair_transfer:
  assumes "exec_by_type P W b i stx acc st = (r, g, acc', st')" "tx_type (stx_transaction stx) = Transfer"
    "gas_cost (stx_transaction stx) < 2 ^ 64"
    "unat (tx_value (stx_transaction stx)) \<le> unat (acc_balance acc)"
    "unat (acc_balance acc) + gas_cost (stx_transaction stx) < 2 ^ 128"
    "balance_at P st (unwrap_or address_ZERO (tx_to (stx_transaction stx))) + unat (tx_value (stx_transaction stx)) < 2 ^ 128"
  shows "unat (acc_balance acc') + unat (tx_value (stx_transaction stx)) + base_fee (stx_transaction stx) =
      unat (acc_balance acc) + gas_cost (stx_transaction stx)"
    "balance_at P st' = (balance_at P st)(unwrap_or address_ZERO (tx_to (stx_transaction stx)) :=
      balance_at P st (unwrap_or address_ZERO (tx_to (stx_transaction stx))) + unat (tx_value (stx_transaction stx)))"
    "xs_epoch st' = xs_epoch st" "g = 21000"
proof -
  let ?tx = "stx_transaction stx"
  have ref: "unat (gas_refund ?tx BASE_GAS) + base_fee ?tx = gas_cost ?tx" by (rule unat_gas_refund [OF assms(3)])
  show "unat (acc_balance acc') + unat (tx_value ?tx) + base_fee ?tx = unat (acc_balance acc) + gas_cost ?tx"
    using assms(1,2,4,5) ref by (auto simp: exec_by_type_def exec_transfer_def Let_def balance_add balance_sub)
  show "balance_at P st' = (balance_at P st)(unwrap_or address_ZERO (tx_to ?tx) :=
      balance_at P st (unwrap_or address_ZERO (tx_to ?tx)) + unat (tx_value ?tx))"
    "xs_epoch st' = xs_epoch st" "g = 21000"
    using assms(1,2,6)
    by (auto simp: exec_by_type_def exec_transfer_def Let_def balance_at_def load_account_put balance_add BASE_GAS_def fun_eq_iff)
qed
lemma exec_fair_stake:
  assumes "rocks_ok P" "exec_by_type P W b i stx acc st = (r, g, acc', st')" "tx_type (stx_transaction stx) = Stake"
    "gas_cost (stx_transaction stx) < 2 ^ 64"
    "unat (tx_value (stx_transaction stx)) \<le> unat (acc_balance acc)"
    "unat (acc_balance acc) + gas_cost (stx_transaction stx) < 2 ^ 128"
    "total_staked (vs_validators (ep_validator_set (xs_epoch st))) + unat (tx_value (stx_transaction stx)) < 2 ^ 128"
  shows "unat (acc_balance acc') + unat (tx_value (stx_transaction stx)) + base_fee (stx_transaction stx) =
      unat (acc_balance acc) + gas_cost (stx_transaction stx)"
    "balance_at P st' = balance_at P st" "g = 21000"
    "total_staked (vs_validators (ep_validator_set (xs_epoch st'))) =
      total_staked (vs_validators (ep_validator_set (xs_epoch st))) + unat (tx_value (stx_transaction stx))"
proof -
  let ?tx = "stx_transaction stx" and ?vs = "vs_validators (ep_validator_set (xs_epoch st))"
  have ref: "unat (gas_refund ?tx BASE_GAS) + base_fee ?tx = gas_cost ?tx" by (rule unat_gas_refund [OF assms(4)])
  show "unat (acc_balance acc') + unat (tx_value ?tx) + base_fee ?tx = unat (acc_balance acc) + gas_cost ?tx"
    using assms(2,3,5,6) ref
    by (auto simp: exec_by_type_def exec_stake_def Let_def balance_add balance_sub split: prod.splits)
  have "xs_accounts st' = xs_accounts st"
    using assms(2,3) by (auto simp: exec_by_type_def exec_stake_def Let_def split: prod.splits)
  then show "balance_at P st' = balance_at P st"
    by (simp add: balance_at_def fun_eq_iff load_account_frame [OF exec_by_type_frame(1) [OF assms(1,2)]])
  show "g = 21000"
    using assms(2,3) by (auto simp: exec_by_type_def exec_stake_def Let_def BASE_GAS_def split: prod.splits)
  have upd: "total_staked (update_validator (\<lambda>v. v\<lparr>vi_stake := vi_stake v + tx_value ?tx, vi_is_active := True\<rparr>) (sender stx) ?vs) =
      total_staked ?vs + unat (tx_value ?tx)" if "find (\<lambda>v. vi_address v = sender stx) ?vs = Some v" for v
  proof -
    have "unat (vi_stake v + tx_value ?tx) = unat (vi_stake v) + unat (tx_value ?tx)"
      using total_staked_update(2) [OF that] assms(7) by (simp add: unat_add_nowrap)
    then show ?thesis
      using total_staked_update(1) [OF that, of "\<lambda>v. v\<lparr>vi_stake := vi_stake v + tx_value ?tx, vi_is_active := True\<rparr>"] by simp
  qed
  show "total_staked (vs_validators (ep_validator_set (xs_epoch st'))) = total_staked ?vs + unat (tx_value ?tx)"
    using assms(2,3) upd
    by (auto simp: exec_by_type_def exec_stake_def Let_def set_validators_def recalculate_total_stake_def
        get_validator_def total_staked_def validator_info_new_def split: prod.splits option.splits)
qed

lemma exec_fair_unstake:
  assumes "rocks_ok P" "exec_by_type P W b i stx acc st = (r, g, acc', st')" "tx_type (stx_transaction stx) = Unstake"
    "gas_cost (stx_transaction stx) < 2 ^ 64"
    "unat (acc_balance acc) + gas_cost (stx_transaction stx) +
      total_staked (vs_validators (ep_validator_set (xs_epoch st))) < 2 ^ 128"
  shows "unat (acc_balance acc') + base_fee (stx_transaction stx) +
      total_staked (vs_validators (ep_validator_set (xs_epoch st'))) =
      unat (acc_balance acc) + gas_cost (stx_transaction stx) +
      total_staked (vs_validators (ep_validator_set (xs_epoch st)))"
    "balance_at P st' = balance_at P st" "g = 21000"
proof -
  let ?tx = "stx_transaction stx" and ?vs = "vs_validators (ep_validator_set (xs_epoch st))"
  have ref: "unat (gas_refund ?tx BASE_GAS) + base_fee ?tx = gas_cost ?tx" by (rule unat_gas_refund [OF assms(4)])
  have "xs_accounts st' = xs_accounts st"
    using assms(2,3) by (auto simp: exec_by_type_def exec_unstake_def Let_def split: option.splits if_splits)
  then show "balance_at P st' = balance_at P st"
    by (simp add: balance_at_def fun_eq_iff load_account_frame [OF exec_by_type_frame(1) [OF assms(1,2)]])
  show "g = 21000"
    using assms(2,3) by (auto simp: exec_by_type_def exec_unstake_def Let_def BASE_GAS_def split: option.splits if_splits)
  let ?drop = "\<lambda>vi. let vi' = vi\<lparr>vi_stake := vi_stake vi - tx_value ?tx\<rparr> in
    if vi_stake vi' < vs_min_stake (ep_validator_set (xs_epoch st)) then vi'\<lparr>vi_is_active := False\<rparr> else vi'"
  have stake: "vi_stake (?drop v) = vi_stake v - tx_value ?tx" for v by (simp add: Let_def)
  have upd: "total_staked (update_validator ?drop (sender stx) ?vs) + unat (tx_value ?tx) = total_staked ?vs"
    "unat (tx_value ?tx) \<le> total_staked ?vs"
    if "find (\<lambda>v. vi_address v = sender stx) ?vs = Some v" "\<not> vi_stake v < tx_value ?tx" for v
    using total_staked_update(1) [OF that(1), of ?drop, unfolded stake] total_staked_update(2) [OF that(1)] that(2)
    by (simp_all add: not_less unat_sub_le word_le_nat_alt)
  show "unat (acc_balance acc') + base_fee ?tx + total_staked (vs_validators (ep_validator_set (xs_epoch st'))) =
      unat (acc_balance acc) + gas_cost ?tx + total_staked ?vs"
  proof (cases "find (\<lambda>v. vi_address v = sender stx) ?vs")
    case None
    then show ?thesis
      using assms(2,3,5) ref by (auto simp: exec_by_type_def exec_unstake_def Let_def get_validator_def balance_add)
  next
    case (Some v)
    show ?thesis
    proof (cases "vi_stake v < tx_value ?tx")
      case True
      then show ?thesis using assms(2,3,5) ref Some
        by (auto simp: exec_by_type_def exec_unstake_def Let_def get_validator_def balance_add)
    next
      case False
      have acc': "acc' = add_balance (add_balance acc (tx_value ?tx)) (gas_refund ?tx BASE_GAS)"
        and st': "vs_validators (ep_validator_set (xs_epoch st')) = update_validator ?drop (sender stx) ?vs"
        using assms(2,3) Some False
        by (auto simp: exec_by_type_def exec_unstake_def get_validator_def set_validators_def
            recalculate_total_stake_def Let_def)
      show ?thesis
        using upd [OF Some False] assms(5) ref by (simp add: acc' st' balance_add)
    qed
  qed
qed
lemma fair_txD:
  assumes "fair_tx S stx"
  shows "sender stx \<in> S" "gas_cost (stx_transaction stx) < 2 ^ 64"
    "unat (tx_value (stx_transaction stx)) + gas_cost (stx_transaction stx) < 2 ^ 128"
    "tx_type (stx_transaction stx) \<in> {Transfer, Stake, Unstake}"
    "tx_type (stx_transaction stx) = Transfer \<Longrightarrow> unwrap_or address_ZERO (tx_to (stx_transaction stx)) \<in> S - {sender stx}"
  using assms by (auto simp: fair_tx_def Let_def)

text \<open>
  Running a fair transaction on the charged account: the other accounts, the charged account,
  the base fee and the stake add up as before.
\<close>

lemma exec_fair_total:
  assumes "rocks_ok P" "finite S" "fair_tx S stx" "tokens P S st < 2 ^ 128"
    "exec_by_type P W b i stx acc st = (r, g, acc', st')"
    "unat (acc_balance acc) + gas_cost (stx_transaction stx) = balance_at P st (sender stx)"
    "unat (tx_value (stx_transaction stx)) \<le> unat (acc_balance acc)"
  shows "(\<Sum>a\<in>S. balance_at P st' a) + unat (acc_balance acc') + base_fee (stx_transaction stx) +
      total_staked (vs_validators (ep_validator_set (xs_epoch st'))) = tokens P S st + balance_at P st (sender stx)"
    "balance_at P st' (sender stx) = balance_at P st (sender stx)" "g = 21000"
proof -
  let ?tx = "stx_transaction stx" and ?to = "unwrap_or address_ZERO (tx_to (stx_transaction stx))"
  note fair = fair_txD [OF assms(3)]
  have le: "balance_at P st (sender stx) \<le> (\<Sum>a\<in>S. balance_at P st a)"
    using assms(2) fair(1) by (simp add: member_le_sum)
  then have small: "unat (acc_balance acc) + gas_cost ?tx < 2 ^ 128" using assms(4,6) by (simp add: tokens_def)
  consider "tx_type ?tx = Transfer" | "tx_type ?tx = Stake" | "tx_type ?tx = Unstake" using fair(4) by blast
  then have "(\<Sum>a\<in>S. balance_at P st' a) + unat (acc_balance acc') + base_fee ?tx +
      total_staked (vs_validators (ep_validator_set (xs_epoch st'))) = tokens P S st + balance_at P st (sender stx) \<and>
    balance_at P st' (sender stx) = balance_at P st (sender stx) \<and> g = 21000"
  proof cases
    case 1
    have to: "?to \<in> S" "?to \<noteq> sender stx" using fair(5) [OF 1] by auto
    have "balance_at P st ?to + balance_at P st (sender stx) \<le> (\<Sum>a\<in>S. balance_at P st a)"
      using sum_mono2 [OF assms(2), of "{?to, sender stx}" "balance_at P st"] to fair(1) by simp
    then have "balance_at P st ?to + unat (tx_value ?tx) < 2 ^ 128"
      using assms(4,6,7) by (simp add: tokens_def)
    note ef = exec_fair_transfer [OF assms(5) 1 fair(2) assms(7) small this]
    have "(\<Sum>a\<in>S. balance_at P st' a) = (\<Sum>a\<in>S. balance_at P st a) + unat (tx_value ?tx)"
      using sum_fun_upd [OF assms(2) to(1), of "balance_at P st" "balance_at P st ?to + unat (tx_value ?tx)", folded ef(2)]
      by simp
    moreover have "balance_at P st' (sender stx) = balance_at P st (sender stx)" using to by (simp add: ef(2))
    ultimately show ?thesis using ef(1,3,4) assms(6) by (simp add: tokens_def)
  next
    case 2
    have "total_staked (vs_validators (ep_validator_set (xs_epoch st))) + unat (tx_value ?tx) < 2 ^ 128"
      using assms(4,6,7) le by (simp add: tokens_def)
    note ef = exec_fair_stake [OF assms(1,5) 2 fair(2) assms(7) small this]
    show ?thesis using ef assms(6) by (simp add: tokens_def)
  next
    case 3
    have "unat (acc_balance acc) + gas_cost ?tx + total_staked (vs_validators (ep_validator_set (xs_epoch st))) < 2 ^ 128"
      using assms(4,6) le by (simp add: tokens_def)
    note ef = exec_fair_unstake [OF assms(1,5) 3 fair(2) this]
    show ?thesis using ef assms(6) by (simp add: tokens_def)
  qed
  then show "(\<Sum>a\<in>S. balance_at P st' a) + unat (acc_balance acc') + base_fee (stx_transaction stx) +
      total_staked (vs_validators (ep_validator_set (xs_epoch st'))) = tokens P S st + balance_at P st (sender stx)"
    "balance_at P st' (sender stx) = balance_at P st (sender stx)" "g = 21000" by blast+
qed

text \<open>
  What a transaction pays for the gas of its receipt: the gas used, or the gas limit where that is
  lower, at its price.
\<close>

definition gas_paid :: "u64 \<Rightarrow> transaction \<Rightarrow> nat" where
  "gas_paid g tx = min (unat g) (unat (tx_gas_limit tx)) * unat (tx_gas_price tx)"

lemma exec_tx_conserves:
  assumes "rocks_ok P" "finite S" "fair_tx S stx" "tokens P S st < 2 ^ 128"
  shows "\<exists>r. xs_receipts (exec_tx P W b (i, stx) st) = xs_receipts st @ [r] \<and>
    tokens P S (exec_tx P W b (i, stx) st) + gas_paid (rc_gas_used r) (stx_transaction stx) = tokens P S st"
proof (cases "admitted P stx st")
  case False
  then show ?thesis using exec_tx_skipped [OF False, of W b i] by (auto simp: tokens_def balance_at_def gas_paid_def)
next
  case True
  let ?tx = "stx_transaction stx"
  let ?acc = "increment_nonce (sub_balance (sender_account P stx st) (max_gas_cost ?tx))"
  note fair = fair_txD [OF assms(3)]
  have "unat (tx_value ?tx) + gas_cost ?tx \<le> balance_at P st (sender stx)"
    using True fair(3) unat_total_cost [of ?tx]
    by (simp add: admitted_def has_sufficient_balance_def balance_at_def gas_cost_def word_le_nat_alt)
  then have acc: "unat (acc_balance ?acc) + gas_cost ?tx = balance_at P st (sender stx)"
      "unat (tx_value ?tx) \<le> unat (acc_balance ?acc)"
    by (simp_all add: balance_sub balance_at_def gas_cost_def)
  from True show ?thesis
  proof (rule exec_tx_admitted [where W = W and b = b and i = i])
    fix r g acc' st'
    assume run: "exec_by_type P W b i stx ?acc st = (r, g, acc', st')"
      and eq: "exec_tx P W b (i, stx) st = st'\<lparr>xs_total_gas := xs_total_gas st' + g,
       xs_accounts := hm_put (sender stx) acc' (xs_accounts st'), xs_receipts := xs_receipts st' @ [r]\<rparr>"
    have bal: "balance_at P (exec_tx P W b (i, stx) st) = (balance_at P st')(sender stx := unat (acc_balance acc'))"
      by (auto simp: eq balance_at_def load_account_put)
    have "xs_epoch (exec_tx P W b (i, stx) st) = xs_epoch st'" by (simp add: eq)
    with sum_fun_upd [OF assms(2) fair(1), of "balance_at P st'" "unat (acc_balance acc')", folded bal]
      exec_fair_total [OF assms run acc]
    have "tokens P S (exec_tx P W b (i, stx) st) + base_fee ?tx = tokens P S st" by (simp add: tokens_def)
    moreover have "xs_receipts (exec_tx P W b (i, stx) st) = xs_receipts st @ [r]" "rc_gas_used r = 21000"
      using exec_by_type_frame(2) [OF assms(1) run] exec_by_type_receipt [OF run] exec_fair_total(3) [OF assms run acc]
      by (simp_all add: eq)
    ultimately show ?thesis by (simp add: base_fee_def gas_paid_def)
  qed
qed

definition fees :: "transaction_receipt list \<Rightarrow> signed_transaction list \<Rightarrow> nat" where
  "fees rs txs = (\<Sum>(r, stx)\<leftarrow>zip rs txs. gas_paid (rc_gas_used r) (stx_transaction stx))"

lemma exec_fold_conserves:
  assumes "rocks_ok P" "finite S" "\<forall>stx \<in> set txs. fair_tx S stx" "tokens P S st < 2 ^ 128"
  shows "\<exists>rs. xs_receipts (fold (exec_tx P W b) (enumerate n txs) st) = xs_receipts st @ rs \<and>
    tokens P S (fold (exec_tx P W b) (enumerate n txs) st) + fees rs txs = tokens P S st"
  using assms(3,4)
proof (induction txs arbitrary: n st)
  case Nil
  then show ?case by (simp add: fees_def)
next
  case (Cons stx txs)
  let ?st = "exec_tx P W b (n, stx) st"
  obtain r where r: "xs_receipts ?st = xs_receipts st @ [r]"
      "tokens P S ?st + gas_paid (rc_gas_used r) (stx_transaction stx) = tokens P S st"
    using exec_tx_conserves [OF assms(1,2), of stx st W b n] Cons.prems by auto
  obtain rs where rs: "xs_receipts (fold (exec_tx P W b) (enumerate (Suc n) txs) ?st) = xs_receipts ?st @ rs"
      "tokens P S (fold (exec_tx P W b) (enumerate (Suc n) txs) ?st) + fees rs txs = tokens P S ?st"
    using Cons.IH [of ?st "Suc n"] Cons.prems r(2) by auto
  show ?case using r rs by (intro exI [of _ "r # rs"]) (simp add: fees_def)
qed

definition chain_tokens :: "('db, 'p) storage_prims_scheme \<Rightarrow> address set \<Rightarrow> 'db chain_state \<Rightarrow> nat" where
  "chain_tokens P S s = (\<Sum>a\<in>S. unat (acc_balance (load_account P (cs_storage s) [] a))) +
     total_staked (vs_validators (ep_validator_set (cs_current_epoch s)))"

text \<open>
  C2 (conservation). When a block of transfers, stakes and unstakes among a set of accounts is
  applied, the balances of the accounts in the database and the stake of the validators add up
  to what they were before, less the gas of the receipts at the price of their transactions,
  where a transaction pays for no more gas than its limit, even though its receipt reports the base
  gas. No transfer goes to its own sender, the gas limit at the gas price stays below \<open>2 ^ 64\<close>, and
  neither the total cost of a transaction nor the sum of all tokens reaches \<open>2 ^ 128\<close>.
\<close>

theorem block_conserves_tokens:
  assumes "storage_ok P" "accounts_keyed P (cs_storage s)" "finite S" "\<forall>stx \<in> set (bk_transactions b). fair_tx S stx"
    "chain_tokens P S s < 2 ^ 128" "apply_block P W s b E = (Ok rs, s', E')"
  shows "chain_tokens P S s' + fees rs (bk_transactions b) = chain_tokens P S s"
proof -
  obtain st db where d: "st = exec_txs P W b (exec_init s E)" "commit_block P b st = Ok db" "rs = xs_receipts st"
      "cs_storage s' = db" "cs_current_epoch s' = xs_epoch st"
    using assms(6) by (cases rule: apply_block_cases) auto
  note ex = exec_block_keyed [OF storage_okD(1) [OF assms(1)] assms(2), of W b E, folded d(1)]
  have "load_account P db [] a = load_account P (xs_db st) (xs_accounts st) a" for a
    using commit_block_view [OF assms(1) d(2) ex(1), of a]
    by (auto simp: load_account_def find_account_def split: option.splits)
  then have "chain_tokens P S s' = tokens P S st"
    by (simp add: chain_tokens_def tokens_def balance_at_def d(4,5))
  moreover have init: "chain_tokens P S s = tokens P S (exec_init s E)"
    by (simp add: chain_tokens_def tokens_def balance_at_def exec_init_def)
  ultimately show ?thesis
    using exec_fold_conserves [OF storage_okD(1) [OF assms(1)] assms(3,4), of "exec_init s E" W b 0] assms(5) d(1,3)
    by (auto simp: exec_txs_def exec_init_def)
qed

theorem block_conserves_tokens_witness:
  "\<exists>s' E'. apply_block pay_prims sending_module pay_state pay_block (wasm_engine_new vm_config_default) = (Ok [pay_receipt], s', E') \<and>
     chain_tokens pay_prims {1, 2} pay_state = 50100 \<and> chain_tokens pay_prims {1, 2} s' = 29100"
proof -
  let ?E = "wasm_engine_new vm_config_default"
  obtain s' where s': "apply_block pay_prims sending_module pay_state pay_block ?E = (Ok [pay_receipt], s', ?E)"
    using pay_applied [of sending_module ?E] by blast
  have "total_staked (vs_validators (ep_validator_set (cs_current_epoch pay_state))) = 100"
    by (simp add: total_staked_def pay_state_def epoch_of_def validator_set_new_def to_validator_infos_def
        example_genesis_def validator_info_new_def)
  then have before: "chain_tokens pay_prims {1, 2} pay_state = 50100"
    by (simp add: chain_tokens_def pay_load account_new_def)
  have fair: "\<forall>stx \<in> set (bk_transactions pay_block). fair_tx {1, 2} stx"
    by (simp add: pay_block_def fair_tx_def pay_stx_def pay_tx_def sender_def gas_cost_def Let_def)
  have "fees [pay_receipt] (bk_transactions pay_block) = 21000"
    by (simp add: fees_def gas_paid_def pay_block_def pay_receipt_in_def mk_receipt_def pay_stx_def pay_tx_def)
  then have "chain_tokens pay_prims {1, 2} s' = 29100"
    using block_conserves_tokens [OF pay_prims_ok pay_keyed _ fair _ s'] before by simp
  with s' before show ?thesis by blast
qed

section \<open>Tokens lost and made up\<close>

text \<open>
  C34 (a transfer to oneself). A transfer whose recipient is its sender is accepted and costs the
  sender the value on top of the fee: the credit is overwritten.
\<close>

theorem self_transfer_burns:
  assumes "admitted P stx st" "tx_type (stx_transaction stx) = Transfer" "tx_to (stx_transaction stx) = Some (sender stx)"
    "gas_cost (stx_transaction stx) < 2 ^ 64" "unat (tx_value (stx_transaction stx)) + gas_cost (stx_transaction stx) < 2 ^ 128"
  shows "balance_at P (exec_tx P W b (i, stx) st) (sender stx) + unat (tx_value (stx_transaction stx)) +
    base_fee (stx_transaction stx) = balance_at P st (sender stx)"
proof -
  let ?tx = "stx_transaction stx"
  let ?acc = "increment_nonce (sub_balance (sender_account P stx st) (max_gas_cost ?tx))"
  have "unat (tx_value ?tx) + gas_cost ?tx \<le> balance_at P st (sender stx)"
    using assms(1,5) unat_total_cost [of ?tx]
    by (simp add: admitted_def has_sufficient_balance_def balance_at_def gas_cost_def word_le_nat_alt)
  moreover from this have "unat (acc_balance ?acc) + gas_cost ?tx = balance_at P st (sender stx)"
    by (simp add: balance_sub balance_at_def gas_cost_def)
  moreover have "balance_at P st (sender stx) < 2 ^ 128"
    using unat_le_max [of "acc_balance (sender_account P stx st)"] by (simp add: balance_at_def)
  ultimately show ?thesis
    using assms(1-3) unat_gas_refund [OF assms(4)]
    by (simp add: exec_tx_def admitted_def Let_def exec_by_type_def exec_transfer_def balance_at_def load_account_put
        balance_add balance_sub gas_cost_def)
qed

text \<open>
  C33 (wrap-around of the total cost). In a release build an account that can pay the gas alone
  passes the balance check with a value of \<open>2 ^ 128\<close> less the gas cost, and the recipient is
  credited with that value.
\<close>

theorem overflow_mints:
  assumes "tx_type (stx_transaction stx) = Transfer" "tx_to (stx_transaction stx) = Some a" "a \<noteq> sender stx"
    "tx_nonce (stx_transaction stx) = acc_nonce (sender_account P stx st)"
    "tx_value (stx_transaction stx) = - max_gas_cost (stx_transaction stx)" "0 < gas_cost (stx_transaction stx)"
    "balance_at P st a = 0"
  shows "balance_at P (exec_tx P W b (i, stx) st) a = 2 ^ 128 - gas_cost (stx_transaction stx)"
proof -
  let ?tx = "stx_transaction stx"
  have "admitted P stx st"
    using assms(4,5) by (simp add: admitted_def has_sufficient_balance_def total_cost_def)
  moreover have "unat (tx_value ?tx) = 2 ^ 128 - gas_cost ?tx"
    using assms(5,6) unat_sub_if' [of 0 "max_gas_cost ?tx"] by (simp add: gas_cost_def)
  moreover have "acc_balance (load_account P (xs_db st) (xs_accounts st) a) = 0"
    using assms(7) by (simp add: balance_at_def unat_eq_zero)
  ultimately show ?thesis
    using assms(1-3)
    by (simp add: exec_tx_def admitted_def Let_def exec_by_type_def exec_transfer_def balance_at_def load_account_put
        add_balance_def)
qed

definition self_pay_stx :: signed_transaction where
  "self_pay_stx = pay_stx\<lparr>stx_transaction := pay_tx\<lparr>tx_to := Some 1\<rparr>\<rparr>"

definition mint_stx :: signed_transaction where
  "mint_stx = pay_stx\<lparr>stx_transaction := pay_tx\<lparr>tx_value := - 22000\<rparr>\<rparr>"

theorem self_transfer_burns_witness:
  "balance_at pay_prims (exec_tx pay_prims sending_module pay_block (0, self_pay_stx) (exec_init pay_state (wasm_engine_new vm_config_default))) 1 = 28990"
proof -
  have "admitted pay_prims self_pay_stx (exec_init pay_state (wasm_engine_new vm_config_default))"
    using pay_admitted [of pay_state pay_block "wasm_engine_new vm_config_default"] by (simp add: admitted_def self_pay_stx_def sender_def pay_stx_def total_cost_def max_gas_cost_def)
  from self_transfer_burns [OF this, of sending_module pay_block 0] show ?thesis
    by (simp add: self_pay_stx_def sender_def pay_stx_def pay_tx_def gas_cost_def base_fee_def balance_at_def
        exec_init_def pay_load account_new_def)
qed

theorem overflow_mints_witness:
  "balance_at pay_prims (exec_tx pay_prims sending_module pay_block (0, mint_stx) (exec_init pay_state (wasm_engine_new vm_config_default))) 2 = 2 ^ 128 - 22000"
  using overflow_mints [of mint_stx 2 pay_prims "exec_init pay_state (wasm_engine_new vm_config_default)" sending_module pay_block 0]
  by (simp add: mint_stx_def pay_stx_def pay_tx_def sender_def max_gas_cost_def gas_cost_def balance_at_def
      exec_init_def pay_load account_new_def)

section \<open>The state root\<close>

definition root_entry :: "address \<times> balance \<times> nonce \<Rightarrow> bytes" where
  "root_entry e = (case e of (a, v, n) \<Rightarrow> to_be_bytes a @ to_le_bytes v @ to_le_bytes n)"

definition root_entries :: "account_map \<Rightarrow> (address \<times> balance \<times> nonce) list" where
  "root_entries m = map (\<lambda>a. (a, acc_balance (the (hm_get m a)), acc_nonce (the (hm_get m a)))) (sort (map fst m))"

definition ledger_view :: "account_map \<Rightarrow> address \<Rightarrow> (balance \<times> nonce) option" where
  "ledger_view m a = map_option (\<lambda>acc. (acc_balance acc, acc_nonce acc)) (hm_get m a)"

lemma state_root_input_entries: "state_root_input m = concat (map root_entry (root_entries m))"
  by (simp add: state_root_input_def root_entries_def root_entry_def Let_def comp_def)

lemma root_entry_append_inject: "root_entry e @ r = root_entry e' @ r' \<longleftrightarrow> e = e' \<and> r = r'"
  by (cases e; cases e') (auto simp: root_entry_def codec_simps)

lemma root_entry_nonempty [simp]: "root_entry e \<noteq> []"
  by (cases e) (simp add: root_entry_def flip: length_0_conv)

lemma root_entries_inject: "concat (map root_entry es) = concat (map root_entry es') \<longleftrightarrow> es = es'"
proof (induction es arbitrary: es')
  case Nil
  then show ?case by (cases es') simp_all
next
  case (Cons e es)
  then show ?case by (cases es') (simp_all add: root_entry_append_inject)
qed

lemma set_root_entries:
  assumes "hm_wf m"
  shows "set (root_entries m) = {(a, x). ledger_view m a = Some x}"
proof -
  have "a \<in> fst ` set m \<longleftrightarrow> (\<exists>acc. hm_get m a = Some acc)" for a
    by (metis domIff dom_map_of_conv_image_fst not_Some_eq)
  then show ?thesis by (force simp: root_entries_def ledger_view_def)
qed

lemma root_entries_eq_iff:
  assumes "hm_wf m" "hm_wf m'"
  shows "root_entries m = root_entries m' \<longleftrightarrow> ledger_view m = ledger_view m'"
proof
  assume "root_entries m = root_entries m'"
  then have "{(a, x). ledger_view m a = Some x} = {(a, x). ledger_view m' a = Some x}"
    using set_root_entries [OF assms(1)] set_root_entries [OF assms(2)] by simp
  then have "ledger_view m a = Some x \<longleftrightarrow> ledger_view m' a = Some x" for a x
    by (cases x) (simp add: set_eq_iff)
  then show "ledger_view m = ledger_view m'" by (metis ext option.exhaust)
next
  assume eq: "ledger_view m = ledger_view m'"
  have keys: "sorted (map fst (root_entries k)) \<and> distinct (map fst (root_entries k))" if "hm_wf k" for k
    using that by (simp add: root_entries_def comp_def hm_wf_def)
  have sets: "set (root_entries m) = set (root_entries m')" by (simp add: set_root_entries assms eq)
  have "inj_on fst (set (root_entries m) \<union> set (root_entries m'))"
    using keys [OF assms(1)] by (simp add: sets [symmetric] distinct_map)
  with keys [OF assms(1)] keys [OF assms(2)] sets show "root_entries m = root_entries m'"
    by (blast intro: map_sorted_distinct_set_unique [where f = fst])
qed

text \<open>
  The state root is canonical. The root depends only on the balance and nonce of each
  modified account, not on the order in which the hash map lists them; and, as long as Blake3
  neither collides on the two inputs nor maps them to zero, two sets of modified accounts have
  the same root exactly when they agree on every address.
\<close>

theorem state_root_canonical:
  assumes "hm_wf m" "hm_wf m'"
    "hash P (state_root_input m) = hash P (state_root_input m') \<longrightarrow> state_root_input m = state_root_input m'"
    "hash P (state_root_input m) \<noteq> hash_ZERO" "hash P (state_root_input m') \<noteq> hash_ZERO"
  shows "compute_state_root P m = compute_state_root P m' \<longleftrightarrow> ledger_view m = ledger_view m'"
proof -
  have input: "state_root_input m = state_root_input m' \<longleftrightarrow> ledger_view m = ledger_view m'"
    by (simp add: state_root_input_entries root_entries_inject root_entries_eq_iff assms)
  have empty: "ledger_view k = ledger_view [] \<longleftrightarrow> k = []" for k
    by (cases k) (auto simp: ledger_view_def fun_eq_iff split: if_splits)
  show ?thesis
    using assms(3-) input empty [of m] empty [of m'] by (auto simp: compute_state_root_def)
qed

definition length_prims :: crypto_prims where
  "length_prims = example_prims\<lparr>blake3 := (\<lambda>bs. of_nat (Suc (length bs)))\<rparr>"

theorem state_root_canonical_witness:
  "compute_state_root length_prims [(1, payer), (2, payee_after)] = compute_state_root length_prims [(2, payee_after), (1, payer)]"
proof -
  let ?m = "[(1, payer), (2, payee_after)]" and ?m' = "[(2, payee_after), (1, payer)]"
  have "ledger_view ?m = ledger_view ?m'" by (auto simp: ledger_view_def)
  moreover have "state_root_input ?m = state_root_input ?m'"
    by (simp add: state_root_input_def Let_def word_le_nat_alt)
  moreover have "length (state_root_input ?m) = 88" by (simp add: state_root_input_def Let_def)
  ultimately show ?thesis
    using state_root_canonical [of ?m ?m' length_prims]
    by (simp add: hm_wf_def hash_def length_prims_def)
qed

section \<open>The next epoch\<close>

lemma unjail_address [simp]: "vi_address (unjail cp now v) = vi_address v" "vi_stake (unjail cp now v) = vi_stake v"
  by (simp_all add: unjail_def Let_def split: option.split)

lemma sorted_by_stake: "sorted_wrt (\<lambda>a b. vi_stake b \<le> vi_stake a) (sort_by (\<lambda>a b. vi_stake b \<le> vi_stake a) vs)"
  by (rule sorted_sort_by) auto

lemma sorted_wrt_take_drop: "sorted_wrt R xs \<Longrightarrow> a \<in> set (take n xs) \<Longrightarrow> b \<in> set (drop n xs) \<Longrightarrow> R a b"
  by (metis append_take_drop_id sorted_wrt_append)

text \<open>
  The validators of the next epoch. At the last block of an epoch the next one starts at the
  following block and lasts the configured number of blocks. Its validators are, in order of
  falling stake, at most the maximum number of present validators with the minimum stake, each
  released if its jail time has passed; and a present validator with the minimum stake that was
  left out has no more stake than any that was kept, the number kept then being the maximum.
\<close>

theorem next_epoch_validators:
  assumes "maybe_advance_epoch P now s cp = (Ok (Some ep), s')"
  shows "cs_height s = ep_end_block (cs_current_epoch s) \<and> cs_current_epoch s' = ep \<and>
    ep_start_block ep = cs_height s + 1 \<and> ep_end_block ep = cs_height s + cp_epoch_length cp \<and>
    sorted_wrt (\<lambda>a b. vi_stake b \<le> vi_stake a) (vs_validators (ep_validator_set ep)) \<and>
    length (vs_validators (ep_validator_set ep)) \<le> unat (cp_max_validators cp) \<and>
    (\<forall>v \<in> set (vs_validators (ep_validator_set ep)). cp_min_stake cp \<le> vi_stake v \<and>
       (\<exists>w \<in> set (vs_validators (ep_validator_set (cs_current_epoch s))). v = unjail cp now w)) \<and>
    (\<forall>w \<in> set (vs_validators (ep_validator_set (cs_current_epoch s))).
       cp_min_stake cp \<le> vi_stake w \<and> unjail cp now w \<notin> set (vs_validators (ep_validator_set ep)) \<longrightarrow>
       length (vs_validators (ep_validator_set ep)) = unat (cp_max_validators cp) \<and>
       (\<forall>v \<in> set (vs_validators (ep_validator_set ep)). vi_stake w \<le> vi_stake v))"
proof -
  let ?vs = "vs_validators (ep_validator_set (cs_current_epoch s))" and ?n = "unat (cp_max_validators cp)"
  define xs where "xs = sort_by (\<lambda>a b. vi_stake b \<le> vi_stake a)
    (filter (\<lambda>v. cp_min_stake cp \<le> vi_stake v) (map (unjail cp now) ?vs))"
  have ep: "is_last_block (cs_current_epoch s) (cs_height s)" "cs_current_epoch s' = ep"
    "ep_start_block ep = cs_height s + 1" "ep_end_block ep = cs_height s + 1 + cp_epoch_length cp - 1"
    "vs_validators (ep_validator_set ep) = take ?n xs"
    using assms by (auto simp: maybe_advance_epoch_def Let_def validator_set_new_def next_validators_def xs_def
        split: if_splits sum.splits)
  have sorted: "sorted_wrt (\<lambda>a b. vi_stake b \<le> vi_stake a) xs" unfolding xs_def by (rule sorted_by_stake)
  have set: "set xs = {v \<in> unjail cp now ` set ?vs. cp_min_stake cp \<le> vi_stake v}" by (auto simp: xs_def)
  have out: "length (take ?n xs) = ?n \<and> (\<forall>v \<in> set (take ?n xs). vi_stake w \<le> vi_stake v)"
    if w: "w \<in> set ?vs" "cp_min_stake cp \<le> vi_stake w" "unjail cp now w \<notin> set (take ?n xs)" for w
  proof -
    have "unjail cp now w \<in> set xs" using w(1,2) by (auto simp: set)
    then have dropped: "unjail cp now w \<in> set (drop ?n xs)"
      using w(3) by (metis UnE append_take_drop_id set_append)
    then have "?n < length xs" by (metis drop_all empty_iff leI list.set(1))
    moreover have "vi_stake w \<le> vi_stake v" if "v \<in> set (take ?n xs)" for v
      using sorted_wrt_take_drop [OF sorted that dropped] by simp
    ultimately show ?thesis by simp
  qed
  show ?thesis
    using ep sorted set out
    by (auto simp: is_last_block_def sorted_wrt_take dest: in_set_takeD)
qed

definition example_cp :: consensus_params where
  "example_cp = consensus_params_default\<lparr>cp_min_stake := 10, cp_epoch_length := 5, cp_max_validators := 2\<rparr>"

definition example_next_epoch :: epoch_info where
  "example_next_epoch = \<lparr>ep_number = 1, ep_start_block = 5, ep_end_block = 9,
     ep_validator_set = validator_set_new [validator_info_new 3 3 30, validator_info_new 1 1 20] 10 2,
     ep_finalized_block = None\<rparr>"

definition example_epoch_state :: "mem_db chain_state" where
  "example_epoch_state = pay_state\<lparr>cs_height := 4, cs_current_epoch := (epoch_of example_genesis 0 0 4)
     \<lparr>ep_validator_set := validator_set_new [(validator_info_new 1 1 20)\<lparr>vi_jailed_until := Some 50, vi_is_active := False\<rparr>,
        validator_info_new 2 2 5, validator_info_new 3 3 30, validator_info_new 4 4 10] 10 2\<rparr>\<rparr>"

theorem next_epoch_validators_witness:
  "\<exists>s'. maybe_advance_epoch (mem_prims [] [] [] [] [] [] [example_next_epoch]) 100 example_epoch_state example_cp =
      (Ok (Some example_next_epoch), s') \<and> cs_current_epoch s' = example_next_epoch"
proof -
  let ?P = "mem_prims [] [] [] [] [] [] [example_next_epoch]" and ?s = example_epoch_state
  have vals: "next_validators example_cp 100 (vs_validators (ep_validator_set (cs_current_epoch ?s))) =
      [validator_info_new 3 3 30, validator_info_new 1 1 20]"
    by (simp add: next_validators_def example_cp_def example_epoch_state_def validator_set_new_def
        validator_info_new_def unjail_def sort_by_def Let_def word_le_nat_alt)
  have last: "is_last_block (cs_current_epoch ?s) (cs_height ?s)" "cs_height ?s = 4" "ep_number (cs_current_epoch ?s) = 0"
    by (simp_all add: is_last_block_def example_epoch_state_def epoch_of_def)
  have cp: "cp_epoch_length example_cp = 5" "cp_min_stake example_cp = 10" "cp_max_validators example_cp = 2"
    by (simp_all add: example_cp_def)
  obtain db where "put_epoch ?P (cs_storage ?s) example_next_epoch = Ok db"
    using put_typed_mem [of example_next_epoch "[example_next_epoch]" EPOCHS] unfolding put_epoch_def by fastforce
  then have "\<exists>s'. maybe_advance_epoch ?P 100 ?s example_cp = (Ok (Some example_next_epoch), s')"
    using last by (simp add: maybe_advance_epoch_def vals cp Let_def flip: example_next_epoch_def)
  then show ?thesis using next_epoch_validators by blast
qed

end
