(* ===== verification/Engine.thy ===== *)
theory Engine
  imports Ledger
begin

text \<open>
  The consensus engine (\<open>crates/consensus/src/engine.rs\<close>): it ties the chain state, the
  transaction pool, finality, slashing and the virtual machine together. Every handler is a
  function from the engine to its result and the engine afterwards, also when the result is an
  error. The chain state and the engine share one database (one \<open>Arc\<close>). Readings of the clock are
  arguments: \<open>clock i\<close> is the i-th reading of a handler. Events sent to subscribers are
  appended to a list.

  Shown: in every engine that can be reached the stored chain is linked and the pool is within its
  bounds; a block is accepted only after every check; a block that used gas is announced under
  another hash than the one its producer builds on.
\<close>

section \<open>State\<close>

datatype consensus_event =
    NewBlock block
  | BlockFinalized block_number
  | EpochChanged epoch_info
  | TransactionPooled blake3hash

record consensus_config =
  cc_chain_id :: chain_id
  cc_block_time_ms :: u64
  cc_max_transactions_per_block :: nat
  cc_mempool_size :: nat
  cc_min_gas_price :: gas_price
  cc_enable_block_production :: bool
  cc_consensus_params :: consensus_params
  cc_gas_limit_per_block :: gas

definition consensus_config_default :: consensus_config where
  "consensus_config_default = \<lparr>cc_chain_id = 1, cc_block_time_ms = 5000, cc_max_transactions_per_block = 1000,
     cc_mempool_size = 10000, cc_min_gas_price = 1, cc_enable_block_production = False,
     cc_consensus_params = consensus_params_default, cc_gas_limit_per_block = 10000000\<rparr>"

record chain_info =
  ci_chain_id :: chain_id
  ci_height :: block_number
  ci_best_block_hash :: blake3hash
  ci_epoch :: epoch_number
  ci_finalized_height :: block_number
  ci_pending_transactions :: nat
  ci_active_validators :: nat

record ('db, 'm) consensus_engine =
  ce_config :: consensus_config
  ce_chain_state :: "'db chain_state"
  ce_tx_pool :: transaction_pool
  ce_finality :: finality_engine
  ce_vm_engine :: "'m wasm_engine"
  ce_keypair :: "key_pair option"
  ce_seen_blocks :: "(block_number \<times> address, blake3hash) hmap"
  ce_events :: "consensus_event list"

text \<open>\<open>None\<close> is a panic of \<open>ChainState::from_genesis\<close>.\<close>

definition consensus_engine_new :: "('db, 'p) storage_prims_scheme \<Rightarrow> consensus_config \<Rightarrow> genesis_config \<Rightarrow> 'db \<Rightarrow>
    'm wasm_engine \<Rightarrow> key_pair option \<Rightarrow> (consensus_error + ('db, 'm) consensus_engine) option" where
  "consensus_engine_new P cfg g db vm kp = map_option (map_ok (\<lambda>cs.
     \<lparr>ce_config = cfg, ce_chain_state = cs,
      ce_tx_pool = pool_new (cc_mempool_size cfg) (cc_min_gas_price cfg),
      ce_finality = finality_engine_new (ep_validator_set (cs_current_epoch cs)),
      ce_vm_engine = vm, ce_keypair = kp, ce_seen_blocks = [], ce_events = []\<rparr>)) (from_genesis P g db)"

definition send_event :: "consensus_event \<Rightarrow> ('db, 'm) consensus_engine \<Rightarrow> ('db, 'm) consensus_engine" where
  "send_event e en = en\<lparr>ce_events := ce_events en @ [e]\<rparr>"

section \<open>Producing blocks\<close>

definition proposal :: "('db, 'p) storage_prims_scheme \<Rightarrow> consensus_config \<Rightarrow> block \<Rightarrow> epoch_info \<Rightarrow> key_pair \<Rightarrow>
    signed_transaction list \<Rightarrow> timestamp \<Rightarrow> block" where
  "proposal P cfg parent epoch kp txs now = \<lparr>
     bk_header = \<lparr>bh_version = PROTOCOL_VERSION, bh_chain_id = cc_chain_id cfg,
       bh_number = bh_number (bk_header parent) + 1, bh_timestamp = now, bh_parent_hash = block_hash P parent,
       bh_state_root = hash_ZERO,
       bh_transactions_root = compute_merkle_root P (map (\<lambda>stx. to_be_bytes (stx_hash stx)) txs),
       bh_receipts_root = hash_ZERO, bh_validator = keypair_address P kp,
       bh_validator_pubkey = keypair_public_key P kp, bh_validator_signature = signature_default,
       bh_epoch = ep_number epoch, bh_gas_used = 0, bh_gas_limit = cc_gas_limit_per_block cfg, bh_extra_data = []\<rparr>,
     bk_transactions = txs\<rparr>"

definition seal :: "('db, 'p) storage_prims_scheme \<Rightarrow> key_pair \<Rightarrow> transaction_receipt list \<Rightarrow> block \<Rightarrow> block" where
  "seal P kp rs b = b\<lparr>bk_header := header_sign P ((bk_header b)\<lparr>bh_gas_used := sum_list (map rc_gas_used rs)\<rparr>) kp\<rparr>"

text \<open>The end both handlers of blocks share: prune the pool, then advance the epoch.\<close>

definition after_apply :: "('db, 'p) storage_prims_scheme \<Rightarrow> timestamp \<Rightarrow> blake3hash list \<Rightarrow> ('db, 'm) consensus_engine \<Rightarrow>
    (consensus_error + unit) \<times> ('db, 'm) consensus_engine" where
  "after_apply P now hs en =
     (let en1 = en\<lparr>ce_tx_pool := prune_committed (ce_tx_pool en) hs\<rparr> in
      case maybe_advance_epoch P now (ce_chain_state en1) (cc_consensus_params (ce_config en1)) of
        (Err e, cs) \<Rightarrow> (Err e, en1\<lparr>ce_chain_state := cs\<rparr>)
      | (Ok None, cs) \<Rightarrow> (Ok (), en1\<lparr>ce_chain_state := cs\<rparr>)
      | (Ok (Some ep), cs) \<Rightarrow> (Ok (), send_event (EpochChanged ep)
          (en1\<lparr>ce_chain_state := cs, ce_finality := update_validator_set (ce_finality en1) (ep_validator_set ep)\<rparr>)))"

definition try_produce_block :: "('db, 'p) storage_prims_scheme \<Rightarrow> ('m, 'i) wasmtime \<Rightarrow> rng \<Rightarrow> (nat \<Rightarrow> timestamp) \<Rightarrow>
    key_pair \<Rightarrow> ('db, 'm) consensus_engine \<Rightarrow> (consensus_error + unit) \<times> ('db, 'm) consensus_engine" where
  "try_produce_block P W gen_range clock kp en =
     (let parent = cs_head (ce_chain_state en); epoch = cs_current_epoch (ce_chain_state en);
          next_number = bh_number (bk_header parent) + 1 in
      case select_proposer P gen_range (active_validators (ep_validator_set epoch)) (block_hash P parent) next_number of
        Err e \<Rightarrow> (Err e, en)
      | Ok proposer \<Rightarrow>
          if proposer \<noteq> keypair_address P kp then (Ok (), en)
          else
            (let txs = select_transactions (ce_tx_pool en) (cc_gas_limit_per_block (ce_config en))
                   (cc_max_transactions_per_block (ce_config en));
                 b = proposal P (ce_config en) parent epoch kp txs (clock 0) in
             case apply_block P W (ce_chain_state en) b (ce_vm_engine en) of
               (Err e, cs, vm) \<Rightarrow> (Err e, en\<lparr>ce_chain_state := cs, ce_vm_engine := vm\<rparr>)
             | (Ok rs, cs, vm) \<Rightarrow>
                 (let sealed = seal P kp rs b in
                  case after_apply P (clock 1) (map stx_hash txs) (en\<lparr>ce_chain_state := cs, ce_vm_engine := vm\<rparr>) of
                    (Err e, en1) \<Rightarrow> (Err e, en1)
                  | (Ok _, en1) \<Rightarrow>
                      (let vote = finality_vote_new P next_number (block_hash P sealed) kp (clock 2);
                           fe = (case add_vote P (ce_finality en1) vote of Ok (_, fe) \<Rightarrow> fe | Err _ \<Rightarrow> ce_finality en1)
                       in (Ok (), send_event (NewBlock sealed) (en1\<lparr>ce_finality := fe\<rparr>))))))"

text \<open>
  The main loop: one attempt per tick of the timer until shutdown; a failed attempt is logged.
  Without block production, or without a key, it does nothing.
\<close>

definition start :: "('db, 'p) storage_prims_scheme \<Rightarrow> ('m, 'i) wasmtime \<Rightarrow> rng \<Rightarrow> (nat \<Rightarrow> timestamp) list \<Rightarrow>
    ('db, 'm) consensus_engine \<Rightarrow> (consensus_error + unit) \<times> ('db, 'm) consensus_engine" where
  "start P W gen_range ticks en =
     (if \<not> cc_enable_block_production (ce_config en) then (Ok (), en)
      else case ce_keypair en of
        None \<Rightarrow> (Err NotValidator, en)
      | Some kp \<Rightarrow> (Ok (), fold (\<lambda>clock en. snd (try_produce_block P W gen_range clock kp en)) ticks en))"

section \<open>Messages from the network\<close>

text \<open>The penalty is written to the database only; the validator set of the epoch keeps its stake.\<close>

definition slash_double_sign :: "('db, 'p) storage_prims_scheme \<Rightarrow> timestamp \<Rightarrow> slash_reason \<Rightarrow> address \<Rightarrow>
    ('db, 'm) consensus_engine \<Rightarrow> ('db, 'm) consensus_engine" where
  "slash_double_sign P now evidence v en =
     (let cs = ce_chain_state en; params = cc_consensus_params (ce_config en) in
      case get_validator (ep_validator_set (cs_current_epoch cs)) v of
        None \<Rightarrow> en
      | Some vi \<Rightarrow>
         (case evaluate_evidence params evidence vi of
            None \<Rightarrow> en
          | Some penalty \<Rightarrow>
              en\<lparr>ce_chain_state := cs\<lparr>cs_storage := save_validator P (cs_storage cs) (apply_slash params vi penalty now)\<rparr>\<rparr>))"

definition accept_block :: "('db, 'p) storage_prims_scheme \<Rightarrow> ('m, 'i) wasmtime \<Rightarrow> timestamp \<Rightarrow> block \<Rightarrow>
    ('db, 'm) consensus_engine \<Rightarrow> (consensus_error + unit) \<times> ('db, 'm) consensus_engine" where
  "accept_block P W now b en =
     (case apply_block P W (ce_chain_state en) b (ce_vm_engine en) of
        (Err e, cs, vm) \<Rightarrow> (Err e, en\<lparr>ce_chain_state := cs, ce_vm_engine := vm\<rparr>)
      | (Ok rs, cs, vm) \<Rightarrow>
          (case after_apply P now (map stx_hash (bk_transactions b)) (en\<lparr>ce_chain_state := cs, ce_vm_engine := vm\<rparr>) of
             (Err e, en1) \<Rightarrow> (Err e, en1)
           | (Ok _, en1) \<Rightarrow> (Ok (), send_event (NewBlock b) en1)))"

definition check_block :: "('db, 'p) storage_prims_scheme \<Rightarrow> rng \<Rightarrow> block \<Rightarrow> ('db, 'm) consensus_engine \<Rightarrow> consensus_error + unit" where
  "check_block P gen_range b en =
     and_then (map_err ConsCore (block_validate_basic P b)) (\<lambda>_.
     and_then (verify_proposer P gen_range (bh_validator (bk_header b))
         (active_validators (ep_validator_set (cs_current_epoch (ce_chain_state en))))
         (block_hash P (cs_head (ce_chain_state en))) (bh_number (bk_header b))) (\<lambda>_.
       map_err ConsCore (verify_signature P (bk_header b))))"

definition on_block_received :: "('db, 'p) storage_prims_scheme \<Rightarrow> ('m, 'i) wasmtime \<Rightarrow> rng \<Rightarrow> (nat \<Rightarrow> timestamp) \<Rightarrow>
    block \<Rightarrow> ('db, 'm) consensus_engine \<Rightarrow> (consensus_error + unit) \<times> ('db, 'm) consensus_engine" where
  "on_block_received P W gen_range clock b en =
     (case check_block P gen_range b en of
        Err e \<Rightarrow> (Err e, en)
      | Ok _ \<Rightarrow>
          (let bhash = block_hash P b; key = (bh_number (bk_header b), bh_validator (bk_header b)) in
           case hm_get (ce_seen_blocks en) key of
             None \<Rightarrow> accept_block P W (clock 1) b (en\<lparr>ce_seen_blocks := hm_put key bhash (ce_seen_blocks en)\<rparr>)
           | Some prev \<Rightarrow>
               if prev \<noteq> bhash then
                 (case detect_double_sign prev bhash (bh_number (bk_header b)) of
                    Some evidence \<Rightarrow> (Err (ConsInvalidBlock ''double-sign detected''),
                      slash_double_sign P (clock 0) evidence (bh_validator (bk_header b)) en)
                  | None \<Rightarrow> accept_block P W (clock 1) b en)
               else accept_block P W (clock 1) b en))"

definition on_transaction_received :: "('db, 'p) storage_prims_scheme \<Rightarrow> nat \<Rightarrow> signed_transaction \<Rightarrow>
    ('db, 'm) consensus_engine \<Rightarrow> (consensus_error + unit) \<times> ('db, 'm) consensus_engine" where
  "on_transaction_received P now stx en =
     (case pool_insert P now (ce_tx_pool en) stx of
        Err e \<Rightarrow> (Err e, en)
      | Ok pool \<Rightarrow> (Ok (), send_event (TransactionPooled (stx_hash stx)) (en\<lparr>ce_tx_pool := pool\<rparr>)))"

definition on_vote_received :: "('db, 'p) storage_prims_scheme \<Rightarrow> finality_vote \<Rightarrow>
    ('db, 'm) consensus_engine \<Rightarrow> (consensus_error + unit) \<times> ('db, 'm) consensus_engine" where
  "on_vote_received P v en =
     (case add_vote P (ce_finality en) v of
        Err e \<Rightarrow> (Err e, en)
      | Ok (status, fe) \<Rightarrow>
          (let en1 = en\<lparr>ce_finality := fe\<rparr> in
           (Ok (), if status = Finalized then send_event (BlockFinalized (fe_finalized_height fe)) en1 else en1)))"

definition chain_info_of :: "('db, 'p) storage_prims_scheme \<Rightarrow> ('db, 'm) consensus_engine \<Rightarrow> chain_info" where
  "chain_info_of P en = (let s = ce_chain_state en in
     \<lparr>ci_chain_id = cc_chain_id (ce_config en), ci_height = cs_height s,
      ci_best_block_hash = block_hash P (cs_head s), ci_epoch = ep_number (cs_current_epoch s),
      ci_finalized_height = fe_finalized_height (ce_finality en),
      ci_pending_transactions = pending_count (ce_tx_pool en),
      ci_active_validators = length (active_validators (ep_validator_set (cs_current_epoch s)))\<rparr>)"

section \<open>The engine keeps its parts consistent\<close>

text \<open>
  The engines a node can reach from a fresh database: any sequence of attempts to produce a
  block and of blocks, transactions and votes from the network, with whatever results.
\<close>

inductive engine_reachable :: "('db, 'p) storage_prims_scheme \<Rightarrow> ('m, 'i) wasmtime \<Rightarrow> rng \<Rightarrow> genesis_config \<Rightarrow>
    ('db, 'm) consensus_engine \<Rightarrow> bool" for P W gen_range g where
  created: "get_genesis_hash P db = Ok None \<Longrightarrow> (\<And>a. get_account P db a = Ok None) \<Longrightarrow>
    consensus_engine_new P cfg g db vm kp = Some (Ok en) \<Longrightarrow> engine_reachable P W gen_range g en"
| produced: "engine_reachable P W gen_range g en \<Longrightarrow> cs_height (ce_chain_state en) \<noteq> - 1 \<Longrightarrow>
    try_produce_block P W gen_range clock kp en = (r, en') \<Longrightarrow> engine_reachable P W gen_range g en'"
| received: "engine_reachable P W gen_range g en \<Longrightarrow> cs_height (ce_chain_state en) \<noteq> - 1 \<Longrightarrow>
    on_block_received P W gen_range clock b en = (r, en') \<Longrightarrow> engine_reachable P W gen_range g en'"
| pooled: "engine_reachable P W gen_range g en \<Longrightarrow> on_transaction_received P now stx en = (r, en') \<Longrightarrow>
    engine_reachable P W gen_range g en'"
| voted: "engine_reachable P W gen_range g en \<Longrightarrow> on_vote_received P v en = (r, en') \<Longrightarrow>
    engine_reachable P W gen_range g en'"

definition engine_inv :: "('db, 'p) storage_prims_scheme \<Rightarrow> genesis_config \<Rightarrow> ('db, 'm) consensus_engine \<Rightarrow> bool" where
  "engine_inv P g en \<longleftrightarrow> chain_inv P g (ce_chain_state en) \<and> pool_inv P (ce_tx_pool en) \<and>
     tp_max_size (ce_tx_pool en) = cc_mempool_size (ce_config en)"

lemma remove_all_max_size [simp]: "tp_max_size (remove_all hs pool) = tp_max_size pool"
proof -
  have "tp_max_size (snd (pool_remove q h)) = tp_max_size q" for q h
    by (auto simp: pool_remove_def Let_def split: option.splits)
  then show ?thesis unfolding remove_all_def by (induction hs arbitrary: pool) auto
qed

lemma pool_insert_max_size: "pool_insert P now pool tx = Ok pool' \<Longrightarrow> tp_max_size pool' = tp_max_size pool"
  by (auto simp: pool_insert_def Let_def result_simps split: if_splits)

lemma send_event_simps [simp]:
  "ce_chain_state (send_event e en) = ce_chain_state en" "ce_tx_pool (send_event e en) = ce_tx_pool en"
  "ce_config (send_event e en) = ce_config en" "ce_finality (send_event e en) = ce_finality en"
  by (simp_all add: send_event_def)

lemma engine_inv_simps [simp]:
  "engine_inv P g (send_event e en) = engine_inv P g en" "engine_inv P g (en\<lparr>ce_finality := fe\<rparr>) = engine_inv P g en"
  "engine_inv P g (en\<lparr>ce_seen_blocks := m\<rparr>) = engine_inv P g en"
  by (simp_all add: engine_inv_def)

lemma after_apply_inv:
  assumes "storage_ok P" "engine_inv P g en" "after_apply P now hs en = (r, en')"
  shows "engine_inv P g en'"
proof -
  obtain q cs where m: "maybe_advance_epoch P now (ce_chain_state en) (cc_consensus_params (ce_config en)) = (q, cs)"
    by force
  have "chain_inv P g cs" using maybe_advance_epoch_inv [OF assms(1) _ m] assms(2) by (simp add: engine_inv_def)
  then have "engine_inv P g (en\<lparr>ce_tx_pool := prune_committed (ce_tx_pool en) hs, ce_chain_state := cs\<rparr>)"
    using assms(2) by (simp add: engine_inv_def prune_committed_def remove_all_inv)
  then show ?thesis
    using assms(3) m by (auto simp: after_apply_def Let_def engine_inv_def split: sum.splits option.splits)
qed

lemma applied_inv:
  assumes "storage_ok P" "engine_inv P g en" "cs_height (ce_chain_state en) \<noteq> - 1"
    "apply_block P W (ce_chain_state en) b (ce_vm_engine en) = (r, cs, vm)"
  shows "engine_inv P g (en\<lparr>ce_chain_state := cs, ce_vm_engine := vm\<rparr>)"
  using assms(2,3) apply_block_inv [OF assms(1) _ _ assms(4)] by (simp add: engine_inv_def)

lemma accept_block_inv:
  assumes "storage_ok P" "engine_inv P g en" "cs_height (ce_chain_state en) \<noteq> - 1" "accept_block P W now b en = (r, en')"
  shows "engine_inv P g en'"
proof -
  obtain q cs vm where a: "apply_block P W (ce_chain_state en) b (ce_vm_engine en) = (q, cs, vm)" by (rule prod_cases3)
  note inv = applied_inv [OF assms(1-3) a]
  obtain q2 en2 where p: "after_apply P now (map stx_hash (bk_transactions b)) (en\<lparr>ce_chain_state := cs, ce_vm_engine := vm\<rparr>) = (q2, en2)"
    by force
  show ?thesis
    using assms(4) a p inv after_apply_inv [OF assms(1) inv p]
    by (auto simp: accept_block_def split: sum.splits)
qed

lemma try_produce_block_inv:
  assumes "storage_ok P" "engine_inv P g en" "cs_height (ce_chain_state en) \<noteq> - 1"
    "try_produce_block P W gen_range clock kp en = (r, en')"
  shows "engine_inv P g en'"
proof -
  let ?txs = "select_transactions (ce_tx_pool en) (cc_gas_limit_per_block (ce_config en)) (cc_max_transactions_per_block (ce_config en))"
  let ?b = "proposal P (ce_config en) (cs_head (ce_chain_state en)) (cs_current_epoch (ce_chain_state en)) kp ?txs (clock 0)"
  obtain q cs vm where a: "apply_block P W (ce_chain_state en) ?b (ce_vm_engine en) = (q, cs, vm)" by (rule prod_cases3)
  note inv = applied_inv [OF assms(1-3) a]
  obtain q2 en2 where p: "after_apply P (clock 1) (map stx_hash ?txs) (en\<lparr>ce_chain_state := cs, ce_vm_engine := vm\<rparr>) = (q2, en2)"
    by force
  show ?thesis
    using assms(2,4) a p inv after_apply_inv [OF assms(1) inv p]
    by (auto simp: try_produce_block_def Let_def split: sum.splits if_splits)
qed

lemma slash_double_sign_inv:
  assumes "storage_ok P" "engine_inv P g en"
  shows "engine_inv P g (slash_double_sign P now ev v en)"
proof -
  have "chain_inv P g ((ce_chain_state en)\<lparr>cs_storage := save_validator P (cs_storage (ce_chain_state en)) vi\<rparr>)" for vi
    by (rule chain_inv_frame [OF _ _ exec_cfs_others(3,1,4), where s = "ce_chain_state en"])
      (use assms(2) save_validator_frame [OF storage_okD(1) [OF assms(1)]] in \<open>simp_all add: engine_inv_def\<close>)
  then show ?thesis
    using assms(2) by (auto simp: slash_double_sign_def engine_inv_def Let_def split: option.splits)
qed

lemma on_block_received_inv:
  assumes "storage_ok P" "engine_inv P g en" "cs_height (ce_chain_state en) \<noteq> - 1"
    "on_block_received P W gen_range clock b en = (r, en')"
  shows "engine_inv P g en'"
proof -
  have acc: "engine_inv P g en'" if "accept_block P W (clock 1) b en = (r, en')"
    by (rule accept_block_inv [OF assms(1-3) that])
  have acc_new: "engine_inv P g en'" if "accept_block P W (clock 1) b (en\<lparr>ce_seen_blocks := m\<rparr>) = (r, en')" for m
    by (rule accept_block_inv [OF assms(1) _ _ that]) (use assms(2,3) in simp_all)
  show ?thesis
    using assms(2,4) slash_double_sign_inv [OF assms(1,2)] acc acc_new
    by (auto simp: on_block_received_def Let_def split: sum.splits option.splits if_splits)
qed

lemma engine_reachable_inv:
  assumes "storage_ok P" "engine_reachable P W gen_range g en"
  shows "engine_inv P g en"
  using assms(2)
proof induction
  case (created db cfg vm kp en)
  then obtain cs where cs: "from_genesis P g db = Some (Ok cs)" "ce_chain_state en = cs" "ce_config en = cfg"
      "ce_tx_pool en = pool_new (cc_mempool_size cfg) (cc_min_gas_price cfg)"
    by (auto simp: consensus_engine_new_def map_ok_eq_Ok)
  then show ?case
    using from_genesis_inv [OF assms(1) created(1,2) cs(1)] pool_inv_new by (simp add: engine_inv_def pool_new_def)
next
  case (pooled en now stx r en')
  then show ?case
    by (auto simp: on_transaction_received_def engine_inv_def pool_insert_max_size intro: pool_insert_inv split: sum.splits)
next
  case (voted en v r en')
  then show ?case by (auto simp: on_vote_received_def engine_inv_def Let_def split: sum.splits prod.splits if_splits)
qed (use try_produce_block_inv [OF assms(1)] on_block_received_inv [OF assms(1)] in blast)+

text \<open>
  The engine. In every engine a node can reach, what \<open>chain_info\<close> reports is what the
  database holds: its height, the hash of its latest block, and an unbroken chain of parent
  hashes back to the genesis block; and the pool never exceeds the configured size and holds only
  verified transactions.
\<close>

theorem engine_consistent:
  assumes "storage_ok P" "engine_reachable P W gen_range g en"
  shows "get_chain_height P (cs_storage (ce_chain_state en)) = Ok (Some (ci_height (chain_info_of P en))) \<and>
    (\<exists>b. get_latest_block P (cs_storage (ce_chain_state en)) = Ok (Some b) \<and>
       block_hash P b = ci_best_block_hash (chain_info_of P en)) \<and>
    (\<forall>n < ci_height (chain_info_of P en). linked P (cs_storage (ce_chain_state en)) n) \<and>
    ci_pending_transactions (chain_info_of P en) \<le> cc_mempool_size (ce_config en) \<and>
    (\<forall>h stx. pool_get (ce_tx_pool en) h = Some stx \<longrightarrow> stx_hash stx = h \<and> stx_verify P stx = Ok ())"
proof -
  have inv: "chain_inv P g (ce_chain_state en)" "pool_inv P (ce_tx_pool en)"
    "tp_max_size (ce_tx_pool en) = cc_mempool_size (ce_config en)"
    using engine_reachable_inv [OF assms] by (simp_all add: engine_inv_def)
  have "pending_count (ce_tx_pool en) \<le> tp_max_size (ce_tx_pool en)"
    "\<forall>h stx. pool_get (ce_tx_pool en) h = Some stx \<longrightarrow> stx_hash stx = h \<and> stx_verify P stx = Ok ()"
    using inv(2) by (auto simp: pool_inv_def pending_count_def pool_get_def entry_ok_def)
  moreover have "get_chain_height P (cs_storage (ce_chain_state en)) = Ok (Some (cs_height (ce_chain_state en)))"
    "get_block_by_number P (cs_storage (ce_chain_state en)) (cs_height (ce_chain_state en)) = Ok (Some (cs_head (ce_chain_state en)))"
    "\<forall>n < cs_height (ce_chain_state en). linked P (cs_storage (ce_chain_state en)) n"
    using inv(1) unfolding chain_inv_def by blast+
  moreover from this(1,2) have "get_latest_block P (cs_storage (ce_chain_state en)) = Ok (Some (cs_head (ce_chain_state en)))"
    by (simp add: get_latest_block_def)
  ultimately show ?thesis using inv(3) by (simp add: chain_info_of_def Let_def)
qed

section \<open>Blocks from the network\<close>

lemma after_apply_parts:
  assumes "after_apply P now hs en = (r, en')"
  shows "ce_tx_pool en' = prune_committed (ce_tx_pool en) hs" "cs_head (ce_chain_state en') = cs_head (ce_chain_state en)"
    "cs_height (ce_chain_state en') = cs_height (ce_chain_state en)" "ce_seen_blocks en' = ce_seen_blocks en"
proof -
  have head: "cs_head s' = cs_head s" "cs_height s' = cs_height s" if "maybe_advance_epoch P now s cp = (q, s')" for s s' q cp
    using that by (auto simp: maybe_advance_epoch_def Let_def split: if_splits sum.splits)
  obtain q cs where m: "maybe_advance_epoch P now (ce_chain_state en) (cc_consensus_params (ce_config en)) = (q, cs)"
    by force
  show "ce_tx_pool en' = prune_committed (ce_tx_pool en) hs" "cs_head (ce_chain_state en') = cs_head (ce_chain_state en)"
    "cs_height (ce_chain_state en') = cs_height (ce_chain_state en)" "ce_seen_blocks en' = ce_seen_blocks en"
    using assms m head [OF m] by (auto simp: after_apply_def Let_def send_event_def split: sum.splits option.splits)
qed

lemma accept_block_Ok:
  assumes "accept_block P W now b en = (Ok u, en')"
  shows "bh_parent_hash (bk_header b) = block_hash P (cs_head (ce_chain_state en))"
    "bh_number (bk_header b) = cs_height (ce_chain_state en) + 1" "cs_head (ce_chain_state en') = b"
    "cs_height (ce_chain_state en') = cs_height (ce_chain_state en) + 1"
    "ce_tx_pool en' = prune_committed (ce_tx_pool en) (map stx_hash (bk_transactions b))"
    "ce_seen_blocks en' = ce_seen_blocks en"
proof -
  obtain rs cs vm en2 where a: "apply_block P W (ce_chain_state en) b (ce_vm_engine en) = (Ok rs, cs, vm)"
    and p: "after_apply P now (map stx_hash (bk_transactions b)) (en\<lparr>ce_chain_state := cs, ce_vm_engine := vm\<rparr>) = (Ok (), en2)"
    and en': "en' = send_event (NewBlock b) en2"
    using assms by (auto simp: accept_block_def split: prod.splits sum.splits)
  have cs: "bh_parent_hash (bk_header b) = block_hash P (cs_head (ce_chain_state en))"
    "bh_number (bk_header b) = cs_height (ce_chain_state en) + 1" "cs_head cs = b" "cs_height cs = bh_number (bk_header b)"
    using a by (cases rule: apply_block_cases; simp)+
  then show "bh_parent_hash (bk_header b) = block_hash P (cs_head (ce_chain_state en))"
    "bh_number (bk_header b) = cs_height (ce_chain_state en) + 1" "cs_head (ce_chain_state en') = b"
    "cs_height (ce_chain_state en') = cs_height (ce_chain_state en) + 1"
    "ce_tx_pool en' = prune_committed (ce_tx_pool en) (map stx_hash (bk_transactions b))"
    "ce_seen_blocks en' = ce_seen_blocks en"
    using after_apply_parts [OF p] en' by (simp_all add: send_event_def)
qed

text \<open>
  C3 (accepted blocks). A block from the network is accepted only if it passes basic validation,
  comes from the proposer selected for its number, carries that validator's signature, extends
  the head of the chain by one, and is not a second block of the validator at that height. It is
  then the head, its transactions have left the pool and all others have stayed.
\<close>

theorem accepted_block_checked:
  assumes "on_block_received P W gen_range clock b en = (Ok (), en')"
  shows "block_validate_basic P b = Ok () \<and> verify_signature P (bk_header b) = Ok () \<and>
    select_proposer P gen_range (active_validators (ep_validator_set (cs_current_epoch (ce_chain_state en))))
      (bh_parent_hash (bk_header b)) (bh_number (bk_header b)) = Ok (bh_validator (bk_header b)) \<and>
    bh_parent_hash (bk_header b) = block_hash P (cs_head (ce_chain_state en)) \<and>
    bh_number (bk_header b) = cs_height (ce_chain_state en) + 1 \<and>
    hm_get (ce_seen_blocks en) (bh_number (bk_header b), bh_validator (bk_header b)) \<in> {None, Some (block_hash P b)} \<and>
    hm_get (ce_seen_blocks en') (bh_number (bk_header b), bh_validator (bk_header b)) = Some (block_hash P b) \<and>
    cs_head (ce_chain_state en') = b \<and> cs_height (ce_chain_state en') = bh_number (bk_header b) \<and>
    (\<forall>h. pool_get (ce_tx_pool en') h =
       (if h \<in> stx_hash ` set (bk_transactions b) then None else pool_get (ce_tx_pool en) h))"
proof -
  let ?key = "(bh_number (bk_header b), bh_validator (bk_header b))"
  have chk: "block_validate_basic P b = Ok ()" "verify_signature P (bk_header b) = Ok ()"
    "select_proposer P gen_range (active_validators (ep_validator_set (cs_current_epoch (ce_chain_state en))))
      (block_hash P (cs_head (ce_chain_state en))) (bh_number (bk_header b)) = Ok (bh_validator (bk_header b))"
    using assms by (auto simp: on_block_received_def check_block_def result_simps verify_proposer_iff split: sum.splits)
  obtain m where m: "m \<in> {ce_seen_blocks en, hm_put ?key (block_hash P b) (ce_seen_blocks en)}"
      "hm_get m ?key = Some (block_hash P b)" "hm_get (ce_seen_blocks en) ?key \<in> {None, Some (block_hash P b)}"
      "accept_block P W (clock 1) b (en\<lparr>ce_seen_blocks := m\<rparr>) = (Ok (), en')"
  proof (cases "hm_get (ce_seen_blocks en) ?key")
    case None
    then show thesis using assms
      by (intro that [of "hm_put ?key (block_hash P b) (ce_seen_blocks en)"])
        (auto simp: on_block_received_def Let_def split: sum.splits)
  next
    case (Some h)
    then show thesis using assms
      by (intro that [of "ce_seen_blocks en"])
        (auto simp: on_block_received_def Let_def detect_double_sign_def split: sum.splits if_splits)
  qed
  note acc = accept_block_Ok [OF m(4)]
  have "pool_get (ce_tx_pool en') h =
      (if h \<in> stx_hash ` set (bk_transactions b) then None else pool_get (ce_tx_pool en) h)" for h
    by (simp add: acc(5) prune_committed_def remove_all_get)
  with chk m(2,3) acc(1-4,6) show ?thesis by simp
qed

section \<open>Blocks the node produces\<close>

lemma select_loop_mem:
  "stx \<in> set (select_loop pending gl mx cs selected g) \<Longrightarrow>
   stx \<in> set selected \<or> (\<exists>h p. hm_get pending h = Some p \<and> stx = pt_tx p)"
proof (induction cs arbitrary: selected g)
  case (Cons c cs)
  obtain price n h where c: "c = (price, n, h)" by (cases c)
  show ?case
    using Cons.prems Cons.IH [of selected g] Cons.IH [of "selected @ [pt_tx (the (hm_get pending h))]"]
    by (fastforce simp: c Let_def split: option.splits if_splits)
qed simp

lemma select_loop_length: "length selected \<le> mx \<Longrightarrow> length (select_loop pending gl mx cs selected g) \<le> mx"
  by (induction pending gl mx cs selected g rule: select_loop.induct)
    (auto simp: Let_def split: option.splits)

lemma selected_verified:
  assumes "pool_inv P pool" "stx \<in> set (select_transactions pool gl mx)"
  shows "stx_verify P stx = Ok ()"
  using assms select_loop_mem [of stx "tp_pending pool" gl mx "candidates pool" "[]" 0]
  by (auto simp: select_transactions_def pool_inv_def entry_ok_def)

lemma signed_header_verifies:
  "ed25519_correct P \<Longrightarrow> bh_validator_pubkey h = keypair_public_key P kp \<Longrightarrow> verify_signature P (header_sign P h kp) = Ok ()"
  using verify_sign [of P kp] by (simp add: verify_signature_def header_sign_def)

lemma try_produce_block_produced:
  assumes "try_produce_block P W gen_range clock kp en = (Ok (), en')"
    "select_proposer P gen_range (active_validators (ep_validator_set (cs_current_epoch (ce_chain_state en))))
      (block_hash P (cs_head (ce_chain_state en))) (bh_number (bk_header (cs_head (ce_chain_state en))) + 1) =
      Ok (keypair_address P kp)"
  obtains rs txs b cs vm where
    "txs = select_transactions (ce_tx_pool en) (cc_gas_limit_per_block (ce_config en)) (cc_max_transactions_per_block (ce_config en))"
    "b = proposal P (ce_config en) (cs_head (ce_chain_state en)) (cs_current_epoch (ce_chain_state en)) kp txs (clock 0)"
    "apply_block P W (ce_chain_state en) b (ce_vm_engine en) = (Ok rs, cs, vm)"
    "last (ce_events en') = NewBlock (seal P kp rs b)" "cs_head (ce_chain_state en') = b"
proof -
  let ?txs = "select_transactions (ce_tx_pool en) (cc_gas_limit_per_block (ce_config en)) (cc_max_transactions_per_block (ce_config en))"
  let ?b = "proposal P (ce_config en) (cs_head (ce_chain_state en)) (cs_current_epoch (ce_chain_state en)) kp ?txs (clock 0)"
  obtain q cs vm where a: "apply_block P W (ce_chain_state en) ?b (ce_vm_engine en) = (q, cs, vm)" by (rule prod_cases3)
  obtain q2 en2 where p: "after_apply P (clock 1) (map stx_hash ?txs) (en\<lparr>ce_chain_state := cs, ce_vm_engine := vm\<rparr>) = (q2, en2)"
    by force
  from a p assms obtain rs where rs: "q = Ok rs" "last (ce_events en') = NewBlock (seal P kp rs ?b)"
      "ce_chain_state en' = ce_chain_state en2"
    by (auto simp: try_produce_block_def Let_def send_event_def split: sum.splits)
  from a have "cs_head cs = ?b" unfolding rs(1) by (cases rule: apply_block_cases) simp_all
  with after_apply_parts(2) [OF p] rs(3) have "cs_head (ce_chain_state en') = ?b" by simp
  then show thesis using that [OF refl refl a [unfolded rs(1)] rs(2)] by simp
qed

text \<open>
  Produced blocks. The block a producer announces passes every check a follower with the
  same head and epoch makes before executing it, provided only that the gas it reports is within
  the block's limit: structure, proposer, transactions root, transactions and signature.
\<close>

theorem produced_block_passes_checks:
  assumes "ed25519_correct P" "pool_inv P (ce_tx_pool en)" "cc_max_transactions_per_block (ce_config en) \<le> 10000"
    "select_proposer P gen_range (active_validators (ep_validator_set (cs_current_epoch (ce_chain_state en))))
      (block_hash P (cs_head (ce_chain_state en))) (bh_number (bk_header (cs_head (ce_chain_state en))) + 1) =
      Ok (keypair_address P kp)"
    "try_produce_block P W gen_range clock kp en = (Ok (), en')"
    "cs_head (ce_chain_state follower) = cs_head (ce_chain_state en)"
    "cs_current_epoch (ce_chain_state follower) = cs_current_epoch (ce_chain_state en)"
  shows "\<exists>b. last (ce_events en') = NewBlock b \<and>
    (check_block P gen_range b follower = Ok () \<longleftrightarrow> bh_gas_used (bk_header b) \<le> cc_gas_limit_per_block (ce_config en))"
proof -
  obtain rs txs b cs vm where b:
    "txs = select_transactions (ce_tx_pool en) (cc_gas_limit_per_block (ce_config en)) (cc_max_transactions_per_block (ce_config en))"
    "b = proposal P (ce_config en) (cs_head (ce_chain_state en)) (cs_current_epoch (ce_chain_state en)) kp txs (clock 0)"
    "last (ce_events en') = NewBlock (seal P kp rs b)"
    using try_produce_block_produced [OF assms(5,4)] by metis
  have txs: "list_all (\<lambda>stx. stx_verify P stx = Ok ()) txs" "length txs \<le> 10000"
    using selected_verified [OF assms(2)] le_trans [OF select_loop_length assms(3)]
    by (simp_all add: b(1) list_all_iff select_transactions_def)
  have "compute_merkle_root P (map (\<lambda>stx. to_be_bytes (stx_hash stx)) txs) = compute_transactions_root P (seal P kp rs b)"
    by (simp add: compute_transactions_root_def seal_def b(2) proposal_def compute_merkle_root_def
        merkle_tree_new_def merkle_root_def)
  then have "block_validate_basic P (seal P kp rs b) = Ok () \<longleftrightarrow>
      bh_gas_used (bk_header (seal P kp rs b)) \<le> cc_gas_limit_per_block (ce_config en)"
    using txs by (simp add: block_validate_basic_iff header_validate_basic_iff seal_def b(2) proposal_def header_sign_def
        PROTOCOL_VERSION_def keypair_address_def)
  moreover have "verify_signature P (bk_header (seal P kp rs b)) = Ok ()"
    using signed_header_verifies [OF assms(1), of _ kp] by (simp add: seal_def b(2) proposal_def)
  moreover have "bh_validator (bk_header (seal P kp rs b)) = keypair_address P kp"
    "bh_number (bk_header (seal P kp rs b)) = bh_number (bk_header (cs_head (ce_chain_state en))) + 1"
    by (simp_all add: seal_def header_sign_def b(2) proposal_def)
  ultimately show ?thesis
    using assms(4,6,7) b(3) verify_proposer_iff [of P gen_range "keypair_address P kp"]
    by (auto simp: check_block_def result_simps)
qed

text \<open>
  C30 (the producer's head). The block the producer stores and builds on is the one before gas and
  signature were filled in. A follower that took the announced block as its head accepts the next
  block on the producer's head only if Blake3 gives the header with gas 0 and the header with the
  gas the block used the same hash, which for a block that used gas is a collision.
\<close>

theorem produced_block_diverges:
  assumes "select_proposer P gen_range (active_validators (ep_validator_set (cs_current_epoch (ce_chain_state en))))
      (block_hash P (cs_head (ce_chain_state en))) (bh_number (bk_header (cs_head (ce_chain_state en))) + 1) =
      Ok (keypair_address P kp)"
    "try_produce_block P W gen_range clock kp en = (Ok (), en')"
  shows "\<exists>h announced gas. bk_header (cs_head (ce_chain_state en')) = h \<and> bh_gas_used h = 0 \<and>
    last (ce_events en') = NewBlock announced \<and> bh_gas_used (bk_header announced) = gas \<and>
    (\<forall>s c E rs s' E'. cs_head s = announced \<and> bh_parent_hash (bk_header c) = block_hash P (cs_head (ce_chain_state en')) \<and>
       apply_block P W s c E = (Ok rs, s', E') \<longrightarrow>
       hash P (ser_header P h) = hash P (ser_header P (h\<lparr>bh_gas_used := gas\<rparr>)))"
proof -
  obtain rs txs b cs vm where b:
    "b = proposal P (ce_config en) (cs_head (ce_chain_state en)) (cs_current_epoch (ce_chain_state en)) kp txs (clock 0)"
    "last (ce_events en') = NewBlock (seal P kp rs b)" "cs_head (ce_chain_state en') = b"
    using try_produce_block_produced [OF assms(2,1)] by metis
  let ?gas = "sum_list (map rc_gas_used rs)"
  have hashes: "block_hash P b = hash P (ser_header P (bk_header b))"
    "block_hash P (seal P kp rs b) = hash P (ser_header P ((bk_header b)\<lparr>bh_gas_used := ?gas\<rparr>))"
    by (simp_all add: block_hash_def header_hash_def seal_def header_sign_def b(1) proposal_def)
  have "hash P (ser_header P (bk_header b)) = hash P (ser_header P ((bk_header b)\<lparr>bh_gas_used := ?gas\<rparr>))"
    if "cs_head s = seal P kp rs b" "bh_parent_hash (bk_header c) = block_hash P b" "apply_block P W s c E = (Ok rs', s', E')"
    for s c E rs' s' E'
    using that(3) by (cases rule: apply_block_cases) (use that(1,2) hashes in simp_all)
  moreover have "bh_gas_used (bk_header b) = 0" "bh_gas_used (bk_header (seal P kp rs b)) = ?gas"
    by (simp_all add: b(1) proposal_def seal_def header_sign_def)
  ultimately show ?thesis using b(2,3) by blast
qed

section \<open>Witnesses\<close>

definition prod_epoch :: epoch_info where
  "prod_epoch = \<lparr>ep_number = 0, ep_start_block = 0, ep_end_block = 4, ep_validator_set = validator_set_new
     [validator_info_new (keypair_address example_block_prims example_kp) (keypair_public_key example_block_prims example_kp) 100] 10 100,
     ep_finalized_block = None\<rparr>"

definition prod_engine :: "transaction_pool \<Rightarrow> (mem_db, unit) consensus_engine" where
  "prod_engine pool = \<lparr>ce_config = consensus_config_default, ce_chain_state = pay_state\<lparr>cs_current_epoch := prod_epoch\<rparr>,
     ce_tx_pool = pool, ce_finality = finality_engine_new (ep_validator_set prod_epoch),
     ce_vm_engine = wasm_engine_new vm_config_default, ce_keypair = Some example_kp, ce_seen_blocks = [], ce_events = []\<rparr>"

definition pay_pool :: transaction_pool where
  "pay_pool = \<lparr>tp_pending = [(7, \<lparr>pt_tx = pay_stx, pt_added_at = 0, pt_gas_price = 1\<rparr>)],
     tp_by_sender = [(1, {(0, 7)})], tp_max_size = 10, tp_min_gas_price = 1\<rparr>"

definition prod_block :: "signed_transaction list \<Rightarrow> block" where
  "prod_block txs = proposal (pay_prims_for example_block0) consensus_config_default example_block0 prod_epoch example_kp txs 1"

lemma pay_prims_crypto:
  "keypair_address (pay_prims_for b) kp = keypair_address example_block_prims kp"
  "keypair_public_key (pay_prims_for b) kp = keypair_public_key example_block_prims kp"
  "block_hash (pay_prims_for b) c = block_hash example_block_prims c" "ed25519_correct (pay_prims_for b)"
  "to_address (pay_prims_for b) pk = to_address example_block_prims pk"
  using example_block_ed25519
  by (simp_all add: pay_prims_for_def mem_prims_def block_prims.defs keypair_address_def keypair_public_key_def to_address_def
      hash_def block_hash_def header_hash_def ed25519_correct_def)

lemma merkle_loop_single: "merkle_loop P [x] = []"
  by (subst merkle_loop.simps) simp

lemma prod_block_prims:
  assumes "length txs \<le> 1"
  shows "proposal (pay_prims_for b) consensus_config_default example_block0 prod_epoch example_kp txs 1 = prod_block txs"
proof -
  have hash: "hash (pay_prims_for b) x = hash (pay_prims_for example_block0) x" for x
    by (simp add: pay_prims_for_def mem_prims_def block_prims.defs hash_def)
  have "txs = [] \<or> (\<exists>t. txs = [t])" using assms by (cases txs) auto
  then have "compute_merkle_root (pay_prims_for b) (map f txs) = compute_merkle_root (pay_prims_for example_block0) (map f txs)" for f
    by (auto simp: compute_merkle_root_def merkle_tree_new_def merkle_root_def merkle_loop_single hash)
  then show ?thesis by (simp add: prod_block_def proposal_def pay_prims_crypto)
qed

lemma prod_proposer:
  "select_proposer (pay_prims_for b) gen_range (active_validators (ep_validator_set (cs_current_epoch (ce_chain_state (prod_engine pool)))))
     h n = Ok (keypair_address (pay_prims_for b) example_kp)"
  by (simp add: prod_engine_def pay_state_def prod_epoch_def validator_set_new_def active_validators_def validator_info_new_def
      select_proposer_def pay_prims_crypto)

text \<open>The producer's attempt, with an empty pool or with the payment.\<close>

lemma prod_attempt:
  assumes "apply_block (pay_prims_for (prod_block txs)) sending_module (pay_state\<lparr>cs_current_epoch := prod_epoch\<rparr>) (prod_block txs)
      (wasm_engine_new vm_config_default) = (Ok rs, s', wasm_engine_new vm_config_default)"
    "cs_current_epoch s' = prod_epoch" "cs_height s' = 1" "length txs \<le> 1"
    "select_transactions pool 10000000 1000 = txs"
  shows "\<exists>en'. try_produce_block (pay_prims_for (prod_block txs)) sending_module gen_range (\<lambda>_. 1) example_kp (prod_engine pool) = (Ok (), en') \<and>
    last (ce_events en') = NewBlock (seal (pay_prims_for (prod_block txs)) example_kp rs (prod_block txs))"
proof -
  let ?P = "pay_prims_for (prod_block txs)"
  have "\<not> is_last_block (cs_current_epoch s') (cs_height s')" by (simp add: assms is_last_block_def prod_epoch_def)
  then have "\<exists>en'. after_apply ?P 1 hs (en\<lparr>ce_chain_state := s', ce_vm_engine := vm\<rparr>) = (Ok (), en')"
    for hs vm and en :: "(mem_db, unit) consensus_engine"
    by (simp add: after_apply_def maybe_advance_epoch_def Let_def)
  then obtain en2 where "after_apply ?P 1 (map stx_hash txs)
      ((prod_engine pool)\<lparr>ce_chain_state := s', ce_vm_engine := wasm_engine_new vm_config_default\<rparr>) = (Ok (), en2)" by blast
  moreover have "cs_head (ce_chain_state (prod_engine pool)) = example_block0"
    "ce_chain_state (prod_engine pool) = pay_state\<lparr>cs_current_epoch := prod_epoch\<rparr>"
    "ce_tx_pool (prod_engine pool) = pool" "ce_config (prod_engine pool) = consensus_config_default"
    "ce_vm_engine (prod_engine pool) = wasm_engine_new vm_config_default"
    "cc_gas_limit_per_block consensus_config_default = 10000000" "cc_max_transactions_per_block consensus_config_default = 1000"
    by (simp_all add: prod_engine_def pay_state_def consensus_config_default_def)
  ultimately show ?thesis
    using prod_proposer [of "prod_block txs" gen_range pool] assms(1,5) prod_block_prims [OF assms(4), of "prod_block txs"]
    by (simp add: try_produce_block_def Let_def send_event_def)
qed

lemma prod_block_simps:
  "bk_transactions (prod_block txs) = txs" "bh_number (bk_header (prod_block txs)) = 1"
  "bh_parent_hash (bk_header (prod_block txs)) = block_hash example_block_prims example_block0"
proof -
  have "bh_number (bk_header example_block0) = 0"
    by (simp add: example_block0_def to_genesis_block_def example_genesis_def block_genesis_def)
  then show "bk_transactions (prod_block txs) = txs" "bh_number (bk_header (prod_block txs)) = 1"
    "bh_parent_hash (bk_header (prod_block txs)) = block_hash example_block_prims example_block0"
    by (simp_all add: prod_block_def proposal_def pay_prims_crypto)
qed

lemma pay_produced:
  "\<exists>en'. try_produce_block (pay_prims_for (prod_block [pay_stx])) sending_module gen_range (\<lambda>_. 1) example_kp (prod_engine pay_pool) = (Ok (), en') \<and>
    last (ce_events en') = NewBlock (seal (pay_prims_for (prod_block [pay_stx])) example_kp [pay_receipt_in (prod_block [pay_stx])] (prod_block [pay_stx]))"
proof -
  obtain s' where "apply_block (pay_prims_for (prod_block [pay_stx])) sending_module (pay_state\<lparr>cs_current_epoch := prod_epoch\<rparr>)
      (prod_block [pay_stx]) (wasm_engine_new vm_config_default) =
      (Ok [pay_receipt_in (prod_block [pay_stx])], s', wasm_engine_new vm_config_default)"
      "cs_current_epoch s' = prod_epoch" "cs_height s' = 1"
    using pay_apply [of "pay_state\<lparr>cs_current_epoch := prod_epoch\<rparr>" "prod_block [pay_stx]"]
    by (auto simp: prod_block_simps pay_state_def)
  then show ?thesis
    by (rule prod_attempt)
      (simp_all add: select_transactions_def candidates_def pay_pool_def sort_by_def pay_stx_def pay_tx_def)
qed

text \<open>Any block without transactions on the example chain is applied.\<close>

lemma empty_apply:
  assumes "bk_transactions b = []" "bh_number (bk_header b) = 1"
    "bh_parent_hash (bk_header b) = block_hash example_block_prims example_block0"
  shows "\<exists>s'. apply_block (pay_prims_for b) sending_module (pay_state\<lparr>cs_current_epoch := prod_epoch\<rparr>) b (wasm_engine_new vm_config_default) =
      (Ok [], s', wasm_engine_new vm_config_default) \<and> cs_current_epoch s' = prod_epoch \<and> cs_height s' = 1"
proof -
  let ?s = "pay_state\<lparr>cs_current_epoch := prod_epoch\<rparr>" and ?P = "pay_prims_for b"
    and ?E = "wasm_engine_new vm_config_default :: unit wasm_engine"
  have "exec_txs ?P sending_module b (exec_init ?s ?E) = exec_init ?s ?E" by (simp add: exec_txs_def assms)
  moreover have "\<exists>db. commit_block ?P b (exec_init ?s ?E) = Ok db"
    unfolding pay_prims_for_def by (rule commit_block_mem) (simp_all add: assms exec_init_def)
  ultimately show ?thesis
    by (auto simp: apply_block_def Let_def assms pay_prims_crypto pay_state_def exec_init_def)
qed

lemma empty_produced:
  "\<exists>en'. try_produce_block (pay_prims_for (prod_block [])) sending_module gen_range (\<lambda>_. 1) example_kp (prod_engine (pool_new 10 1)) = (Ok (), en') \<and>
    last (ce_events en') = NewBlock (seal (pay_prims_for (prod_block [])) example_kp [] (prod_block []))"
  using empty_apply [of "prod_block []"]
  by (auto intro!: prod_attempt simp: prod_block_simps select_transactions_def candidates_def pool_new_def sort_by_def)

definition announced_block :: block where
  "announced_block = seal (pay_prims_for example_block0) example_kp [] (prod_block [])"

lemma announced_simps:
  "bk_transactions announced_block = []" "bh_number (bk_header announced_block) = 1"
  "bh_parent_hash (bk_header announced_block) = block_hash example_block_prims example_block0"
  "bh_validator (bk_header announced_block) = keypair_address example_block_prims example_kp"
  "bh_gas_used (bk_header announced_block) = 0"
  using prod_block_simps [of "[]"]
  by (simp_all add: announced_block_def seal_def header_sign_def)
    (simp add: prod_block_def proposal_def pay_prims_crypto)

lemma announced_checks: "check_block (pay_prims_for b) gen_range announced_block (prod_engine pool) = Ok ()"
proof -
  have pub: "bh_validator_pubkey ((bk_header (prod_block []))\<lparr>bh_gas_used := 0\<rparr>) = keypair_public_key (pay_prims_for b) example_kp"
    by (simp add: prod_block_def proposal_def pay_prims_crypto)
  have "header_sign (pay_prims_for example_block0) h example_kp = header_sign (pay_prims_for b) h example_kp" for h
    by (simp add: header_sign_def header_hash_def hash_def sign_def pay_prims_for_def mem_prims_def block_prims.defs)
  then have sig: "verify_signature (pay_prims_for b) (bk_header announced_block) = Ok ()"
    using signed_header_verifies [OF pay_prims_crypto(4) pub] by (simp add: announced_block_def seal_def)
  have "block_validate_basic (pay_prims_for b) announced_block = Ok ()"
    using pay_prims_crypto(1,2) [of b example_kp]
    by (simp add: block_validate_basic_iff header_validate_basic_iff announced_block_def seal_def header_sign_def prod_block_def
        proposal_def PROTOCOL_VERSION_def compute_transactions_root_def compute_merkle_root_def merkle_tree_new_def merkle_root_def
        pay_prims_crypto keypair_address_def)
  with sig prod_proposer [of b gen_range pool] show ?thesis
    by (simp add: check_block_def result_simps verify_proposer_iff announced_simps pay_prims_crypto)
qed

theorem accepted_block_checked_witness:
  "\<exists>en'. on_block_received (pay_prims_for announced_block) sending_module example_rng (\<lambda>_. 1) announced_block
      (prod_engine (pool_new 10 1)) = (Ok (), en') \<and> cs_head (ce_chain_state en') = announced_block"
proof -
  let ?P = "pay_prims_for announced_block" and ?en = "prod_engine (pool_new 10 1)"
  obtain s' where s': "apply_block ?P sending_module (pay_state\<lparr>cs_current_epoch := prod_epoch\<rparr>) announced_block
      (wasm_engine_new vm_config_default) = (Ok [], s', wasm_engine_new vm_config_default)"
      "cs_current_epoch s' = prod_epoch" "cs_height s' = 1"
    using empty_apply [of announced_block] by (auto simp: announced_simps)
  have "\<not> is_last_block (cs_current_epoch s') (cs_height s')" by (simp add: s' is_last_block_def prod_epoch_def)
  then have "\<exists>en2. after_apply ?P 1 hs (en\<lparr>ce_chain_state := s', ce_vm_engine := vm\<rparr>) = (Ok (), en2)"
    for hs vm and en :: "(mem_db, unit) consensus_engine"
    by (simp add: after_apply_def maybe_advance_epoch_def Let_def)
  note after = this
  have "\<exists>en'. accept_block ?P sending_module 1 announced_block (?en\<lparr>ce_seen_blocks := m\<rparr>) = (Ok (), en')" for m
  proof -
    obtain en2 where "after_apply ?P 1 [] (?en\<lparr>ce_seen_blocks := m, ce_chain_state := s',
        ce_vm_engine := wasm_engine_new vm_config_default\<rparr>) = (Ok (), en2)"
      using after [of "[]" "wasm_engine_new vm_config_default" "?en\<lparr>ce_seen_blocks := m\<rparr>"] by auto
    then show ?thesis using s'(1) announced_simps(1) by (simp add: accept_block_def prod_engine_def)
  qed
  then have "\<exists>en'. on_block_received ?P sending_module example_rng (\<lambda>_. 1) announced_block ?en = (Ok (), en')"
    using announced_checks [of announced_block example_rng] by (simp add: on_block_received_def Let_def prod_engine_def)
  then show ?thesis using accepted_block_checked by blast
qed

theorem engine_consistent_witness:
  "\<exists>en :: (mem_db, unit) consensus_engine. ci_height (chain_info_of example_chain_prims en) = 0 \<and>
     get_chain_height example_chain_prims (cs_storage (ce_chain_state en)) = Ok (Some 0)"
proof -
  let ?P = example_chain_prims
  obtain s where s: "from_genesis ?P example_genesis Map.empty = Some (Ok s)" "cs_height s = 0"
    using example_start by blast
  then obtain en :: "(mem_db, unit) consensus_engine" where en: "consensus_engine_new ?P consensus_config_default example_genesis
      Map.empty (wasm_engine_new vm_config_default) None = Some (Ok en)" "ce_chain_state en = s"
    by (simp add: consensus_engine_new_def)
  have "engine_reachable ?P sending_module example_rng example_genesis en"
    using en(1) by (rule engine_reachable.created [rotated 2])
      (simp_all add: get_genesis_hash_def get_account_def get_typed_def get_cf_def example_chain_prims_def)
  moreover have "ci_height (chain_info_of ?P en) = 0" by (simp add: chain_info_of_def Let_def en(2) s(2))
  ultimately show ?thesis using engine_consistent [OF example_chain_ok, of sending_module example_rng example_genesis en] by auto
qed

theorem produced_block_diverges_witness:
  "\<exists>en' announced. try_produce_block (pay_prims_for (prod_block [pay_stx])) sending_module example_rng (\<lambda>_. 1) example_kp
      (prod_engine pay_pool) = (Ok (), en') \<and>
    bh_gas_used (bk_header (cs_head (ce_chain_state en'))) = 0 \<and>
    last (ce_events en') = NewBlock announced \<and> bh_gas_used (bk_header announced) = 21000"
proof -
  obtain en' where en': "try_produce_block (pay_prims_for (prod_block [pay_stx])) sending_module example_rng (\<lambda>_. 1) example_kp
      (prod_engine pay_pool) = (Ok (), en')" "last (ce_events en') = NewBlock (seal (pay_prims_for (prod_block [pay_stx])) example_kp
      [pay_receipt_in (prod_block [pay_stx])] (prod_block [pay_stx]))"
    using pay_produced by blast
  with produced_block_diverges [OF prod_proposer en'(1)] show ?thesis
    by (auto simp: seal_def header_sign_def pay_receipt_in_def mk_receipt_def)
qed

theorem produced_block_passes_checks_witness:
  "\<exists>en' b. try_produce_block (pay_prims_for (prod_block [])) sending_module example_rng (\<lambda>_. 1) example_kp (prod_engine (pool_new 10 1)) =
      (Ok (), en') \<and> last (ce_events en') = NewBlock b \<and>
    check_block (pay_prims_for (prod_block [])) example_rng b (prod_engine (pool_new 10 1)) = Ok ()"
proof -
  let ?P = "pay_prims_for (prod_block [])" and ?en = "prod_engine (pool_new 10 1)"
  obtain en' where en': "try_produce_block ?P sending_module example_rng (\<lambda>_. 1) example_kp ?en = (Ok (), en')"
      "last (ce_events en') = NewBlock (seal ?P example_kp [] (prod_block []))"
    using empty_produced by blast
  have "pool_inv ?P (ce_tx_pool ?en)" by (simp add: prod_engine_def pool_inv_new)
  moreover have "cc_max_transactions_per_block (ce_config ?en) \<le> 10000" by (simp add: prod_engine_def consensus_config_default_def)
  ultimately show ?thesis
    using produced_block_passes_checks [OF pay_prims_crypto(4) _ _ prod_proposer en'(1) refl refl] en'
    by (auto simp: seal_def header_sign_def)
qed

end
