(* ===== verification/Bridge_Types.thy ===== *)
theory Bridge_Types
  imports Crypto
begin

text \<open>
  The types of the bridge crate (\<open>src/crates/bridge/src/types.rs\<close>, \<open>error.rs\<close>), its registry of
  chains and tokens (\<open>registry.rs\<close>) and the set of bridge validators (\<open>validator.rs\<close>).

  Times are the Unix times the code reads from the clock, passed as arguments. \<open>to_lowercase\<close> is
  the ASCII one: no name the crate compares with contains a letter that a character outside ASCII
  is lowered to.
\<close>

section \<open>Errors\<close>

datatype bridge_error =
    UnsupportedChain string
  | InvalidAmount string
  | HtlcNotFound string
  | HtlcAlreadyExists string
  | HtlcExpired
  | HtlcNotExpired
  | HtlcAlreadyClaimed
  | HtlcAlreadyRefunded
  | InvalidPreimage
  | Unauthorized string
  | TransferNotFound string
  | TransferAlreadyProcessed
  | InsufficientLiquidity
  | InsufficientSignatures nat nat
  | BridgeInvalidSignature
  | AdapterError string
  | BridgePaused
  | BelowMinimum u128 u128
  | AboveMaximum u128 u128
  | BridgeStorage string
  | BridgeSerialization string

section \<open>External chains\<close>

datatype external_chain = Bitcoin | Ethereum | BnbChain | Polygon | Solana

fun ec_name :: "external_chain \<Rightarrow> string" where
  "ec_name Bitcoin = ''Bitcoin''"
| "ec_name Ethereum = ''Ethereum''"
| "ec_name BnbChain = ''BNB Chain''"
| "ec_name Polygon = ''Polygon''"
| "ec_name Solana = ''Solana''"

fun ec_symbol :: "external_chain \<Rightarrow> string" where
  "ec_symbol Bitcoin = ''BTC''"
| "ec_symbol Ethereum = ''ETH''"
| "ec_symbol BnbChain = ''BNB''"
| "ec_symbol Polygon = ''MATIC''"
| "ec_symbol Solana = ''SOL''"

fun ec_chain_id :: "external_chain \<Rightarrow> u64" where
  "ec_chain_id Bitcoin = 0"
| "ec_chain_id Ethereum = 1"
| "ec_chain_id BnbChain = 56"
| "ec_chain_id Polygon = 137"
| "ec_chain_id Solana = 501"

fun is_evm :: "external_chain \<Rightarrow> bool" where
  "is_evm Ethereum = True"
| "is_evm BnbChain = True"
| "is_evm Polygon = True"
| "is_evm _ = False"

fun address_length :: "external_chain \<Rightarrow> nat" where
  "address_length Bitcoin = 34"
| "address_length Solana = 32"
| "address_length _ = 20"

definition ec_all :: "external_chain list" where
  "ec_all = [Bitcoin, Ethereum, BnbChain, Polygon, Solana]"

definition lower_char :: "char \<Rightarrow> char" where
  "lower_char c = (let n = of_char c :: nat in if 65 \<le> n \<and> n \<le> 90 then char_of (n + 32) else c)"

definition to_lowercase :: "string \<Rightarrow> string" where
  "to_lowercase s = map lower_char s"

definition from_name :: "string \<Rightarrow> external_chain option" where
  "from_name n = (let l = to_lowercase n in
     if l \<in> {''bitcoin'', ''btc''} then Some Bitcoin
     else if l \<in> {''ethereum'', ''eth''} then Some Ethereum
     else if l \<in> {''bnb'', ''bnbchain'', ''bsc'', ''binance''} then Some BnbChain
     else if l \<in> {''polygon'', ''matic''} then Some Polygon
     else if l \<in> {''solana'', ''sol''} then Some Solana
     else None)"

lemma ec_name_inject: "ec_name c = ec_name d \<longleftrightarrow> c = d"
  by (cases c; cases d) simp_all

lemma ec_name_no_colon: "CHR '':'' \<notin> set (ec_name c)"
  by (cases c) simp_all

lemma from_name_symbol: "from_name (ec_symbol c) = Some c"
  by (cases c; hypsubst; code_simp)

lemma from_name_name: "from_name (ec_name c) = (if c = BnbChain then None else Some c)"
  by (cases c; hypsubst; code_simp)

lemma ec_all_complete: "set ec_all = UNIV" "distinct ec_all"
proof -
  show "set ec_all = UNIV" by (auto simp: ec_all_def intro: external_chain.exhaust)
  show "distinct ec_all" by (simp add: ec_all_def)
qed

section \<open>Transfers, fees and configuration\<close>

record bridge_token =
  bt_symbol :: string
  bt_name :: string
  bt_decimals :: u8
  bt_origin_chain :: external_chain
  bt_external_address :: string
  bt_enabled :: bool
  bt_min_amount :: u128
  bt_max_amount :: u128
  bt_fee_bps :: u16

datatype bridge_direction = Inbound | Outbound

datatype bridge_transfer_status =
  Pending | SourceConfirmed | RelaySubmitted | Validated | Completed | Failed | Expired | Refunded

record bridge_transfer =
  tr_id :: string
  tr_direction :: bridge_direction
  tr_source_chain :: string
  tr_dest_chain :: string
  tr_sender :: string
  tr_recipient :: string
  tr_token_symbol :: string
  tr_amount :: u128
  tr_fee :: u128
  tr_status :: bridge_transfer_status
  tr_source_tx_hash :: "string option"
  tr_dest_tx_hash :: "string option"
  tr_confirmations :: nat
  tr_required_confirmations :: nat
  tr_created_at :: u64
  tr_updated_at :: u64
  tr_expires_at :: u64

text \<open>\<open>HtlcStatus\<close> has the variants Active, Claimed, Refunded and Expired; the last is \<open>HtlcStale\<close>.\<close>

datatype htlc_status = HtlcActive | HtlcClaimed | HtlcRefunded | HtlcStale

record bridge_fee_schedule =
  fs_chain :: external_chain
  fs_token_symbol :: string
  fs_fee_bps :: u16
  fs_min_fee :: u128
  fs_estimated_gas_cost :: string

record bridge_liquidity =
  lq_chain :: external_chain
  lq_token_symbol :: string
  lq_locked_amount :: u128
  lq_wrapped_supply :: u128
  lq_available_outbound :: u128

record bridge_config =
  bc_enabled :: bool
  bc_min_signatures :: nat
  bc_htlc_timelock_seconds :: u64
  bc_transfer_timeout_seconds :: u64
  bc_operator :: address
  bc_accept_inbound :: bool
  bc_allow_outbound :: bool

definition bridge_config_default :: bridge_config where
  "bridge_config_default = \<lparr>bc_enabled = True, bc_min_signatures = 2, bc_htlc_timelock_seconds = 3600,
     bc_transfer_timeout_seconds = 86400, bc_operator = 0, bc_accept_inbound = True, bc_allow_outbound = True\<rparr>"

section \<open>The registry of tokens\<close>

type_synonym chain_registry = "(external_chain, bridge_token list) hmap"

definition registry_token :: "external_chain \<Rightarrow> string \<Rightarrow> string \<Rightarrow> u8 \<Rightarrow> string \<Rightarrow> u128 \<Rightarrow> u128 \<Rightarrow> bridge_token" where
  "registry_token c sy n dec addr lo hi = \<lparr>bt_symbol = sy, bt_name = n, bt_decimals = dec, bt_origin_chain = c,
     bt_external_address = addr, bt_enabled = True, bt_min_amount = lo, bt_max_amount = hi, bt_fee_bps = 10\<rparr>"

definition chain_registry_new :: chain_registry where
  "chain_registry_new =
     hm_put Solana [registry_token Solana ''SOL'' ''Solana'' 9 [] 1000000 1000000000000]
    (hm_put Polygon [registry_token Polygon ''MATIC'' ''Polygon'' 18 [] 1000000000000000000 10000000000000000000000000]
    (hm_put BnbChain
       [registry_token BnbChain ''BNB'' ''BNB'' 18 [] 1000000000000000 100000000000000000000000,
        registry_token BnbChain ''BUSD'' ''Binance USD'' 18 ''0xe9e7CEA3DedcA5984780Bafc599bD69ADd087D56''
          1000000000000000000 1000000000000000000000000]
    (hm_put Ethereum
       [registry_token Ethereum ''ETH'' ''Ether'' 18 [] 1000000000000000 1000000000000000000000,
        registry_token Ethereum ''USDT'' ''Tether USD'' 6 ''0xdAC17F958D2ee523a2206206994597C13D831ec7'' 1000000 1000000000000,
        registry_token Ethereum ''USDC'' ''USD Coin'' 6 ''0xA0b86991c6218b36c1d19D4a2e9Eb0cE3606eB48'' 1000000 1000000000000]
    (hm_put Bitcoin [registry_token Bitcoin ''BTC'' ''Bitcoin'' 8 [] 10000 100000000000] []))))"

definition supported_chains :: "chain_registry \<Rightarrow> external_chain list" where
  "supported_chains r = map fst r"

definition tokens_for_chain :: "chain_registry \<Rightarrow> external_chain \<Rightarrow> bridge_token list" where
  "tokens_for_chain r c = unwrap_or [] (hm_get r c)"

definition all_tokens :: "chain_registry \<Rightarrow> bridge_token list" where
  "all_tokens r = concat (map snd r)"

definition is_supported :: "chain_registry \<Rightarrow> external_chain \<Rightarrow> string \<Rightarrow> bool" where
  "is_supported r c sy = unwrap_or False (map_option (list_ex (\<lambda>t. bt_symbol t = sy \<and> bt_enabled t)) (hm_get r c))"

definition get_token :: "chain_registry \<Rightarrow> external_chain \<Rightarrow> string \<Rightarrow> bridge_token option" where
  "get_token r c sy = Option.bind (hm_get r c) (find (\<lambda>t. bt_symbol t = sy))"

lemma registry_tokens: "hm_get chain_registry_new c = Some ts \<Longrightarrow> t \<in> set ts \<Longrightarrow>
  bt_origin_chain t = c \<and> bt_enabled t \<and> bt_min_amount t \<le> bt_max_amount t"
  by (cases c) (auto simp: chain_registry_new_def registry_token_def word_le_nat_alt)

lemma registry_symbol: "is_supported chain_registry_new c (ec_symbol c)"
  by (cases c) (simp_all add: is_supported_def chain_registry_new_def registry_token_def)

section \<open>The bridge validators\<close>

record bridge_validator =
  bv_address :: address
  bv_public_key :: public_key
  bv_weight :: u64
  bv_is_active :: bool
  bv_confirmations_count :: u64
  bv_added_at :: u64

record bridge_validator_set =
  bvs_validators :: "(address, bridge_validator) hmap"
  bvs_min_signatures :: nat
  bvs_total_weight :: u64

definition bvs_new :: "nat \<Rightarrow> bridge_validator_set" where
  "bvs_new n = \<lparr>bvs_validators = [], bvs_min_signatures = n, bvs_total_weight = 0\<rparr>"

definition bvs_add_validator :: "u64 \<Rightarrow> address \<Rightarrow> public_key \<Rightarrow> u64 \<Rightarrow> bridge_validator_set \<Rightarrow> bridge_validator_set" where
  "bvs_add_validator now a pk w s = s\<lparr>
     bvs_validators := hm_put a \<lparr>bv_address = a, bv_public_key = pk, bv_weight = w, bv_is_active = True,
       bv_confirmations_count = 0, bv_added_at = now\<rparr> (bvs_validators s),
     bvs_total_weight := bvs_total_weight s + w\<rparr>"

definition bvs_remove_validator :: "address \<Rightarrow> bridge_validator_set \<Rightarrow> bridge_validator_set" where
  "bvs_remove_validator a s = (case hm_get (bvs_validators s) a of
      None \<Rightarrow> s
    | Some v \<Rightarrow> s\<lparr>bvs_validators := hm_remove a (bvs_validators s), bvs_total_weight := bvs_total_weight s - bv_weight v\<rparr>)"

definition bvs_is_validator :: "bridge_validator_set \<Rightarrow> address \<Rightarrow> bool" where
  "bvs_is_validator s a = unwrap_or False (map_option bv_is_active (hm_get (bvs_validators s) a))"

definition bvs_active_count :: "bridge_validator_set \<Rightarrow> nat" where
  "bvs_active_count s = length (filter (bv_is_active \<circ> snd) (bvs_validators s))"

definition bvs_list_validators :: "bridge_validator_set \<Rightarrow> bridge_validator list" where
  "bvs_list_validators s = map snd (bvs_validators s)"

definition bvs_get_validator :: "bridge_validator_set \<Rightarrow> address \<Rightarrow> bridge_validator option" where
  "bvs_get_validator s a = hm_get (bvs_validators s) a"

definition verify_threshold :: "bridge_validator_set \<Rightarrow> address list \<Rightarrow> bridge_error + unit" where
  "verify_threshold s signers = (let n = length (filter (bvs_is_validator s) signers) in
     if n < bvs_min_signatures s then Err (InsufficientSignatures (bvs_min_signatures s) n) else Ok ())"

definition bvs_record_confirmation :: "address \<Rightarrow> bridge_validator_set \<Rightarrow> bridge_validator_set" where
  "bvs_record_confirmation a s = (case hm_get (bvs_validators s) a of
      None \<Rightarrow> s
    | Some v \<Rightarrow> s\<lparr>bvs_validators := hm_put a (v\<lparr>bv_confirmations_count := bv_confirmations_count v + 1\<rparr>) (bvs_validators s)\<rparr>)"

lemma bvs_is_validator_add:
  "bvs_is_validator (bvs_add_validator now a pk w s) b \<longleftrightarrow> b = a \<or> bvs_is_validator s b"
  by (simp add: bvs_is_validator_def bvs_add_validator_def)

lemma bvs_is_validator_remove:
  "bvs_is_validator (bvs_remove_validator a s) b \<longleftrightarrow> b \<noteq> a \<and> bvs_is_validator s b"
  by (auto simp: bvs_is_validator_def bvs_remove_validator_def split: option.split)

lemma bvs_is_validator_record [simp]: "bvs_is_validator (bvs_record_confirmation a s) b \<longleftrightarrow> bvs_is_validator s b"
  by (auto simp: bvs_is_validator_def bvs_record_confirmation_def split: option.split)

text \<open>The threshold counts entries of the list of signers: one validator listed twice counts twice.\<close>

lemma verify_threshold_repeated:
  "bvs_is_validator s a \<Longrightarrow> bvs_min_signatures s \<le> n \<Longrightarrow> verify_threshold s (replicate n a) = Ok ()"
  by (simp add: verify_threshold_def)

lemma verify_threshold_distinct:
  assumes "distinct signers" "verify_threshold s signers = Ok ()"
  shows "bvs_min_signatures s \<le> card {a \<in> set signers. bvs_is_validator s a}"
proof -
  have "length (filter (bvs_is_validator s) signers) = card {a \<in> set signers. bvs_is_validator s a}"
    using distinct_card [of "filter (bvs_is_validator s) signers"] assms(1) by simp
  with assms(2) show ?thesis by (simp add: verify_threshold_def Let_def split: if_splits)
qed

text \<open>
  While no validator is added twice, the recorded weight is the sum of the weights of the
  members; adding a member again counts its weight twice.
\<close>

definition weight_ok :: "bridge_validator_set \<Rightarrow> bool" where
  "weight_ok s \<longleftrightarrow> hm_wf (bvs_validators s) \<and> bvs_total_weight s = sum_list (map (bv_weight \<circ> snd) (bvs_validators s))"

lemma weight_ok_new: "weight_ok (bvs_new n)"
  by (simp add: weight_ok_def bvs_new_def)

lemma weight_ok_add:
  "weight_ok s \<Longrightarrow> hm_get (bvs_validators s) a = None \<Longrightarrow> weight_ok (bvs_add_validator now a pk w s)"
  by (auto simp: weight_ok_def bvs_add_validator_def update_new hm_wf_def map_of_eq_None_iff)

lemma sum_delete:
  fixes f :: "'v \<Rightarrow> 'b::ab_group_add"
  shows "hm_wf m \<Longrightarrow> map_of m k = Some v \<Longrightarrow> sum_list (map (f \<circ> snd) (AList.delete k m)) = sum_list (map (f \<circ> snd) m) - f v"
proof (induction m)
  case (Cons e m)
  show ?case
  proof (cases "fst e = k")
    case True
    then have "k \<notin> fst ` set m" using Cons.prems(1) by (auto simp: hm_wf_def)
    then have "AList.delete k m = m" by (rule delete_id)
    with True Cons.prems(2) show ?thesis by (cases e) simp
  next
    case False
    with Cons show ?thesis by (cases e) (simp add: hm_wf_def)
  qed
qed simp

lemma weight_ok_remove: "weight_ok s \<Longrightarrow> weight_ok (bvs_remove_validator a s)"
  by (auto simp: weight_ok_def bvs_remove_validator_def sum_delete split: option.split)

lemma weight_added_twice:
  "bvs_total_weight (bvs_add_validator t' a pk w (bvs_add_validator t a pk w s)) = bvs_total_weight s + 2 * w"
  "bvs_list_validators (bvs_add_validator t' a pk w (bvs_add_validator t a pk w (bvs_new n))) =
   bvs_list_validators (bvs_add_validator t' a pk w (bvs_new n))"
  by (simp_all add: bvs_add_validator_def bvs_list_validators_def bvs_new_def)

end
