(* ===== verification/Hash_Lock.thy ===== *)
theory Hash_Lock
  imports Crypto
begin

text \<open>
  The contract of a hash time lock, which the swap manager of the bridge crate (\<open>bridge/src/htlc.rs\<close>) and
  the bridge contract (\<open>contracts/bridge/src/lib.rs\<close>) both offer: what is locked can be claimed by its
  taker with a preimage until a time and refunded to its giver from then on, and either closes the
  lock. The locale \<open>timed_lock\<close> has these laws and what follows from them on one side; \<open>swap_pair\<close> puts two
  locks under one hash against each other, which is how value is exchanged between two chains.
\<close>

record hash_time_lock =
  lk_hash :: "256 word"
  lk_giver :: address
  lk_taker :: address
  lk_until :: "64 word"

locale timed_lock =
  fixes digest :: "bytes \<Rightarrow> 256 word"
    and lock_of :: "'s \<Rightarrow> 'i \<Rightarrow> hash_time_lock option"
    and claim :: "64 word \<Rightarrow> address \<Rightarrow> 'i \<Rightarrow> bytes \<Rightarrow> 's \<Rightarrow> 's option"
    and refund :: "64 word \<Rightarrow> address \<Rightarrow> 'i \<Rightarrow> 's \<Rightarrow> 's option"
  assumes claim_iff: "lock_of s i = Some l \<Longrightarrow> p \<noteq> [] \<Longrightarrow>
      claim now a i p s \<noteq> None \<longleftrightarrow> a = lk_taker l \<and> now < lk_until l \<and> digest p = lk_hash l"
    and refund_iff: "lock_of s i = Some l \<Longrightarrow> refund now a i s \<noteq> None \<longleftrightarrow> a = lk_giver l \<and> lk_until l \<le> now"
    and claim_closes: "claim now a i p s = Some s' \<Longrightarrow> lock_of s i \<noteq> None \<and> lock_of s' = (lock_of s)(i := None)"
    and refund_closes: "refund now a i s = Some s' \<Longrightarrow> lock_of s i \<noteq> None \<and> lock_of s' = (lock_of s)(i := None)"
begin

lemma closed_stays:
  assumes "lock_of s i = None"
  shows "claim now a i p s = None" "refund now a i s = None"
  using assms claim_closes refund_closes by (metis option.exhaust)+

lemma settled_once:
  assumes "claim now a i p s = Some s' \<or> refund now a i s = Some s'"
  shows "claim now' a' i p' s' = None \<and> refund now' a' i s' = None"
proof -
  have "lock_of s' i = None" using assms claim_closes refund_closes by fastforce
  then show ?thesis by (simp add: closed_stays)
qed

lemma one_is_due:
  assumes "lock_of s i = Some l" "p \<noteq> []" "digest p = lk_hash l"
  shows "claim now (lk_taker l) i p s \<noteq> None \<longleftrightarrow> refund now (lk_giver l) i s = None"
  using claim_iff [OF assms(1,2), of now "lk_taker l"] refund_iff [OF assms(1), of now "lk_giver l"] assms(3)
  by (auto simp: not_less)

lemma others_untouched:
  assumes "claim now a i p s = Some s' \<or> refund now a i s = Some s'" "j \<noteq> i"
  shows "lock_of s' j = lock_of s j"
  using assms claim_closes refund_closes by (metis fun_upd_apply)

end

locale swap_pair =
  x: timed_lock digest_x lock_x claim_x refund_x + y: timed_lock digest_y lock_y claim_y refund_y
  for digest_x :: "bytes \<Rightarrow> 256 word" and lock_x :: "'s \<Rightarrow> 'i \<Rightarrow> hash_time_lock option" and claim_x refund_x
    and digest_y :: "bytes \<Rightarrow> 256 word" and lock_y :: "'t \<Rightarrow> 'j \<Rightarrow> hash_time_lock option" and claim_y refund_y
begin

text \<open>What one side accepts, the other side accepts from its taker until its own time.\<close>

lemma secret_carries:
  assumes "lock_x s i = Some l" "lock_y u j = Some k" "lk_hash k = lk_hash l" "digest_x p = digest_y p" "p \<noteq> []"
  shows "claim_x now a i p s \<noteq> None \<Longrightarrow> now' < lk_until k \<Longrightarrow> claim_y now' (lk_taker k) j p u \<noteq> None"
    "claim_y now' b j p u \<noteq> None \<Longrightarrow> now < lk_until l \<Longrightarrow> claim_x now (lk_taker l) i p s \<noteq> None"
  using x.claim_iff [OF assms(1,5)] y.claim_iff [OF assms(2,5)] assms(3,4) by auto

text \<open>When the first lock runs out before the second, nobody ends up with nothing: a claim of the first leaves
  time for the second, and if the first was not claimed in time, its giver gets it back.\<close>

lemma both_or_neither:
  assumes "lock_x s i = Some l" "lock_y u j = Some k" "lk_hash k = lk_hash l" "digest_x p = digest_y p" "p \<noteq> []"
    and "lk_until l \<le> lk_until k"
  shows "(claim_x now a i p s \<noteq> None \<longrightarrow> claim_y now (lk_taker k) j p u \<noteq> None) \<and>
    (claim_x now (lk_taker l) i p s = None \<and> digest_x p = lk_hash l \<longrightarrow> refund_x now (lk_giver l) i s \<noteq> None)"
proof -
  have "claim_y now (lk_taker k) j p u \<noteq> None" if "claim_x now a i p s \<noteq> None"
  proof -
    have "now < lk_until l" using x.claim_iff [OF assms(1,5), of now a] that by blast
    then show ?thesis using secret_carries(1) [OF assms(1-5) that] assms(6) by simp
  qed
  then show ?thesis using x.one_is_due [OF assms(1,5), of now] by blast
qed

end

end
