(* ===== verification/Htlc.thy ===== *)
theory Htlc
  imports Bridge_Types Hash_Lock
begin

text \<open>
  Hash time-locked swaps (\<open>src/crates/bridge/src/htlc.rs\<close>): the manager, its operations, and the
  guarantee an atomic swap rests on. Each swap pays out at most once, to the recipient against a
  preimage before the timelock or to the sender after it; and the party entitled to it is never
  refused.

  SHA-256 comes from the \<open>sha2\<close> crate and is a field of the parameter \<open>P\<close>. An operation that may
  change the manager and fail returns its result and the manager it leaves.
\<close>

record htlc_prims = crypto_prims +
  sha256 :: "bytes \<Rightarrow> 256 word"

record htlc_swap =
  hs_id :: string
  hs_hash_lock :: "256 word"
  hs_preimage :: "bytes option"
  hs_sender :: address
  hs_recipient :: address
  hs_amount :: u128
  hs_external_chain :: external_chain
  hs_external_address :: string
  hs_external_amount :: string
  hs_timelock :: u64
  hs_status :: htlc_status
  hs_created_at :: u64
  hs_settled_at :: "u64 option"

record htlc_manager =
  mg_swaps :: "(string, htlc_swap) hmap"
  mg_by_sender :: "(address, string list) hmap"
  mg_by_recipient :: "(address, string list) hmap"
  mg_default_timelock :: u64

definition htlc_manager_new :: "u64 \<Rightarrow> htlc_manager" where
  "htlc_manager_new d = \<lparr>mg_swaps = [], mg_by_sender = [], mg_by_recipient = [], mg_default_timelock = d\<rparr>"

definition hash_secret :: "'p htlc_prims_scheme \<Rightarrow> bytes \<Rightarrow> 256 word" where
  "hash_secret P preimage = sha256 P preimage"

text \<open>\<open>entry(k).or_default().push(x)\<close>\<close>

definition push_entry :: "'k \<Rightarrow> 'v \<Rightarrow> ('k, 'v list) hmap \<Rightarrow> ('k, 'v list) hmap" where
  "push_entry k x m = hm_put k (unwrap_or [] (hm_get m k) @ [x]) m"

definition create_swap :: "'p htlc_prims_scheme \<Rightarrow> u64 \<Rightarrow> htlc_manager \<Rightarrow> address \<Rightarrow> address \<Rightarrow> u128 \<Rightarrow> 256 word \<Rightarrow>
    external_chain \<Rightarrow> string \<Rightarrow> string \<Rightarrow> u64 option \<Rightarrow> (bridge_error + htlc_swap) \<times> htlc_manager" where
  "create_swap P now m sender recipient amount hash_lock chain ext_address ext_amount timelock =
     (let i = hex_encode P (to_be_bytes hash_lock); lock = unwrap_or (now + mg_default_timelock m) timelock in
      if hm_contains i (mg_swaps m) then (Err (HtlcAlreadyExists i), m)
      else if amount = 0 then (Err (InvalidAmount ''Amount must be > 0''), m)
      else if lock \<le> now then (Err (InvalidAmount ''Timelock must be in the future''), m)
      else
        (let swap = \<lparr>hs_id = i, hs_hash_lock = hash_lock, hs_preimage = None, hs_sender = sender,
               hs_recipient = recipient, hs_amount = amount, hs_external_chain = chain,
               hs_external_address = ext_address, hs_external_amount = ext_amount, hs_timelock = lock,
               hs_status = HtlcActive, hs_created_at = now, hs_settled_at = None\<rparr> in
         (Ok swap, m\<lparr>mg_swaps := hm_put i swap (mg_swaps m),
            mg_by_sender := push_entry sender i (mg_by_sender m),
            mg_by_recipient := push_entry recipient i (mg_by_recipient m)\<rparr>)))"

definition set_swap :: "string \<Rightarrow> htlc_swap \<Rightarrow> htlc_manager \<Rightarrow> htlc_manager" where
  "set_swap i s m = m\<lparr>mg_swaps := hm_put i s (mg_swaps m)\<rparr>"

definition claim_swap :: "'p htlc_prims_scheme \<Rightarrow> u64 \<Rightarrow> htlc_manager \<Rightarrow> string \<Rightarrow> bytes \<Rightarrow> address \<Rightarrow>
    (bridge_error + htlc_swap) \<times> htlc_manager" where
  "claim_swap P now m swap_id preimage claimer =
     (case hm_get (mg_swaps m) swap_id of
        None \<Rightarrow> (Err (HtlcNotFound swap_id), m)
      | Some s \<Rightarrow>
          if hs_status s = HtlcClaimed then (Err HtlcAlreadyClaimed, m)
          else if hs_status s = HtlcRefunded then (Err HtlcAlreadyRefunded, m)
          else if claimer \<noteq> hs_recipient s then (Err (Unauthorized ''Only the recipient can claim''), m)
          else if hs_timelock s \<le> now then (Err HtlcExpired, set_swap swap_id (s\<lparr>hs_status := HtlcStale\<rparr>) m)
          else if hash_secret P preimage \<noteq> hs_hash_lock s then (Err InvalidPreimage, m)
          else
            (let s' = s\<lparr>hs_preimage := Some preimage, hs_status := HtlcClaimed, hs_settled_at := Some now\<rparr> in
             (Ok s', set_swap swap_id s' m)))"

definition refund_swap :: "u64 \<Rightarrow> htlc_manager \<Rightarrow> string \<Rightarrow> address \<Rightarrow> (bridge_error + htlc_swap) \<times> htlc_manager" where
  "refund_swap now m swap_id refunder =
     (case hm_get (mg_swaps m) swap_id of
        None \<Rightarrow> (Err (HtlcNotFound swap_id), m)
      | Some s \<Rightarrow>
          if hs_status s = HtlcClaimed then (Err HtlcAlreadyClaimed, m)
          else if hs_status s = HtlcRefunded then (Err HtlcAlreadyRefunded, m)
          else if refunder \<noteq> hs_sender s then (Err (Unauthorized ''Only the sender can refund''), m)
          else if now < hs_timelock s then (Err HtlcNotExpired, m)
          else
            (let s' = s\<lparr>hs_status := HtlcRefunded, hs_settled_at := Some now\<rparr> in
             (Ok s', set_swap swap_id s' m)))"

definition get_swap :: "htlc_manager \<Rightarrow> string \<Rightarrow> htlc_swap option" where
  "get_swap m swap_id = hm_get (mg_swaps m) swap_id"

definition get_swaps_by_sender :: "htlc_manager \<Rightarrow> address \<Rightarrow> htlc_swap list" where
  "get_swaps_by_sender m a =
     unwrap_or [] (map_option (List.map_filter (hm_get (mg_swaps m))) (hm_get (mg_by_sender m) a))"

definition get_swaps_by_recipient :: "htlc_manager \<Rightarrow> address \<Rightarrow> htlc_swap list" where
  "get_swaps_by_recipient m a =
     unwrap_or [] (map_option (List.map_filter (hm_get (mg_swaps m))) (hm_get (mg_by_recipient m) a))"

definition list_swaps :: "htlc_manager \<Rightarrow> nat \<Rightarrow> nat \<Rightarrow> htlc_swap list" where
  "list_swaps m limit offset =
     take limit (drop offset (sort_by (\<lambda>a b. hs_created_at b \<le> hs_created_at a) (map snd (mg_swaps m))))"

definition htlc_active_count :: "htlc_manager \<Rightarrow> nat" where
  "htlc_active_count m = length (filter (\<lambda>(i, s). hs_status s = HtlcActive) (mg_swaps m))"

definition stale :: "u64 \<Rightarrow> htlc_swap \<Rightarrow> bool" where
  "stale now s \<longleftrightarrow> hs_status s = HtlcActive \<and> hs_timelock s \<le> now"

definition expire_stale_swaps :: "u64 \<Rightarrow> htlc_manager \<Rightarrow> nat \<times> htlc_manager" where
  "expire_stale_swaps now m =
     (length (filter (stale now \<circ> snd) (mg_swaps m)),
      m\<lparr>mg_swaps := map (\<lambda>(i, s). (i, if stale now s then s\<lparr>hs_status := HtlcStale\<rparr> else s)) (mg_swaps m)\<rparr>)"

section \<open>The state machine of a swap\<close>

text \<open>
  What the manager knows of a swap is consistent: it is filed under the digest of its lock, a
  claimed swap shows a preimage and was settled before its timelock, a refunded one was settled
  after it, and any other is unsettled.
\<close>

definition settled :: "htlc_swap \<Rightarrow> bool" where
  "settled s \<longleftrightarrow> hs_status s \<in> {HtlcClaimed, HtlcRefunded}"

definition swap_ok :: "'p htlc_prims_scheme \<Rightarrow> string \<Rightarrow> htlc_swap \<Rightarrow> bool" where
  "swap_ok P i s \<longleftrightarrow> hs_id s = i \<and> i = hex_encode P (to_be_bytes (hs_hash_lock s)) \<and> hs_amount s \<noteq> 0 \<and>
     hs_created_at s < hs_timelock s \<and>
     (case hs_status s of
        HtlcClaimed \<Rightarrow> (\<exists>x t. hs_preimage s = Some x \<and> hash_secret P x = hs_hash_lock s \<and>
          hs_settled_at s = Some t \<and> t < hs_timelock s)
      | HtlcRefunded \<Rightarrow> hs_preimage s = None \<and> (\<exists>t. hs_settled_at s = Some t \<and> hs_timelock s \<le> t)
      | _ \<Rightarrow> hs_preimage s = None \<and> hs_settled_at s = None)"

definition terms :: "htlc_swap \<Rightarrow> 256 word \<times> address \<times> address \<times> u128 \<times> u64" where
  "terms s = (hs_hash_lock s, hs_sender s, hs_recipient s, hs_amount s, hs_timelock s)"

text \<open>A payout: the swap, who called for it, who is paid how much, and when.\<close>

datatype payout = Payout (po_id: string) (po_caller: address) (po_to: address) (po_amount: u128) (po_at: u64)

datatype htlc_call =
    CreateSwap address address u128 "256 word" external_chain string string "u64 option"
  | ClaimSwap string bytes address
  | RefundSwap string address
  | ExpireStale

fun htlc_call_exec :: "'p htlc_prims_scheme \<Rightarrow> u64 \<Rightarrow> htlc_call \<Rightarrow> htlc_manager \<Rightarrow> payout list \<times> htlc_manager" where
  "htlc_call_exec P now (CreateSwap s r a h c ea eam lock) m = ([], snd (create_swap P now m s r a h c ea eam lock))"
| "htlc_call_exec P now (ClaimSwap i x who) m =
     (case claim_swap P now m i x who of (Err _, m') \<Rightarrow> ([], m') | (Ok s, m') \<Rightarrow> ([Payout i who (hs_recipient s) (hs_amount s) now], m'))"
| "htlc_call_exec P now (RefundSwap i who) m =
     (case refund_swap now m i who of (Err _, m') \<Rightarrow> ([], m') | (Ok s, m') \<Rightarrow> ([Payout i who (hs_sender s) (hs_amount s) now], m'))"
| "htlc_call_exec P now ExpireStale m = ([], snd (expire_stale_swaps now m))"

text \<open>Any sequence of calls, by anyone and at any times, from a new manager.\<close>

inductive htlc_history :: "'p htlc_prims_scheme \<Rightarrow> payout list \<Rightarrow> htlc_manager \<Rightarrow> bool" for P where
  start: "htlc_history P [] (htlc_manager_new d)"
| call: "htlc_history P ps m \<Longrightarrow> htlc_call_exec P now c m = (qs, m') \<Longrightarrow> htlc_history P (ps @ qs) m'"

definition manager_ok :: "'p htlc_prims_scheme \<Rightarrow> htlc_manager \<Rightarrow> bool" where
  "manager_ok P m \<longleftrightarrow> hm_wf (mg_swaps m) \<and> (\<forall>i s. hm_get (mg_swaps m) i = Some s \<longrightarrow> swap_ok P i s)"

text \<open>What one call may do to a swap: nothing, mark it stale, or settle it with one payout.\<close>

definition swap_step :: "payout list \<Rightarrow> string \<Rightarrow> htlc_swap \<Rightarrow> htlc_swap \<Rightarrow> bool" where
  "swap_step qs i s s' \<longleftrightarrow> terms s' = terms s \<and>
     (if \<exists>q \<in> set qs. po_id q = i then
        \<not> settled s \<and> (\<exists>who t. qs = [Payout i who (if hs_status s' = HtlcClaimed then hs_recipient s else hs_sender s) (hs_amount s) t] \<and>
          hs_settled_at s' = Some t \<and>
          (hs_status s' = HtlcClaimed \<and> who = hs_recipient s \<or> hs_status s' = HtlcRefunded \<and> who = hs_sender s))
      else settled s' = settled s \<and> (settled s \<longrightarrow> s' = s))"

lemma swap_step_refl: "\<forall>q \<in> set qs. po_id q \<noteq> i \<Longrightarrow> swap_step qs i s s"
  by (auto simp: swap_step_def)

lemma create_swap_cases:
  assumes "create_swap P now m s r a h c ea eam lock = (res, m')"
  obtains (error) e where "res = Err e" "m' = m"
  | (created) sw where "res = Ok sw" "hm_get (mg_swaps m) (hs_id sw) = None" "mg_swaps m' = hm_put (hs_id sw) sw (mg_swaps m)"
      "swap_ok P (hs_id sw) sw" "hs_status sw = HtlcActive" "terms sw = (h, s, r, a, hs_timelock sw)"
  using assms by (auto simp: create_swap_def Let_def swap_ok_def terms_def hm_contains_def split: if_splits)

lemma claim_swap_cases:
  assumes "claim_swap P now m i x who = (res, m')"
  obtains (error) e where "res = Err e" "m' = m"
  | (stale) s where "res = Err HtlcExpired" "hm_get (mg_swaps m) i = Some s" "\<not> settled s"
      "m' = set_swap i (s\<lparr>hs_status := HtlcStale\<rparr>) m"
  | (claimed) s where "hm_get (mg_swaps m) i = Some s" "\<not> settled s" "who = hs_recipient s" "now < hs_timelock s"
      "hash_secret P x = hs_hash_lock s"
      "res = Ok (s\<lparr>hs_preimage := Some x, hs_status := HtlcClaimed, hs_settled_at := Some now\<rparr>)"
      "m' = set_swap i (s\<lparr>hs_preimage := Some x, hs_status := HtlcClaimed, hs_settled_at := Some now\<rparr>) m"
  using assms by (auto simp: claim_swap_def Let_def settled_def not_le split: option.splits if_splits)

lemma refund_swap_cases:
  assumes "refund_swap now m i who = (res, m')"
  obtains (error) e where "res = Err e" "m' = m"
  | (refunded) s where "hm_get (mg_swaps m) i = Some s" "\<not> settled s" "who = hs_sender s" "hs_timelock s \<le> now"
      "res = Ok (s\<lparr>hs_status := HtlcRefunded, hs_settled_at := Some now\<rparr>)"
      "m' = set_swap i (s\<lparr>hs_status := HtlcRefunded, hs_settled_at := Some now\<rparr>) m"
  using assms by (auto simp: refund_swap_def Let_def settled_def not_less split: option.splits if_splits)

lemma map_of_map_entry: "map_of (map (\<lambda>(i, s). (i, f s)) m) k = map_option f (map_of m k)"
  by (induction m) auto

lemma manager_ok_set: "manager_ok P m \<Longrightarrow> swap_ok P i s \<Longrightarrow> manager_ok P (set_swap i s m)"
  by (simp add: manager_ok_def set_swap_def)

lemma swap_ok_stale: "swap_ok P i s \<Longrightarrow> \<not> settled s \<Longrightarrow> swap_ok P i (s\<lparr>hs_status := HtlcStale\<rparr>)"
  by (auto simp: swap_ok_def settled_def split: htlc_status.splits)

lemma manager_okD: "manager_ok P m \<Longrightarrow> hm_get (mg_swaps m) i = Some s \<Longrightarrow> swap_ok P i s"
  by (simp add: manager_ok_def)

lemma swap_ok_unsettled: "swap_ok P i s \<Longrightarrow> \<not> settled s \<Longrightarrow> hs_preimage s = None \<and> hs_settled_at s = None"
  by (auto simp: swap_ok_def settled_def split: htlc_status.splits)

lemma claim_swap_ok:
  assumes ok: "manager_ok P m" and ex: "claim_swap P now m i x who = (res, m')"
  shows "manager_ok P m'"
  using ex
proof (cases rule: claim_swap_cases)
  case (stale s)
  then show ?thesis using manager_ok_set [OF ok swap_ok_stale [OF manager_okD [OF ok stale(2)] stale(3)]] by simp
next
  case (claimed s)
  then have "swap_ok P i (s\<lparr>hs_preimage := Some x, hs_status := HtlcClaimed, hs_settled_at := Some now\<rparr>)"
    using manager_okD [OF ok claimed(1)] by (simp add: swap_ok_def)
  then show ?thesis using manager_ok_set [OF ok] claimed(7) by simp
qed (use ok in simp)

lemma refund_swap_ok:
  assumes ok: "manager_ok P m" and ex: "refund_swap now m i who = (res, m')"
  shows "manager_ok P m'"
  using ex
proof (cases rule: refund_swap_cases)
  case (refunded s)
  then have "swap_ok P i (s\<lparr>hs_status := HtlcRefunded, hs_settled_at := Some now\<rparr>)"
    using manager_okD [OF ok refunded(1)] swap_ok_unsettled [OF manager_okD [OF ok refunded(1)] refunded(2)]
    by (simp add: swap_ok_def)
  then show ?thesis using manager_ok_set [OF ok] refunded(6) by simp
qed (use ok in simp)

lemma mg_swaps_expire:
  "mg_swaps (snd (expire_stale_swaps now m)) =
   map (\<lambda>(i, s). (i, if stale now s then s\<lparr>hs_status := HtlcStale\<rparr> else s)) (mg_swaps m)"
  by (simp add: expire_stale_swaps_def)

lemma expire_stale_swaps_ok: "manager_ok P m \<Longrightarrow> manager_ok P (snd (expire_stale_swaps now m))"
proof -
  assume ok: "manager_ok P m"
  let ?f = "\<lambda>s. if stale now s then s\<lparr>hs_status := HtlcStale\<rparr> else s"
  have "map fst (mg_swaps (snd (expire_stale_swaps now m))) = map fst (mg_swaps m)"
    by (simp add: mg_swaps_expire comp_def case_prod_unfold)
  moreover have "swap_ok P i (?f s)" if "swap_ok P i s" for i s
    using that swap_ok_stale [OF that] by (simp add: stale_def settled_def)
  ultimately show ?thesis using ok
    by (simp add: manager_ok_def hm_wf_def) (auto simp: mg_swaps_expire map_of_map_entry)
qed

lemma create_swap_ok:
  assumes "manager_ok P m" "create_swap P now m s r a h c ea eam lock = (res, m')"
  shows "manager_ok P m'"
  using assms(2) by (cases rule: create_swap_cases) (use assms(1) in \<open>auto simp: manager_ok_def\<close>)

lemma htlc_call_exec_snd:
  "snd (htlc_call_exec P now c m) = (case c of
     CreateSwap s r a h ch ea eam lock \<Rightarrow> snd (create_swap P now m s r a h ch ea eam lock)
   | ClaimSwap i x who \<Rightarrow> snd (claim_swap P now m i x who)
   | RefundSwap i who \<Rightarrow> snd (refund_swap now m i who)
   | ExpireStale \<Rightarrow> snd (expire_stale_swaps now m))"
  by (cases c) (simp_all split: prod.split sum.split)

lemma htlc_call_exec_ok: "manager_ok P m \<Longrightarrow> manager_ok P (snd (htlc_call_exec P now c m))"
  by (cases c) (simp_all only: htlc_call_exec_snd htlc_call.case expire_stale_swaps_ok
      create_swap_ok [OF _ surjective_pairing] claim_swap_ok [OF _ surjective_pairing] refund_swap_ok [OF _ surjective_pairing])

lemma htlc_history_ok: "htlc_history P ps m \<Longrightarrow> manager_ok P m"
  by (induction rule: htlc_history.induct)
    (simp add: manager_ok_def htlc_manager_new_def, metis htlc_call_exec_ok snd_conv)

text \<open>Every call leaves every swap in place and takes it at most one step.\<close>

lemma create_swap_step:
  assumes "create_swap P now m sn r a h ch ea eam lock = (res, m')" "hm_get (mg_swaps m) i = Some s"
  shows "hm_get (mg_swaps m') i = Some s"
  using assms(1) by (cases rule: create_swap_cases) (use assms(2) in auto)

lemma claim_swap_step:
  assumes "claim_swap P now m j x who = (res, m')" and s: "hm_get (mg_swaps m) i = Some s"
  shows "\<exists>s'. hm_get (mg_swaps m') i = Some s' \<and>
    swap_step (case res of Err _ \<Rightarrow> [] | Ok t \<Rightarrow> [Payout j who (hs_recipient t) (hs_amount t) now]) i s s'"
  using assms(1)
proof (cases rule: claim_swap_cases)
  case (stale t)
  then show ?thesis using s by (cases "j = i") (simp_all add: set_swap_def swap_step_def terms_def settled_def)
next
  case (claimed t)
  then show ?thesis using s by (cases "j = i") (simp_all add: set_swap_def swap_step_def terms_def settled_def)
qed (use s in \<open>simp add: swap_step_refl\<close>)

lemma refund_swap_step:
  assumes "refund_swap now m j who = (res, m')" and s: "hm_get (mg_swaps m) i = Some s"
  shows "\<exists>s'. hm_get (mg_swaps m') i = Some s' \<and>
    swap_step (case res of Err _ \<Rightarrow> [] | Ok t \<Rightarrow> [Payout j who (hs_sender t) (hs_amount t) now]) i s s'"
  using assms(1)
proof (cases rule: refund_swap_cases)
  case (refunded t)
  then show ?thesis using s by (cases "j = i") (simp_all add: set_swap_def swap_step_def terms_def settled_def)
qed (use s in \<open>simp add: swap_step_refl\<close>)

lemma htlc_call_exec_step:
  assumes ex: "htlc_call_exec P now c m = (qs, m')" and s: "hm_get (mg_swaps m) i = Some s"
  shows "\<exists>s'. hm_get (mg_swaps m') i = Some s' \<and> swap_step qs i s s'"
proof (cases c)
  case (CreateSwap sn r a h ch ea eam lock)
  then show ?thesis using ex create_swap_step [OF surjective_pairing s, of P now sn r a h ch ea eam lock]
    by (auto simp: swap_step_refl)
next
  case (ClaimSwap j x who)
  obtain res m1 where r: "claim_swap P now m j x who = (res, m1)" by fastforce
  with ex ClaimSwap have "m1 = m'" "qs = (case res of Err _ \<Rightarrow> [] | Ok t \<Rightarrow> [Payout j who (hs_recipient t) (hs_amount t) now])"
    by (auto split: sum.splits)
  with claim_swap_step [OF r s] show ?thesis by simp
next
  case (RefundSwap j who)
  obtain res m1 where r: "refund_swap now m j who = (res, m1)" by fastforce
  with ex RefundSwap have "m1 = m'" "qs = (case res of Err _ \<Rightarrow> [] | Ok t \<Rightarrow> [Payout j who (hs_sender t) (hs_amount t) now])"
    by (auto split: sum.splits)
  with refund_swap_step [OF r s] show ?thesis by simp
next
  case ExpireStale
  with ex s show ?thesis
    by (auto simp: expire_stale_swaps_def map_of_map_entry swap_step_def terms_def settled_def stale_def)
qed

lemma htlc_call_exec_payout:
  assumes "htlc_call_exec P now c m = (qs, m')" "q \<in> set qs"
  shows "\<exists>s. qs = [q] \<and> hm_get (mg_swaps m) (po_id q) = Some s"
  using assms by (cases c) (auto simp: claim_swap_def refund_swap_def Let_def split: option.splits if_splits prod.splits sum.splits)

section \<open>Swaps are atomic\<close>

definition paid :: "htlc_manager \<Rightarrow> payout \<Rightarrow> bool" where
  "paid m q \<longleftrightarrow> (\<exists>s. hm_get (mg_swaps m) (po_id q) = Some s \<and> po_amount q = hs_amount s \<and> hs_settled_at s = Some (po_at q) \<and>
     (hs_status s = HtlcClaimed \<and> po_caller q = hs_recipient s \<and> po_to q = hs_recipient s \<or>
      hs_status s = HtlcRefunded \<and> po_caller q = hs_sender s \<and> po_to q = hs_sender s))"

definition payouts_ok :: "payout list \<Rightarrow> htlc_manager \<Rightarrow> bool" where
  "payouts_ok ps m \<longleftrightarrow> distinct (map po_id ps) \<and> (\<forall>q \<in> set ps. paid m q) \<and>
     (\<forall>i s. hm_get (mg_swaps m) i = Some s \<longrightarrow> settled s = (i \<in> po_id ` set ps))"

lemma paid_settled: "paid m q \<Longrightarrow> \<exists>s. hm_get (mg_swaps m) (po_id q) = Some s \<and> settled s"
  by (auto simp: paid_def settled_def)

lemma paid_kept:
  assumes "paid m q" "htlc_call_exec P now c m = (qs, m')"
  shows "paid m' q"
proof -
  obtain s where s: "hm_get (mg_swaps m) (po_id q) = Some s" "settled s" using paid_settled [OF assms(1)] by blast
  obtain s' where "hm_get (mg_swaps m') (po_id q) = Some s'" "swap_step qs (po_id q) s s'"
    using htlc_call_exec_step [OF assms(2) s(1)] by blast
  then have "hm_get (mg_swaps m') (po_id q) = Some s" using s(2) by (auto simp: swap_step_def split: if_splits)
  then show ?thesis using assms(1) s(1) by (simp add: paid_def)
qed

lemma new_payout:
  assumes ex: "htlc_call_exec P now c m = (qs, m')" and q: "q \<in> set qs"
  shows "qs = [q] \<and> paid m' q \<and> (\<exists>s. hm_get (mg_swaps m) (po_id q) = Some s \<and> \<not> settled s)"
proof -
  obtain s where s: "qs = [q]" "hm_get (mg_swaps m) (po_id q) = Some s" using htlc_call_exec_payout [OF assms] by blast
  obtain s' where s': "hm_get (mg_swaps m') (po_id q) = Some s'" "swap_step qs (po_id q) s s'"
    using htlc_call_exec_step [OF ex s(2)] by blast
  have "paid m' q \<and> \<not> settled s"
    using s' s(1) by (cases q) (auto simp: swap_step_def paid_def terms_def)
  with s show ?thesis by blast
qed

lemma fresh_swap:
  assumes "htlc_call_exec P now c m = (qs, m')" "hm_get (mg_swaps m) i = None" "hm_get (mg_swaps m') i = Some s"
  shows "\<not> settled s"
proof (cases c)
  case (CreateSwap sn r a h ch ea eam lock)
  obtain res where "create_swap P now m sn r a h ch ea eam lock = (res, m')"
    using assms(1) CreateSwap by (cases "create_swap P now m sn r a h ch ea eam lock") auto
  then show ?thesis
    by (cases rule: create_swap_cases) (use assms(2,3) in \<open>auto simp: settled_def split: if_splits\<close>)
qed (use assms in \<open>auto simp: claim_swap_def refund_swap_def set_swap_def expire_stale_swaps_def map_of_map_entry Let_def
      split: option.splits if_splits prod.splits sum.splits\<close>)

lemma payouts_ok_step:
  assumes ok: "payouts_ok ps m" and ex: "htlc_call_exec P now c m = (qs, m')"
  shows "payouts_ok (ps @ qs) m'"
proof -
  have old: "\<exists>s. hm_get (mg_swaps m) (po_id q) = Some s \<and> settled s" if "q \<in> set ps" for q
    using ok that paid_settled by (auto simp: payouts_ok_def)
  have "distinct (map po_id (ps @ qs))"
  proof (cases qs)
    case (Cons q rs)
    then show ?thesis using new_payout [OF ex, of q] old ok by (force simp: payouts_ok_def)
  qed (use ok in \<open>simp add: payouts_ok_def\<close>)
  moreover have "\<forall>q \<in> set (ps @ qs). paid m' q"
    using ok paid_kept [OF _ ex] new_payout [OF ex] by (auto simp: payouts_ok_def)
  moreover have "settled s' = (i \<in> po_id ` set (ps @ qs))" if s': "hm_get (mg_swaps m') i = Some s'" for i s'
  proof (cases "hm_get (mg_swaps m) i")
    case None
    then have "i \<notin> po_id ` set ps" "i \<notin> po_id ` set qs" using old new_payout [OF ex] by force+
    then show ?thesis using fresh_swap [OF ex None s'] by auto
  next
    case (Some s)
    then have st: "swap_step qs i s s'" "settled s = (i \<in> po_id ` set ps)"
      using htlc_call_exec_step [OF ex Some] s' ok by (auto simp: payouts_ok_def)
    show ?thesis
    proof (cases "\<exists>q \<in> set qs. po_id q = i")
      case True
      with st show ?thesis by (auto simp: swap_step_def settled_def)
    next
      case False
      with st show ?thesis by (auto simp: swap_step_def)
    qed
  qed
  ultimately show ?thesis by (simp add: payouts_ok_def)
qed

lemma htlc_history_payouts: "htlc_history P ps m \<Longrightarrow> payouts_ok ps m"
  by (induction rule: htlc_history.induct)
    (simp add: payouts_ok_def htlc_manager_new_def, blast intro: payouts_ok_step)

text \<open>
  C4 (atomic swaps). In any sequence of calls to the manager, by anyone and at any times, every
  swap pays out at most once, and pays the amount locked: either to the recipient, on the
  recipient's call before the timelock, and then the manager shows a preimage of the hash lock; or to
  the sender, on the sender's call at or after the timelock, and then no preimage is shown.
\<close>

theorem htlc_atomic:
  assumes "htlc_history P ps m"
  shows "distinct (map po_id ps) \<and> (\<forall>q \<in> set ps. \<exists>s. get_swap m (po_id q) = Some s \<and> po_amount q = hs_amount s \<and>
    (po_caller q = hs_recipient s \<and> po_to q = hs_recipient s \<and> po_at q < hs_timelock s \<and>
       (\<exists>x. hs_preimage s = Some x \<and> hash_secret P x = hs_hash_lock s) \<or>
     po_caller q = hs_sender s \<and> po_to q = hs_sender s \<and> hs_timelock s \<le> po_at q \<and> hs_preimage s = None))"
proof -
  have pay: "payouts_ok ps m" and ok: "manager_ok P m"
    using htlc_history_payouts [OF assms] htlc_history_ok [OF assms] by simp_all
  have "\<exists>s. get_swap m (po_id q) = Some s \<and> po_amount q = hs_amount s \<and>
    (po_caller q = hs_recipient s \<and> po_to q = hs_recipient s \<and> po_at q < hs_timelock s \<and>
       (\<exists>x. hs_preimage s = Some x \<and> hash_secret P x = hs_hash_lock s) \<or>
     po_caller q = hs_sender s \<and> po_to q = hs_sender s \<and> hs_timelock s \<le> po_at q \<and> hs_preimage s = None)"
    if "q \<in> set ps" for q
  proof -
    have q: "paid m q" using pay that by (simp add: payouts_ok_def)
    then obtain s where s: "hm_get (mg_swaps m) (po_id q) = Some s" using paid_settled by blast
    from manager_okD [OF ok s] s q show ?thesis
      by (auto simp: get_swap_def paid_def swap_ok_def)
  qed
  then show ?thesis using pay by (simp add: payouts_ok_def)
qed

text \<open>
  C18 (no swap is stuck). A swap that has not paid out pays the recipient as soon as the recipient
  shows a preimage before the timelock, and the sender as soon as the sender asks from the timelock
  on, whatever was called before.
\<close>

theorem htlc_not_stuck:
  assumes "htlc_history P ps m" "get_swap m i = Some s" "i \<notin> po_id ` set ps"
  shows "(now < hs_timelock s \<and> hash_secret P x = hs_hash_lock s \<longrightarrow>
      (\<exists>m'. htlc_call_exec P now (ClaimSwap i x (hs_recipient s)) m = ([Payout i (hs_recipient s) (hs_recipient s) (hs_amount s) now], m'))) \<and>
    (hs_timelock s \<le> now \<longrightarrow>
      (\<exists>m'. htlc_call_exec P now (RefundSwap i (hs_sender s)) m = ([Payout i (hs_sender s) (hs_sender s) (hs_amount s) now], m')))"
proof -
  have "\<not> settled s" using htlc_history_payouts [OF assms(1)] assms(2,3) by (auto simp: payouts_ok_def get_swap_def)
  then show ?thesis using assms(2)
    by (auto simp: claim_swap_def refund_swap_def get_swap_def settled_def Let_def)
qed

definition example_htlc_prims :: htlc_prims where
  "example_htlc_prims = crypto_prims.extend example_prims (htlc_prims.fields (\<lambda>bs. of_nat (length bs)))"

lemma example_htlc_run:
  "\<exists>m s. htlc_history example_htlc_prims [Payout (hex_encode example_htlc_prims (to_be_bytes (3 :: 256 word))) 2 2 500 20] m \<and>
     get_swap m (hex_encode example_htlc_prims (to_be_bytes (3 :: 256 word))) = Some s \<and> hs_preimage s = Some [7, 8, 9]"
proof -
  let ?P = example_htlc_prims and ?i = "hex_encode example_htlc_prims (to_be_bytes (3 :: 256 word))"
  let ?m1 = "snd (create_swap ?P 10 (htlc_manager_new 60) 1 2 500 3 Ethereum ''0xabc'' ''7'' (Some 100))"
  have "htlc_history ?P ([] @ []) ?m1"
    by (rule htlc_history.call [OF htlc_history.start, where now = 10 and c = "CreateSwap 1 2 500 3 Ethereum ''0xabc'' ''7'' (Some 100)"]) simp
  moreover have sha: "hash_secret ?P [7, 8, 9] = 3" by (simp add: hash_secret_def example_htlc_prims_def crypto_prims.defs htlc_prims.defs)
  have "\<exists>m s. htlc_call_exec ?P 20 (ClaimSwap ?i [7, 8, 9] 2) ?m1 = ([Payout ?i 2 2 500 20], m) \<and>
      get_swap m ?i = Some s \<and> hs_preimage s = Some [7, 8, 9]"
    by (simp add: claim_swap_def create_swap_def htlc_manager_new_def hm_contains_def Let_def set_swap_def get_swap_def sha)
  ultimately show ?thesis using htlc_history.call by fastforce
qed

theorem htlc_atomic_witness:
  "\<exists>m s. htlc_history example_htlc_prims [Payout (hex_encode example_htlc_prims (to_be_bytes (3 :: 256 word))) 2 2 500 20] m \<and>
     get_swap m (hex_encode example_htlc_prims (to_be_bytes (3 :: 256 word))) = Some s \<and> hs_amount s = 500"
proof -
  obtain m where "htlc_history example_htlc_prims [Payout (hex_encode example_htlc_prims (to_be_bytes (3 :: 256 word))) 2 2 500 20] m"
    using example_htlc_run by blast
  from this htlc_atomic [OF this] show ?thesis by auto
qed

theorem htlc_not_stuck_witness:
  "\<exists>m m'. htlc_history example_htlc_prims [] m \<and> htlc_call_exec example_htlc_prims 100
     (RefundSwap (hex_encode example_htlc_prims (to_be_bytes (3 :: 256 word))) 1) m =
     ([Payout (hex_encode example_htlc_prims (to_be_bytes (3 :: 256 word))) 1 1 500 100], m')"
proof -
  let ?P = example_htlc_prims and ?i = "hex_encode example_htlc_prims (to_be_bytes (3 :: 256 word))"
  let ?m1 = "snd (create_swap ?P 10 (htlc_manager_new 60) 1 2 500 3 Ethereum ''0xabc'' ''7'' (Some 100))"
  have h: "htlc_history ?P ([] @ []) ?m1"
    by (rule htlc_history.call [OF htlc_history.start, where now = 10 and c = "CreateSwap 1 2 500 3 Ethereum ''0xabc'' ''7'' (Some 100)"]) simp
  obtain s where s: "get_swap ?m1 ?i = Some s" "hs_timelock s = 100" "hs_sender s = 1" "hs_amount s = 500"
    by (simp add: get_swap_def create_swap_def htlc_manager_new_def hm_contains_def Let_def)
  from htlc_not_stuck [OF h s(1), of 100] h s(2-4) show ?thesis by auto
qed

section \<open>The manager as a hash time lock\<close>

definition swap_lock :: "htlc_manager \<Rightarrow> string \<Rightarrow> hash_time_lock option" where
  "swap_lock m i = (case get_swap m i of
     None \<Rightarrow> None
   | Some s \<Rightarrow> if hs_status s \<in> {HtlcClaimed, HtlcRefunded} then None
       else Some \<lparr>lk_hash = hs_hash_lock s, lk_giver = hs_sender s, lk_taker = hs_recipient s, lk_until = hs_timelock s\<rparr>)"

text \<open>The manager after a call that succeeds.\<close>

definition swap_claim :: "'p htlc_prims_scheme \<Rightarrow> u64 \<Rightarrow> address \<Rightarrow> string \<Rightarrow> bytes \<Rightarrow> htlc_manager \<Rightarrow> htlc_manager option" where
  "swap_claim P now a i p m = (case claim_swap P now m i p a of (Ok s, m') \<Rightarrow> Some m' | (Err e, m') \<Rightarrow> None)"

definition swap_refund :: "u64 \<Rightarrow> address \<Rightarrow> string \<Rightarrow> htlc_manager \<Rightarrow> htlc_manager option" where
  "swap_refund now a i m = (case refund_swap now m i a of (Ok s, m') \<Rightarrow> Some m' | (Err e, m') \<Rightarrow> None)"

interpretation swap: timed_lock "hash_secret P" swap_lock "swap_claim P" swap_refund for P
proof
  fix m i l p now a
  assume "swap_lock m i = Some l"
  then show "swap_claim P now a i p m \<noteq> None \<longleftrightarrow> a = lk_taker l \<and> now < lk_until l \<and> hash_secret P p = lk_hash l"
    by (auto simp: swap_lock_def swap_claim_def claim_swap_def get_swap_def Let_def not_le split: option.splits if_splits)
next
  fix m i l now a
  assume "swap_lock m i = Some l"
  then show "swap_refund now a i m \<noteq> None \<longleftrightarrow> a = lk_giver l \<and> lk_until l \<le> now"
    by (auto simp: swap_lock_def swap_refund_def refund_swap_def get_swap_def Let_def not_less split: option.splits if_splits)
next
  fix m i p now a m'
  assume "swap_claim P now a i p m = Some m'"
  then show "swap_lock m i \<noteq> None \<and> swap_lock m' = (swap_lock m)(i := None)"
    by (cases "hm_get (mg_swaps m) i") (auto simp: swap_lock_def swap_claim_def claim_swap_def get_swap_def set_swap_def Let_def fun_eq_iff split: if_splits)
next
  fix m i now a m'
  assume "swap_refund now a i m = Some m'"
  then show "swap_lock m i \<noteq> None \<and> swap_lock m' = (swap_lock m)(i := None)"
    by (cases "hm_get (mg_swaps m) i") (auto simp: swap_lock_def swap_refund_def refund_swap_def get_swap_def set_swap_def Let_def fun_eq_iff split: if_splits)
qed

lemma swap_claim_taker:
  assumes "swap_lock m i = Some l" "now < lk_until l" "hash_secret P p = lk_hash l"
  shows "\<exists>s m'. claim_swap P now m i p (lk_taker l) = (Ok s, m')"
  using assms by (auto simp: swap_lock_def claim_swap_def get_swap_def Let_def not_le split: option.splits if_splits)

end
