(* ===== verification/Bridge.thy ===== *)
theory Bridge
  imports Bridge_Types
begin

text \<open>
  The bridge: the chain adapters (\<open>src/crates/bridge/src/chains/\<close>), the state of transfers
  (\<open>state.rs\<close>) and the relayer that drives them (\<open>relay.rs\<close>).

  A call that reads the clock more than once takes the readings as a function \<open>clock\<close> of the number
  of the reading. The adapters are the simulations the sources contain; an adapter behind
  \<open>Arc<dyn ChainAdapter>\<close> is one of the three, with its block counter as its state.

  Shown of them: the amounts locked and minted are the sums over the transfers recorded; a transfer
  is finalized only with the confirmations it requires, and not again unless it was marked as
  failed; and which validated transfers can be finalized.
\<close>

section \<open>Chain adapters\<close>

record external_lock_event =
  le_tx_hash :: string
  le_sender :: string
  le_recipient :: string
  le_token_symbol :: string
  le_amount :: u128
  le_block_number :: u64
  le_confirmations :: u64

record evm_adapter =
  ea_chain :: external_chain
  ea_rpc_url :: string
  ea_bridge_contract :: string
  ea_confirmations :: u64
  ea_simulated_block :: u64

record bitcoin_adapter =
  ba_rpc_url :: string
  ba_network :: string
  ba_simulated_block :: u64

record solana_adapter =
  sa_rpc_url :: string
  sa_bridge_program_id :: string
  sa_simulated_slot :: u64

datatype chain_adapter = EvmAdapter evm_adapter | BitcoinAdapter bitcoin_adapter | SolanaAdapter solana_adapter

text \<open>The constructor for EVM chains asserts that the chain is one; \<open>None\<close> is the panic.\<close>

definition evm_adapter_new :: "external_chain \<Rightarrow> string \<Rightarrow> string \<Rightarrow> evm_adapter option" where
  "evm_adapter_new c url contract =
     (if \<not> is_evm c then None
      else Some \<lparr>ea_chain = c, ea_rpc_url = url, ea_bridge_contract = contract,
        ea_confirmations = (case c of Ethereum \<Rightarrow> 12 | BnbChain \<Rightarrow> 15 | Polygon \<Rightarrow> 128 | _ \<Rightarrow> 12),
        ea_simulated_block = 1000000\<rparr>)"

definition ZERO_CONTRACT :: string where
  "ZERO_CONTRACT = ''0x0000000000000000000000000000000000000000''"

definition evm_adapter_defaults :: "(external_chain \<times> evm_adapter option) list" where
  "evm_adapter_defaults =
     [(Ethereum, evm_adapter_new Ethereum ''https://eth.llamarpc.com'' ZERO_CONTRACT),
      (BnbChain, evm_adapter_new BnbChain ''https://bsc-dataseed1.binance.org'' ZERO_CONTRACT),
      (Polygon, evm_adapter_new Polygon ''https://polygon-rpc.com'' ZERO_CONTRACT)]"

definition bitcoin_adapter_new :: "string \<Rightarrow> string \<Rightarrow> bitcoin_adapter" where
  "bitcoin_adapter_new url network = \<lparr>ba_rpc_url = url, ba_network = network, ba_simulated_block = 800000\<rparr>"

definition default_testnet :: bitcoin_adapter where
  "default_testnet = bitcoin_adapter_new ''http://localhost:18332'' ''testnet''"

definition solana_adapter_new :: "string \<Rightarrow> string \<Rightarrow> solana_adapter" where
  "solana_adapter_new url program = \<lparr>sa_rpc_url = url, sa_bridge_program_id = program, sa_simulated_slot = 200000000\<rparr>"

definition default_devnet :: solana_adapter where
  "default_devnet = solana_adapter_new ''https://api.devnet.solana.com'' ''Bridge1111111111111111111111111111111111111''"

fun adapter_chain_name :: "chain_adapter \<Rightarrow> string" where
  "adapter_chain_name (EvmAdapter a) = ec_name (ea_chain a)"
| "adapter_chain_name (BitcoinAdapter a) = ''Bitcoin''"
| "adapter_chain_name (SolanaAdapter a) = ''Solana''"

fun adapter_rpc_url :: "chain_adapter \<Rightarrow> string" where
  "adapter_rpc_url (EvmAdapter a) = ea_rpc_url a"
| "adapter_rpc_url (BitcoinAdapter a) = ba_rpc_url a"
| "adapter_rpc_url (SolanaAdapter a) = sa_rpc_url a"

definition adapter_is_connected :: "chain_adapter \<Rightarrow> bool" where
  "adapter_is_connected a = True"

fun adapter_block :: "chain_adapter \<Rightarrow> u64" where
  "adapter_block (EvmAdapter a) = ea_simulated_block a"
| "adapter_block (BitcoinAdapter a) = ba_simulated_block a"
| "adapter_block (SolanaAdapter a) = sa_simulated_slot a"

definition current_block_number :: "chain_adapter \<Rightarrow> bridge_error + u64" where
  "current_block_number a = Ok (adapter_block a)"

fun adapter_required_confirmations :: "chain_adapter \<Rightarrow> u64" where
  "adapter_required_confirmations (EvmAdapter a) = ea_confirmations a"
| "adapter_required_confirmations (BitcoinAdapter a) = 6"
| "adapter_required_confirmations (SolanaAdapter a) = 32"

definition poll_lock_events :: "chain_adapter \<Rightarrow> u64 \<Rightarrow> u64 \<Rightarrow> bridge_error + external_lock_event list" where
  "poll_lock_events a from_block to_block = Ok []"

definition verify_tx_proof :: "chain_adapter \<Rightarrow> string \<Rightarrow> u128 \<Rightarrow> bridge_error + bool" where
  "verify_tx_proof a tx_hash expected_amount = Ok True"

fun bridge_contract_address :: "chain_adapter \<Rightarrow> string" where
  "bridge_contract_address (EvmAdapter a) = ea_bridge_contract a"
| "bridge_contract_address (BitcoinAdapter a) = ''htlc-script''"
| "bridge_contract_address (SolanaAdapter a) = sa_bridge_program_id a"

fun estimate_unlock_gas :: "chain_adapter \<Rightarrow> bridge_error + u128" where
  "estimate_unlock_gas (EvmAdapter a) = Ok 65000"
| "estimate_unlock_gas (BitcoinAdapter a) = Ok 5000"
| "estimate_unlock_gas (SolanaAdapter a) = Ok 5000"

text \<open>\<open>format!("{:064x}", n)\<close>: lower-case hexadecimal digits, padded with zeros.\<close>

fun show_hex :: "nat \<Rightarrow> string" where
  "show_hex n = (if n < 16 then [''0123456789abcdef'' ! n] else show_hex (n div 16) @ [''0123456789abcdef'' ! (n mod 16)])"

declare show_hex.simps [simp del]

definition pad_zeros :: "nat \<Rightarrow> string \<Rightarrow> string" where
  "pad_zeros w s = replicate (w - length s) CHR ''0'' @ s"

definition unlock_number :: "u64 \<Rightarrow> u128 \<Rightarrow> u128" where
  "unlock_number block amount = ucast block * 1000 + amount mod 1000"

definition SIMULATED :: string where
  "SIMULATED = ''simulated'' @ replicate 68 CHR ''0''"

definition evm_submit_unlock :: "evm_adapter \<Rightarrow> string \<Rightarrow> string \<Rightarrow> u128 \<Rightarrow> (bridge_error + string) \<times> evm_adapter" where
  "evm_submit_unlock a recipient token amount =
     (Ok (''0x'' @ pad_zeros 64 (show_hex (unat (unlock_number (ea_simulated_block a) amount)))),
      a\<lparr>ea_simulated_block := ea_simulated_block a + 1\<rparr>)"

definition bitcoin_submit_unlock :: "bitcoin_adapter \<Rightarrow> string \<Rightarrow> string \<Rightarrow> u128 \<Rightarrow> (bridge_error + string) \<times> bitcoin_adapter" where
  "bitcoin_submit_unlock a recipient token amount =
     (Ok (pad_zeros 64 (show_hex (unat (unlock_number (ba_simulated_block a) amount)))),
      a\<lparr>ba_simulated_block := ba_simulated_block a + 1\<rparr>)"

definition solana_submit_unlock :: "'p crypto_prims_scheme \<Rightarrow> solana_adapter \<Rightarrow> string \<Rightarrow> string \<Rightarrow> u128 \<Rightarrow> (bridge_error + string) \<times> solana_adapter" where
  "solana_submit_unlock P a recipient token amount =
     (Ok (take 88 (hex_encode P (to_le_bytes (sa_simulated_slot a)) @ take 16 (hex_encode P (to_le_bytes amount)) @ SIMULATED)),
      a\<lparr>sa_simulated_slot := sa_simulated_slot a + 1\<rparr>)"

fun submit_unlock :: "'p crypto_prims_scheme \<Rightarrow> chain_adapter \<Rightarrow> string \<Rightarrow> string \<Rightarrow> u128 \<Rightarrow> (bridge_error + string) \<times> chain_adapter" where
  "submit_unlock P (EvmAdapter a) recipient token amount = map_prod id EvmAdapter (evm_submit_unlock a recipient token amount)"
| "submit_unlock P (BitcoinAdapter a) recipient token amount = map_prod id BitcoinAdapter (bitcoin_submit_unlock a recipient token amount)"
| "submit_unlock P (SolanaAdapter a) recipient token amount = map_prod id SolanaAdapter (solana_submit_unlock P a recipient token amount)"

text \<open>
  The redeem script of a swap on Bitcoin; lengths of keys are cut to one byte, as \<open>as u8\<close> does.
\<close>

definition build_htlc_script :: "256 word \<Rightarrow> bytes \<Rightarrow> bytes \<Rightarrow> u32 \<Rightarrow> bytes" where
  "build_htlc_script hash_lock recipient_pubkey sender_pubkey timelock =
     [0x63, 0xa8, 0x20] @ to_be_bytes hash_lock @ [0x88, of_nat (length recipient_pubkey)] @ recipient_pubkey @
     [0xac, 0x67, 0x04] @ to_le_bytes timelock @ [0xb1, 0x75, of_nat (length sender_pubkey)] @ sender_pubkey @ [0xac, 0x68]"

section \<open>The state of the bridge\<close>

record wrapped_token_state =
  wt_total_minted :: u128
  wt_total_burned :: u128
  wt_balances :: "(string, u128) hmap"

definition wrapped_default :: wrapped_token_state where
  "wrapped_default = \<lparr>wt_total_minted = 0, wt_total_burned = 0, wt_balances = []\<rparr>"

definition circulating_supply :: "wrapped_token_state \<Rightarrow> u128" where
  "circulating_supply w = saturating_sub (wt_total_minted w) (wt_total_burned w)"

record bridge_state =
  bs_transfers :: "(string, bridge_transfer) hmap"
  bs_by_sender :: "(string, string list) hmap"
  bs_locked :: "(string, u128) hmap"
  bs_wrapped :: "(string, wrapped_token_state) hmap"
  bs_config :: bridge_config
  bs_paused :: bool
  bs_counter :: u64

definition bridge_state_new :: "bridge_config \<Rightarrow> bridge_state" where
  "bridge_state_new cfg = \<lparr>bs_transfers = [], bs_by_sender = [], bs_locked = [], bs_wrapped = [],
     bs_config = cfg, bs_paused = False, bs_counter = 0\<rparr>"

definition lock_key :: "external_chain \<Rightarrow> string \<Rightarrow> string" where
  "lock_key c token = ec_name c @ '':'' @ token"

definition transfer_id :: "u64 \<Rightarrow> u64 \<Rightarrow> string" where
  "transfer_id now n = ''bridge-'' @ show_word now @ ''-'' @ show_word n"

definition next_id :: "u64 \<Rightarrow> bridge_state \<Rightarrow> string \<times> bridge_state" where
  "next_id now st = (let n = bs_counter st + 1 in (transfer_id now n, st\<lparr>bs_counter := n\<rparr>))"

definition is_paused :: "bridge_state \<Rightarrow> bool" where
  "is_paused st = bs_paused st"

definition bridge_pause :: "bridge_state \<Rightarrow> bridge_state" where
  "bridge_pause st = st\<lparr>bs_paused := True\<rparr>"

definition bridge_unpause :: "bridge_state \<Rightarrow> bridge_state" where
  "bridge_unpause st = st\<lparr>bs_paused := False\<rparr>"

definition initiate_outbound :: "'p crypto_prims_scheme \<Rightarrow> (nat \<Rightarrow> u64) \<Rightarrow> bridge_state \<Rightarrow> address \<Rightarrow> external_chain \<Rightarrow> string \<Rightarrow>
    string \<Rightarrow> u128 \<Rightarrow> u128 \<Rightarrow> (bridge_error + bridge_transfer) \<times> bridge_state" where
  "initiate_outbound P clock st sender dest_chain recipient token amount fee =
     (if is_paused st then (Err BridgePaused, st)
      else if \<not> bc_allow_outbound (bs_config st) then (Err (Unauthorized ''Outbound transfers disabled''), st)
      else
        (let now = clock 0; (i, st1) = next_id (clock 1) st;
             t = \<lparr>tr_id = i, tr_direction = Outbound, tr_source_chain = ''RustChain'', tr_dest_chain = ec_name dest_chain,
                  tr_sender = address_to_hex P sender, tr_recipient = recipient, tr_token_symbol = token,
                  tr_amount = amount, tr_fee = fee, tr_status = Pending, tr_source_tx_hash = None, tr_dest_tx_hash = None,
                  tr_confirmations = 0, tr_required_confirmations = bc_min_signatures (bs_config st),
                  tr_created_at = now, tr_updated_at = now,
                  tr_expires_at = now + bc_transfer_timeout_seconds (bs_config st) * 1000\<rparr>;
             key = lock_key dest_chain token in
         (Ok t, st1\<lparr>bs_locked := hm_put key (unwrap_or 0 (hm_get (bs_locked st1) key) + amount) (bs_locked st1),
            bs_transfers := hm_put i t (bs_transfers st1),
            bs_by_sender := hm_put (address_to_hex P sender)
              (unwrap_or [] (hm_get (bs_by_sender st1) (address_to_hex P sender)) @ [i]) (bs_by_sender st1)\<rparr>)))"

definition record_inbound :: "'p crypto_prims_scheme \<Rightarrow> (nat \<Rightarrow> u64) \<Rightarrow> bridge_state \<Rightarrow> external_chain \<Rightarrow> string \<Rightarrow> address \<Rightarrow>
    string \<Rightarrow> u128 \<Rightarrow> u128 \<Rightarrow> string \<Rightarrow> (bridge_error + bridge_transfer) \<times> bridge_state" where
  "record_inbound P clock st source_chain sender recipient token amount fee source_tx =
     (if is_paused st then (Err BridgePaused, st)
      else if \<not> bc_accept_inbound (bs_config st) then (Err (Unauthorized ''Inbound transfers disabled''), st)
      else
        (let now = clock 0; (i, st1) = next_id (clock 1) st;
             t = \<lparr>tr_id = i, tr_direction = Inbound, tr_source_chain = ec_name source_chain, tr_dest_chain = ''RustChain'',
                  tr_sender = sender, tr_recipient = address_to_hex P recipient, tr_token_symbol = token,
                  tr_amount = amount, tr_fee = fee, tr_status = SourceConfirmed, tr_source_tx_hash = Some source_tx,
                  tr_dest_tx_hash = None, tr_confirmations = 0,
                  tr_required_confirmations = bc_min_signatures (bs_config st),
                  tr_created_at = now, tr_updated_at = now,
                  tr_expires_at = now + bc_transfer_timeout_seconds (bs_config st) * 1000\<rparr>;
             key = lock_key source_chain token; w = unwrap_or wrapped_default (hm_get (bs_wrapped st1) key) in
         (Ok t, st1\<lparr>bs_wrapped := hm_put key (w\<lparr>wt_total_minted := wt_total_minted w + saturating_sub amount fee\<rparr>) (bs_wrapped st1),
            bs_transfers := hm_put i t (bs_transfers st1)\<rparr>)))"

definition set_transfer :: "string \<Rightarrow> bridge_transfer \<Rightarrow> bridge_state \<Rightarrow> bridge_state" where
  "set_transfer i t st = st\<lparr>bs_transfers := hm_put i t (bs_transfers st)\<rparr>"

definition add_confirmation :: "u64 \<Rightarrow> bridge_state \<Rightarrow> string \<Rightarrow> address \<Rightarrow> (bridge_error + bridge_transfer) \<times> bridge_state" where
  "add_confirmation now st i validator =
     (case hm_get (bs_transfers st) i of
        None \<Rightarrow> (Err (TransferNotFound i), st)
      | Some t \<Rightarrow>
          if tr_status t = Completed then (Err TransferAlreadyProcessed, st)
          else
            (let n = tr_confirmations t + 1;
                 t' = t\<lparr>tr_confirmations := n, tr_updated_at := now,
                   tr_status := (if tr_required_confirmations t \<le> n then Validated else tr_status t)\<rparr> in
             (Ok t', set_transfer i t' st)))"

definition complete_transfer :: "u64 \<Rightarrow> bridge_state \<Rightarrow> string \<Rightarrow> string \<Rightarrow> (bridge_error + bridge_transfer) \<times> bridge_state" where
  "complete_transfer now st i dest_tx =
     (case hm_get (bs_transfers st) i of
        None \<Rightarrow> (Err (TransferNotFound i), st)
      | Some t \<Rightarrow>
          (let t' = t\<lparr>tr_status := Completed, tr_dest_tx_hash := Some dest_tx, tr_updated_at := now\<rparr> in
           (Ok t', set_transfer i t' st)))"

definition fail_transfer :: "u64 \<Rightarrow> bridge_state \<Rightarrow> string \<Rightarrow> (bridge_error + bridge_transfer) \<times> bridge_state" where
  "fail_transfer now st i =
     (case hm_get (bs_transfers st) i of
        None \<Rightarrow> (Err (TransferNotFound i), st)
      | Some t \<Rightarrow>
          (let t' = t\<lparr>tr_status := Failed, tr_updated_at := now\<rparr> in (Ok t', set_transfer i t' st)))"

definition get_transfer :: "bridge_state \<Rightarrow> string \<Rightarrow> bridge_transfer option" where
  "get_transfer st i = hm_get (bs_transfers st) i"

definition get_transfers_by_sender :: "bridge_state \<Rightarrow> string \<Rightarrow> bridge_transfer list" where
  "get_transfers_by_sender st sender =
     unwrap_or [] (map_option (List.map_filter (hm_get (bs_transfers st))) (hm_get (bs_by_sender st) sender))"

definition list_transfers :: "bridge_state \<Rightarrow> nat \<Rightarrow> nat \<Rightarrow> bridge_transfer list" where
  "list_transfers st limit offset =
     take limit (drop offset (sort_by (\<lambda>a b. tr_created_at b \<le> tr_created_at a) (map snd (bs_transfers st))))"

definition get_liquidity :: "bridge_state \<Rightarrow> bridge_liquidity list" where
  "get_liquidity st = map (\<lambda>c.
     let key = lock_key c (ec_symbol c); locked = unwrap_or 0 (hm_get (bs_locked st) key);
         wrapped = unwrap_or 0 (map_option circulating_supply (hm_get (bs_wrapped st) key)) in
     \<lparr>lq_chain = c, lq_token_symbol = ec_symbol c, lq_locked_amount = locked, lq_wrapped_supply = wrapped,
      lq_available_outbound = saturating_sub locked wrapped\<rparr>) ec_all"

definition total_transfers :: "bridge_state \<Rightarrow> nat" where
  "total_transfers st = length (bs_transfers st)"

definition pending_transfers :: "bridge_state \<Rightarrow> nat" where
  "pending_transfers st =
     length (filter (\<lambda>(i, t). tr_status t \<in> {Pending, SourceConfirmed, RelaySubmitted}) (bs_transfers st))"

section \<open>The relayer\<close>

record bridge_relayer =
  rl_state :: bridge_state
  rl_validators :: bridge_validator_set
  rl_adapters :: "(external_chain, chain_adapter) hmap"

definition bridge_relayer_new :: "bridge_state \<Rightarrow> bridge_validator_set \<Rightarrow> bridge_relayer" where
  "bridge_relayer_new st vs = \<lparr>rl_state = st, rl_validators = vs, rl_adapters = []\<rparr>"

definition register_adapter :: "bridge_relayer \<Rightarrow> external_chain \<Rightarrow> chain_adapter \<Rightarrow> bridge_relayer" where
  "register_adapter r c a = r\<lparr>rl_adapters := hm_put c a (rl_adapters r)\<rparr>"

definition registered_chains :: "bridge_relayer \<Rightarrow> external_chain list" where
  "registered_chains r = map fst (rl_adapters r)"

definition calculate_fee :: "u128 \<Rightarrow> external_chain \<Rightarrow> string \<Rightarrow> u128" where
  "calculate_fee amount c token = max (amount div 1000) 1"

definition process_inbound_event :: "'p crypto_prims_scheme \<Rightarrow> (nat \<Rightarrow> u64) \<Rightarrow> bridge_relayer \<Rightarrow> external_chain \<Rightarrow> string \<Rightarrow> address \<Rightarrow>
    string \<Rightarrow> u128 \<Rightarrow> string \<Rightarrow> (bridge_error + bridge_transfer) \<times> bridge_relayer" where
  "process_inbound_event P clock r source_chain sender recipient token amount source_tx =
     (case record_inbound P clock (rl_state r) source_chain sender recipient token amount
        (calculate_fee amount source_chain token) source_tx of (res, st) \<Rightarrow> (res, r\<lparr>rl_state := st\<rparr>))"

definition process_outbound_request :: "'p crypto_prims_scheme \<Rightarrow> (nat \<Rightarrow> u64) \<Rightarrow> bridge_relayer \<Rightarrow> address \<Rightarrow> external_chain \<Rightarrow> string \<Rightarrow>
    string \<Rightarrow> u128 \<Rightarrow> (bridge_error + bridge_transfer) \<times> bridge_relayer" where
  "process_outbound_request P clock r sender dest_chain recipient token amount =
     (let fee = calculate_fee amount dest_chain token in
      if amount \<le> fee then (Err (InvalidAmount ''Amount must be greater than fee''), r)
      else case initiate_outbound P clock (rl_state r) sender dest_chain recipient token amount fee of
        (res, st) \<Rightarrow> (res, r\<lparr>rl_state := st\<rparr>))"

definition submit_confirmation :: "u64 \<Rightarrow> bridge_relayer \<Rightarrow> string \<Rightarrow> address \<Rightarrow> (bridge_error + bridge_transfer) \<times> bridge_relayer" where
  "submit_confirmation now r i validator =
     (if \<not> bvs_is_validator (rl_validators r) validator then (Err (Unauthorized ''Not a bridge validator''), r)
      else case add_confirmation now (rl_state r) i validator of
        (res, st) \<Rightarrow> (res, r\<lparr>rl_state := st, rl_validators := bvs_record_confirmation validator (rl_validators r)\<rparr>))"

definition finish_transfer :: "u64 \<Rightarrow> bridge_relayer \<Rightarrow> string \<Rightarrow> string \<Rightarrow> (bridge_error + bridge_transfer) \<times> bridge_relayer" where
  "finish_transfer now r i dest_tx =
     (case complete_transfer now (rl_state r) i dest_tx of (res, st) \<Rightarrow> (res, r\<lparr>rl_state := st\<rparr>))"

definition finalize_transfer :: "'p crypto_prims_scheme \<Rightarrow> u64 \<Rightarrow> bridge_relayer \<Rightarrow> string \<Rightarrow> (bridge_error + bridge_transfer) \<times> bridge_relayer" where
  "finalize_transfer P now r i =
     (case get_transfer (rl_state r) i of
        None \<Rightarrow> (Err (TransferNotFound i), r)
      | Some t \<Rightarrow>
          if tr_status t \<noteq> Validated then (Err TransferAlreadyProcessed, r)
          else (case tr_direction t of
            Inbound \<Rightarrow> finish_transfer now r i (''rustchain-mint-'' @ i)
          | Outbound \<Rightarrow>
              (case from_name (tr_dest_chain t) of
                 None \<Rightarrow> (Err (UnsupportedChain (tr_dest_chain t)), r)
               | Some c \<Rightarrow>
                   (case hm_get (rl_adapters r) c of
                      Some a \<Rightarrow>
                        (case submit_unlock P a (tr_recipient t) (tr_token_symbol t) (saturating_sub (tr_amount t) (tr_fee t)) of
                           (Err e, a') \<Rightarrow> (Err e, register_adapter r c a')
                         | (Ok dest_tx, a') \<Rightarrow> finish_transfer now (register_adapter r c a') i dest_tx)
                    | None \<Rightarrow> finish_transfer now r i (''pending-'' @ to_lowercase (ec_name c) @ ''-unlock-'' @ i)))))"

definition get_fee_schedule :: "bridge_fee_schedule list" where
  "get_fee_schedule = map (\<lambda>c. \<lparr>fs_chain = c, fs_token_symbol = ec_symbol c, fs_fee_bps = 10, fs_min_fee = 1,
     fs_estimated_gas_cost = (case c of
        Bitcoin \<Rightarrow> ''~0.0001 BTC'' | Ethereum \<Rightarrow> ''~0.005 ETH'' | BnbChain \<Rightarrow> ''~0.001 BNB''
      | Polygon \<Rightarrow> ''~0.01 MATIC'' | Solana \<Rightarrow> ''~0.000005 SOL'')\<rparr>) ec_all"

section \<open>Histories of the relayer\<close>

text \<open>
  The calls a running bridge serves: those of the relayer and of the validator set, and of the state
  behind the relayer those that interfere with it, that is pausing and marking a transfer completed
  or failed. What is remembered of them: who confirmed which transfer, whether that address was a
  validator then, which transfers were finalized, and which were marked.
\<close>

datatype relay_call =
    InboundEvent external_chain string address string u128 string
  | OutboundRequest address external_chain string string u128
  | SubmitConfirmation string address
  | FinalizeTransfer string
  | AddBridgeValidator address public_key u64
  | RemoveBridgeValidator address
  | RegisterAdapter external_chain chain_adapter
  | PauseBridge
  | UnpauseBridge
  | CompleteTransfer string string
  | FailTransfer string

datatype relay_event = Confirmed string address bool | Finalized string | MarkedCompleted string | MarkedFailed string

definition when_ok :: "'v \<Rightarrow> ('e + 'a) \<times> 'r \<Rightarrow> 'v list \<times> 'r" where
  "when_ok v x = (case x of (Err _, r) \<Rightarrow> ([], r) | (Ok _, r) \<Rightarrow> ([v], r))"

fun relay_exec :: "'p crypto_prims_scheme \<Rightarrow> (nat \<Rightarrow> u64) \<Rightarrow> relay_call \<Rightarrow> bridge_relayer \<Rightarrow> relay_event list \<times> bridge_relayer" where
  "relay_exec P clock (InboundEvent c s rc tok a tx) r = ([], snd (process_inbound_event P clock r c s rc tok a tx))"
| "relay_exec P clock (OutboundRequest s c rc tok a) r = ([], snd (process_outbound_request P clock r s c rc tok a))"
| "relay_exec P clock (SubmitConfirmation i v) r =
     when_ok (Confirmed i v (bvs_is_validator (rl_validators r) v)) (submit_confirmation (clock 0) r i v)"
| "relay_exec P clock (FinalizeTransfer i) r = when_ok (Finalized i) (finalize_transfer P (clock 0) r i)"
| "relay_exec P clock (AddBridgeValidator a pk w) r = ([], r\<lparr>rl_validators := bvs_add_validator (clock 0) a pk w (rl_validators r)\<rparr>)"
| "relay_exec P clock (RemoveBridgeValidator a) r = ([], r\<lparr>rl_validators := bvs_remove_validator a (rl_validators r)\<rparr>)"
| "relay_exec P clock (RegisterAdapter c a) r = ([], register_adapter r c a)"
| "relay_exec P clock PauseBridge r = ([], r\<lparr>rl_state := bridge_pause (rl_state r)\<rparr>)"
| "relay_exec P clock UnpauseBridge r = ([], r\<lparr>rl_state := bridge_unpause (rl_state r)\<rparr>)"
| "relay_exec P clock (CompleteTransfer i tx) r = when_ok (MarkedCompleted i) (finish_transfer (clock 0) r i tx)"
| "relay_exec P clock (FailTransfer i) r =
     when_ok (MarkedFailed i) (case fail_transfer (clock 0) (rl_state r) i of (res, st) \<Rightarrow> (res, r\<lparr>rl_state := st\<rparr>))"

inductive relay_history :: "'p crypto_prims_scheme \<Rightarrow> bridge_config \<Rightarrow> nat \<Rightarrow> relay_event list \<Rightarrow> bridge_relayer \<Rightarrow> bool" for P cfg where
  start: "relay_history P cfg 0 [] (bridge_relayer_new (bridge_state_new cfg) (bvs_new n))"
| call: "relay_history P cfg k evs r \<Longrightarrow> relay_exec P clock c r = (evs', r') \<Longrightarrow> relay_history P cfg (Suc k) (evs @ evs') r'"

text \<open>The part of a transfer that never changes.\<close>

definition transfer_terms :: "bridge_transfer \<Rightarrow> string \<times> bridge_direction \<times> string \<times> string \<times> string \<times> u128 \<times> u128 \<times> nat" where
  "transfer_terms t = (tr_id t, tr_direction t, tr_source_chain t, tr_dest_chain t, tr_token_symbol t, tr_amount t, tr_fee t,
     tr_required_confirmations t)"

text \<open>What one call does to the transfers: nothing, one new entry, or a step of one entry.\<close>

definition new_transfer :: "bridge_relayer \<Rightarrow> external_chain \<Rightarrow> bridge_transfer \<Rightarrow> bridge_relayer \<Rightarrow> bool" where
  "new_transfer r c t r' \<longleftrightarrow> (let key = lock_key c (tr_token_symbol t);
       w = unwrap_or wrapped_default (hm_get (bs_wrapped (rl_state r)) key) in
     bs_counter (rl_state r') = bs_counter (rl_state r) + 1 \<and>
     (\<exists>now. tr_id t = transfer_id now (bs_counter (rl_state r'))) \<and>
     bs_transfers (rl_state r') = hm_put (tr_id t) t (bs_transfers (rl_state r)) \<and>
     tr_confirmations t = 0 \<and> tr_status t \<in> {Pending, SourceConfirmed} \<and>
     (case tr_direction t of
        Outbound \<Rightarrow> tr_dest_chain t = ec_name c \<and> bs_wrapped (rl_state r') = bs_wrapped (rl_state r) \<and>
          bs_locked (rl_state r') = hm_put key (unwrap_or 0 (hm_get (bs_locked (rl_state r)) key) + tr_amount t) (bs_locked (rl_state r))
      | Inbound \<Rightarrow> tr_source_chain t = ec_name c \<and> bs_locked (rl_state r') = bs_locked (rl_state r) \<and>
          bs_wrapped (rl_state r') = hm_put key
            (w\<lparr>wt_total_minted := wt_total_minted w + saturating_sub (tr_amount t) (tr_fee t)\<rparr>) (bs_wrapped (rl_state r))))"

definition step_transfer :: "bridge_relayer \<Rightarrow> string \<Rightarrow> bridge_transfer \<Rightarrow> bridge_transfer \<Rightarrow> bridge_relayer \<Rightarrow> bool" where
  "step_transfer r i t t' r' \<longleftrightarrow> bs_counter (rl_state r') = bs_counter (rl_state r) \<and> bs_locked (rl_state r') = bs_locked (rl_state r) \<and>
     bs_wrapped (rl_state r') = bs_wrapped (rl_state r) \<and> hm_get (bs_transfers (rl_state r)) i = Some t \<and>
     bs_transfers (rl_state r') = hm_put i t' (bs_transfers (rl_state r)) \<and> transfer_terms t' = transfer_terms t"

definition same_transfers :: "bridge_relayer \<Rightarrow> bridge_relayer \<Rightarrow> bool" where
  "same_transfers r r' \<longleftrightarrow> bs_counter (rl_state r') = bs_counter (rl_state r) \<and> bs_locked (rl_state r') = bs_locked (rl_state r) \<and>
     bs_wrapped (rl_state r') = bs_wrapped (rl_state r) \<and> bs_transfers (rl_state r') = bs_transfers (rl_state r)"

lemma process_inbound_event_cases:
  assumes "process_inbound_event P clock r c s rc tok a tx = (res, r')"
  shows "case res of Err _ \<Rightarrow> r' = r | Ok t \<Rightarrow> new_transfer r c t r'"
  using assms by (auto simp: process_inbound_event_def record_inbound_def next_id_def new_transfer_def Let_def split: if_splits)

lemma process_outbound_request_cases:
  assumes "process_outbound_request P clock r s c rc tok a = (res, r')"
  shows "case res of Err _ \<Rightarrow> r' = r | Ok t \<Rightarrow> new_transfer r c t r'"
  using assms by (auto simp: process_outbound_request_def initiate_outbound_def next_id_def new_transfer_def Let_def split: if_splits)

lemma submit_confirmation_cases:
  assumes "submit_confirmation now r i v = (res, r')"
  shows "case res of Err _ \<Rightarrow> same_transfers r r'
    | Ok t' \<Rightarrow> bvs_is_validator (rl_validators r) v \<and> (\<exists>t. step_transfer r i t t' r' \<and> tr_status t \<noteq> Completed \<and>
        tr_confirmations t' = tr_confirmations t + 1 \<and>
        tr_status t' = (if tr_required_confirmations t \<le> tr_confirmations t' then Validated else tr_status t))"
  using assms by (auto simp: submit_confirmation_def add_confirmation_def set_transfer_def same_transfers_def
      step_transfer_def transfer_terms_def Let_def split: if_splits option.splits)

lemma submit_unlock_Ok: "\<exists>tx a'. submit_unlock P a rc tok amt = (Ok tx, a')"
  by (cases a) (simp_all add: evm_submit_unlock_def bitcoin_submit_unlock_def solana_submit_unlock_def)

lemma finish_transfer_cases:
  assumes "finish_transfer now r i tx = (res, r')" "get_transfer (rl_state r) i = Some t"
  shows "\<exists>t'. res = Ok t' \<and> step_transfer r i t t' r' \<and> tr_confirmations t' = tr_confirmations t \<and> tr_status t' = Completed"
  using assms by (auto simp: finish_transfer_def complete_transfer_def get_transfer_def set_transfer_def step_transfer_def
      transfer_terms_def Let_def)

lemma step_transfer_register: "step_transfer (register_adapter r c a) i t t' r' = step_transfer r i t t' r'"
  by (simp add: step_transfer_def register_adapter_def)

text \<open>A validated transfer is finalized unless its destination is a chain whose name the bridge cannot read back.\<close>

lemma finalize_transfer_cases:
  assumes "finalize_transfer P now r i = (res, r')"
  shows "case res of Err e \<Rightarrow> r' = r \<and> (\<forall>t. get_transfer (rl_state r) i = Some t \<and> tr_status t = Validated \<longrightarrow>
        tr_direction t = Outbound \<and> from_name (tr_dest_chain t) = None \<and> e = UnsupportedChain (tr_dest_chain t))
    | Ok t' \<Rightarrow> \<exists>t. step_transfer r i t t' r' \<and> tr_status t = Validated \<and> tr_confirmations t' = tr_confirmations t \<and>
        tr_status t' = Completed \<and> (tr_direction t = Outbound \<longrightarrow> from_name (tr_dest_chain t) \<noteq> None)"
proof (cases "get_transfer (rl_state r) i")
  case None
  with assms show ?thesis by (auto simp: finalize_transfer_def)
next
  case (Some t)
  have reg: "get_transfer (rl_state (register_adapter r c a)) i = Some t" for c a
    using Some by (simp add: register_adapter_def)
  show ?thesis
  proof (cases "tr_status t = Validated \<and> (tr_direction t = Outbound \<longrightarrow> from_name (tr_dest_chain t) \<noteq> None)")
    case False
    then consider "tr_status t \<noteq> Validated" | "tr_status t = Validated" "tr_direction t = Outbound" "from_name (tr_dest_chain t) = None"
      by blast
    then show ?thesis by cases (use assms Some in \<open>auto simp: finalize_transfer_def\<close>)
  next
    case True
    obtain r1 tx where r1: "finish_transfer now r1 i tx = (res, r')" "r1 = r \<or> (\<exists>c a. r1 = register_adapter r c a)"
    proof (cases "tr_direction t")
      case Inbound
      with assms Some True show ?thesis by (intro that [of r]) (simp_all add: finalize_transfer_def)
    next
      case Outbound
      with True obtain c where c: "from_name (tr_dest_chain t) = Some c" by blast
      show ?thesis
      proof (cases "hm_get (rl_adapters r) c")
        case None
        with assms Some True Outbound c show ?thesis by (intro that [of r]) (simp_all add: finalize_transfer_def)
      next
        case (Some a)
        obtain tx a' where "submit_unlock P a (tr_recipient t) (tr_token_symbol t) (saturating_sub (tr_amount t) (tr_fee t)) = (Ok tx, a')"
          using submit_unlock_Ok by blast
        with assms \<open>get_transfer (rl_state r) i = Some t\<close> Some True Outbound c show ?thesis
          by (intro that [of "register_adapter r c a'" tx]) (auto simp: finalize_transfer_def)
      qed
    qed
    then have "get_transfer (rl_state r1) i = Some t" using Some reg by auto
    then obtain t' where "res = Ok t'" "step_transfer r1 i t t' r'" "tr_confirmations t' = tr_confirmations t" "tr_status t' = Completed"
      using finish_transfer_cases [OF r1(1)] by blast
    then show ?thesis using r1(2) True by (auto simp: step_transfer_register)
  qed
qed

lemma when_ok_cases:
  assumes "when_ok v x = (evs, r')"
  obtains (err) e where "x = (Err e, r')" "evs = []" | (ok) y where "x = (Ok y, r')" "evs = [v]"
  using assms by (cases x; cases "fst x") (auto simp: when_ok_def)

lemma same_transfers_updates [simp]:
  "same_transfers r r" "same_transfers r (r\<lparr>rl_validators := vs\<rparr>)" "same_transfers r (register_adapter r c a)"
  "same_transfers r (r\<lparr>rl_state := bridge_pause (rl_state r)\<rparr>)" "same_transfers r (r\<lparr>rl_state := bridge_unpause (rl_state r)\<rparr>)"
  by (simp_all add: same_transfers_def register_adapter_def bridge_pause_def bridge_unpause_def)

lemma relay_exec_cases:
  assumes "relay_exec P clock c r = (evs, r')"
  obtains (same) "evs = []" "same_transfers r r'"
  | (new) ch t where "evs = []" "new_transfer r ch t r'"
  | (confirm) i v t t' where "evs = [Confirmed i v True]" "step_transfer r i t t' r'" "tr_status t \<noteq> Completed"
      "tr_confirmations t' = tr_confirmations t + 1"
      "tr_status t' = (if tr_required_confirmations t \<le> tr_confirmations t' then Validated else tr_status t)"
  | (final) i t t' where "evs = [Finalized i]" "step_transfer r i t t' r'" "tr_status t = Validated"
      "tr_confirmations t' = tr_confirmations t" "tr_status t' = Completed"
  | (marked) i e t t' where "evs = [e]" "step_transfer r i t t' r'" "tr_confirmations t' = tr_confirmations t"
      "e = MarkedCompleted i \<and> tr_status t' = Completed \<or> e = MarkedFailed i \<and> tr_status t' = Failed"
proof (cases c)
  case (InboundEvent ch s rc tok a tx)
  then obtain res where "process_inbound_event P clock r ch s rc tok a tx = (res, r')" "evs = []"
    using assms by (cases "process_inbound_event P clock r ch s rc tok a tx") simp
  with process_inbound_event_cases [OF this(1)] show ?thesis by (cases res) (auto intro: same new)
next
  case (OutboundRequest s ch rc tok a)
  then obtain res where "process_outbound_request P clock r s ch rc tok a = (res, r')" "evs = []"
    using assms by (cases "process_outbound_request P clock r s ch rc tok a") simp
  with process_outbound_request_cases [OF this(1)] show ?thesis by (cases res) (auto intro: same new)
next
  case (SubmitConfirmation i v)
  with assms have "when_ok (Confirmed i v (bvs_is_validator (rl_validators r) v)) (submit_confirmation (clock 0) r i v) = (evs, r')"
    by simp
  then show ?thesis
  proof (cases rule: when_ok_cases)
    case (err e)
    with submit_confirmation_cases [OF err(1)] show ?thesis by (simp add: same)
  next
    case (ok t')
    with submit_confirmation_cases [OF ok(1)] show ?thesis using confirm [of i v _ t'] by auto
  qed
next
  case (FinalizeTransfer i)
  with assms have "when_ok (Finalized i) (finalize_transfer P (clock 0) r i) = (evs, r')" by simp
  then show ?thesis
    by (cases rule: when_ok_cases) (auto dest!: finalize_transfer_cases intro: same final)
next
  case (CompleteTransfer i tx)
  with assms have "when_ok (MarkedCompleted i) (finish_transfer (clock 0) r i tx) = (evs, r')" by simp
  then show ?thesis
  proof (cases rule: when_ok_cases)
    case (ok t')
    then obtain t where "get_transfer (rl_state r) i = Some t"
      by (auto simp: finish_transfer_def complete_transfer_def get_transfer_def split: option.splits)
    with finish_transfer_cases [OF ok(1)] ok(2) show ?thesis by (auto intro: marked)
  qed (auto simp: finish_transfer_def complete_transfer_def Let_def split: option.splits intro!: same)
next
  case (FailTransfer i)
  show ?thesis
  proof (cases "hm_get (bs_transfers (rl_state r)) i")
    case None
    with FailTransfer assms show ?thesis by (auto simp: when_ok_def fail_transfer_def intro!: same)
  next
    case (Some t)
    let ?t = "t\<lparr>tr_status := Failed, tr_updated_at := clock 0\<rparr>"
    have "evs = [MarkedFailed i]" "step_transfer r i t ?t r'"
      using FailTransfer assms Some by (auto simp: when_ok_def fail_transfer_def set_transfer_def step_transfer_def transfer_terms_def Let_def)
    then show ?thesis by (rule marked) simp_all
  qed
qed (use assms in \<open>auto intro!: same\<close>)

lemma transfer_id_inject: "transfer_id now n = transfer_id now' n' \<longleftrightarrow> now = now' \<and> n = n'"
  using split_at_sep [of "show_word now" "CHR ''-''" "show_word n" "show_word now'" "show_word n'"]
  by (auto simp: transfer_id_def show_nat_no_dash show_nat_inject word_unat_eq_iff)

text \<open>What the history says of one transfer.\<close>

definition confirmers :: "string \<Rightarrow> relay_event list \<Rightarrow> address list" where
  "confirmers i evs = concat (map (\<lambda>e. case e of Confirmed j v b \<Rightarrow> if j = i then [v] else [] | _ \<Rightarrow> []) evs)"

definition finalized :: "relay_event list \<Rightarrow> string list" where
  "finalized evs = concat (map (\<lambda>e. case e of Finalized j \<Rightarrow> [j] | _ \<Rightarrow> []) evs)"

text \<open>The transfer was completed and has not been marked as failed since.\<close>

definition closed :: "string \<Rightarrow> relay_event list \<Rightarrow> bool" where
  "closed i evs \<longleftrightarrow> (\<exists>xs e ys. evs = xs @ e # ys \<and> e \<in> {Finalized i, MarkedCompleted i} \<and> MarkedFailed i \<notin> set ys)"

fun event_id :: "relay_event \<Rightarrow> string" where
  "event_id (Confirmed i v b) = i"
| "event_id (Finalized i) = i"
| "event_id (MarkedCompleted i) = i"
| "event_id (MarkedFailed i) = i"

fun by_validator :: "relay_event \<Rightarrow> bool" where
  "by_validator (Confirmed i v b) = b"
| "by_validator _ = True"

lemma confirmers_simps [simp]:
  "confirmers i [] = []" "confirmers i (evs @ evs') = confirmers i evs @ confirmers i evs'"
  "confirmers i [Confirmed j v b] = (if j = i then [v] else [])" "confirmers i [Finalized j] = []"
  "confirmers i [MarkedCompleted j] = []" "confirmers i [MarkedFailed j] = []"
  by (simp_all add: confirmers_def)

lemma closed_Nil [simp]: "\<not> closed i []"
  by (simp add: closed_def)

lemma closed_snoc [simp]:
  "closed i (evs @ [e]) \<longleftrightarrow> e \<in> {Finalized i, MarkedCompleted i} \<or> closed i evs \<and> e \<noteq> MarkedFailed i"
proof
  assume "closed i (evs @ [e])"
  then obtain xs f ys where f: "evs @ [e] = xs @ f # ys" "f \<in> {Finalized i, MarkedCompleted i}" "MarkedFailed i \<notin> set ys"
    unfolding closed_def by blast
  then show "e \<in> {Finalized i, MarkedCompleted i} \<or> closed i evs \<and> e \<noteq> MarkedFailed i"
    by (cases ys rule: rev_cases) (auto simp: closed_def)
next
  assume "e \<in> {Finalized i, MarkedCompleted i} \<or> closed i evs \<and> e \<noteq> MarkedFailed i"
  then consider (now) "e \<in> {Finalized i, MarkedCompleted i}"
    | (before) xs f ys where "evs = xs @ f # ys" "f \<in> {Finalized i, MarkedCompleted i}" "MarkedFailed i \<notin> set ys" "e \<noteq> MarkedFailed i"
    unfolding closed_def by blast
  then show "closed i (evs @ [e])"
  proof cases
    case now
    then show ?thesis unfolding closed_def by (intro exI [of _ evs] exI [of _ e] exI [of _ "[]"]) simp
  next
    case before
    then show ?thesis unfolding closed_def by (intro exI [of _ xs] exI [of _ f] exI [of _ "ys @ [e]"]) simp
  qed
qed

lemma event_id_none: "\<forall>e \<in> set evs. event_id e \<noteq> i \<Longrightarrow> confirmers i evs = [] \<and> \<not> closed i evs"
  by (induction evs rule: rev_induct) (auto simp: confirmers_def split: relay_event.splits)

definition transfer_ok :: "relay_event list \<Rightarrow> u64 \<Rightarrow> string \<Rightarrow> bridge_transfer \<Rightarrow> bool" where
  "transfer_ok evs n i t \<longleftrightarrow> tr_id t = i \<and> (\<exists>now m. i = transfer_id now m \<and> m \<le> n) \<and>
     tr_confirmations t = length (confirmers i evs) \<and>
     (tr_status t = Validated \<longrightarrow> tr_required_confirmations t \<le> tr_confirmations t) \<and>
     (tr_status t = Completed \<longleftrightarrow> closed i evs)"

text \<open>Before a transfer was finalized it was open and had the confirmations it requires.\<close>

definition finals_ok :: "(string, bridge_transfer) hmap \<Rightarrow> relay_event list \<Rightarrow> bool" where
  "finals_ok m evs \<longleftrightarrow> (\<forall>xs i ys. evs = xs @ Finalized i # ys \<longrightarrow>
     \<not> closed i xs \<and> (\<exists>t. hm_get m i = Some t \<and> tr_required_confirmations t \<le> length (confirmers i xs)))"

lemma finals_ok_snoc:
  assumes "finals_ok m evs" "\<And>i. e = Finalized i \<Longrightarrow>
    \<not> closed i evs \<and> (\<exists>t. hm_get m i = Some t \<and> tr_required_confirmations t \<le> length (confirmers i evs))"
  shows "finals_ok m (evs @ [e])"
  unfolding finals_ok_def
proof (intro allI impI)
  fix xs i ys
  assume "evs @ [e] = xs @ Finalized i # ys"
  then show "\<not> closed i xs \<and> (\<exists>t. hm_get m i = Some t \<and> tr_required_confirmations t \<le> length (confirmers i xs))"
    using assms by (cases ys rule: rev_cases) (auto simp: finals_ok_def)
qed

lemma finals_ok_put:
  assumes "finals_ok m evs" "\<And>u. hm_get m i = Some u \<Longrightarrow> tr_required_confirmations u = tr_required_confirmations t"
  shows "finals_ok (hm_put i t m) evs"
  using assms unfolding finals_ok_def by (metis update_conv' fun_upd_apply option.inject)

definition relay_ok :: "nat \<Rightarrow> relay_event list \<Rightarrow> bridge_relayer \<Rightarrow> bool" where
  "relay_ok k evs r \<longleftrightarrow> unat (bs_counter (rl_state r)) \<le> k \<and>
     (\<forall>i t. hm_get (bs_transfers (rl_state r)) i = Some t \<longrightarrow> transfer_ok evs (bs_counter (rl_state r)) i t) \<and>
     (\<forall>e \<in> set evs. hm_get (bs_transfers (rl_state r)) (event_id e) \<noteq> None \<and> by_validator e) \<and>
     finals_ok (bs_transfers (rl_state r)) evs"

lemma new_transfer_fresh:
  assumes ok: "relay_ok k evs r" and k: "Suc k < 2 ^ 64" and new: "new_transfer r c t r'"
  shows "hm_get (bs_transfers (rl_state r)) (tr_id t) = None" "bs_counter (rl_state r) < bs_counter (rl_state r')"
    "unat (bs_counter (rl_state r')) \<le> Suc k"
proof -
  let ?n = "bs_counter (rl_state r)"
  have "unat ?n + 1 < 2 ^ LENGTH(64)" using ok k by (simp add: relay_ok_def)
  from unat_Suc_nowrap [OF this] have n': "unat (bs_counter (rl_state r')) = unat ?n + 1" using new by (simp add: new_transfer_def Let_def)
  then show less: "?n < bs_counter (rl_state r')" by (simp add: word_less_nat_alt)
  show "unat (bs_counter (rl_state r')) \<le> Suc k" using n' ok by (simp add: relay_ok_def)
  obtain now where i: "tr_id t = transfer_id now (bs_counter (rl_state r'))" using new by (auto simp: new_transfer_def Let_def)
  show "hm_get (bs_transfers (rl_state r)) (tr_id t) = None"
  proof (rule ccontr)
    assume "hm_get (bs_transfers (rl_state r)) (tr_id t) \<noteq> None"
    then obtain t0 where "transfer_ok evs ?n (tr_id t) t0" using ok by (auto simp: relay_ok_def)
    then obtain now' m where "tr_id t = transfer_id now' m" "m \<le> ?n" unfolding transfer_ok_def by blast
    with i less show False by (simp add: transfer_id_inject)
  qed
qed

lemma transfer_ok_mono: "transfer_ok evs n i t \<Longrightarrow> n \<le> n' \<Longrightarrow> transfer_ok evs n' i t"
  unfolding transfer_ok_def by (meson order_trans)

lemma relay_ok_new:
  assumes ok: "relay_ok k evs r" and k: "Suc k < 2 ^ 64" and new: "new_transfer r c t r'"
  shows "relay_ok (Suc k) evs r'"
proof -
  note fresh = new_transfer_fresh [OF assms]
  have "\<forall>e \<in> set evs. event_id e \<noteq> tr_id t" using ok fresh(1) by (fastforce simp: relay_ok_def)
  then have none: "confirmers (tr_id t) evs = []" "\<not> closed (tr_id t) evs" using event_id_none by blast+
  have tr: "bs_transfers (rl_state r') = hm_put (tr_id t) t (bs_transfers (rl_state r))" "tr_confirmations t = 0"
    "tr_status t \<in> {Pending, SourceConfirmed}" "\<exists>now. tr_id t = transfer_id now (bs_counter (rl_state r'))"
    using new unfolding new_transfer_def Let_def by blast+
  have "transfer_ok evs (bs_counter (rl_state r')) (tr_id t) t"
    using tr none by (auto simp: transfer_ok_def)
  moreover have "finals_ok (bs_transfers (rl_state r')) evs"
    unfolding tr(1) using ok fresh(1) by (intro finals_ok_put) (simp_all add: relay_ok_def)
  ultimately show ?thesis using ok fresh(2,3) tr(1) transfer_ok_mono [OF _ less_imp_le [OF fresh(2)]]
    by (auto simp: relay_ok_def)
qed

lemma relay_ok_step:
  assumes ok: "relay_ok k evs r" and st: "step_transfer r i t t' r'"
    and e: "event_id e = i" "by_validator e" "e = Finalized i \<longrightarrow> tr_status t = Validated"
    and t': "tr_confirmations t' = tr_confirmations t + length (confirmers i [e])"
      "tr_status t' = Validated \<longrightarrow> tr_required_confirmations t \<le> tr_confirmations t'"
      "tr_status t' = Completed \<longleftrightarrow> e \<in> {Finalized i, MarkedCompleted i} \<or> tr_status t = Completed \<and> e \<noteq> MarkedFailed i"
  shows "relay_ok (Suc k) (evs @ [e]) r'"
proof -
  let ?n = "bs_counter (rl_state r)"
  have keep: "bs_counter (rl_state r') = ?n" "bs_transfers (rl_state r') = hm_put i t' (bs_transfers (rl_state r))"
    and t: "hm_get (bs_transfers (rl_state r)) i = Some t" and terms: "transfer_terms t' = transfer_terms t"
    using st by (simp_all add: step_transfer_def)
  have old: "transfer_ok evs ?n i t" using ok t by (auto simp: relay_ok_def)
  then have "transfer_ok (evs @ [e]) ?n i t'"
    using t' terms by (auto simp: transfer_ok_def transfer_terms_def)
  moreover have "transfer_ok (evs @ [e]) ?n j u" if "transfer_ok evs ?n j u" "j \<noteq> i" for j u
    using that e(1) event_id_none [of "[e]" j] by (auto simp: transfer_ok_def)
  moreover have "finals_ok (bs_transfers (rl_state r')) (evs @ [e])"
  proof (rule finals_ok_snoc)
    show "finals_ok (bs_transfers (rl_state r')) evs"
      unfolding keep(2) using ok t terms by (intro finals_ok_put) (simp_all add: relay_ok_def transfer_terms_def)
  next
    fix j
    assume "e = Finalized j"
    then show "\<not> closed j evs \<and> (\<exists>u. hm_get (bs_transfers (rl_state r')) j = Some u \<and> tr_required_confirmations u \<le> length (confirmers j evs))"
      using e(1,3) old terms keep(2) by (auto simp: transfer_ok_def transfer_terms_def)
  qed
  ultimately show ?thesis using ok keep t e by (auto simp: relay_ok_def)
qed

lemma relay_history_ok: "relay_history P cfg k evs r \<Longrightarrow> k < 2 ^ 64 \<Longrightarrow> relay_ok k evs r"
proof (induction rule: relay_history.induct)
  case (start n)
  show ?case by (simp add: relay_ok_def finals_ok_def bridge_relayer_new_def bridge_state_new_def)
next
  case (call k evs r clock c evs' r')
  then have ok: "relay_ok k evs r" by simp
  have old: "transfer_ok evs (bs_counter (rl_state r)) i t" if "step_transfer r i t t' r'" for i t t'
    using ok that by (auto simp: relay_ok_def step_transfer_def)
  from call.hyps(2) show ?case
  proof (cases rule: relay_exec_cases)
    case same
    then show ?thesis using ok by (simp add: relay_ok_def same_transfers_def)
  next
    case (new ch t)
    then show ?thesis using relay_ok_new [OF ok call.prems] by simp
  next
    case (confirm i v t t')
    then show ?thesis using relay_ok_step [OF ok confirm(2), of "Confirmed i v True"] old [OF confirm(2)] by (auto simp: transfer_ok_def)
  next
    case (final i t t')
    then show ?thesis using relay_ok_step [OF ok final(2), of "Finalized i"] old [OF final(2)] by (auto simp: transfer_ok_def)
  next
    case (marked i e t t')
    then show ?thesis using relay_ok_step [OF ok marked(2), of e] old [OF marked(2)] by (auto simp: transfer_ok_def)
  qed
qed

lemma finalized_distinct:
  assumes "\<And>xs i ys. evs = xs @ Finalized i # ys \<Longrightarrow> \<not> closed i xs" "\<And>i. MarkedFailed i \<notin> set evs"
  shows "distinct (finalized evs)"
  using assms
proof (induction evs rule: rev_induct)
  case (snoc e evs)
  have "distinct (finalized evs)"
  proof (rule snoc.IH)
    fix xs i ys
    assume "evs = xs @ Finalized i # ys"
    then show "\<not> closed i xs" using snoc.prems(1) [of xs i "ys @ [e]"] by simp
  qed (use snoc.prems(2) in auto)
  moreover have "i \<notin> set (finalized evs)" if "e = Finalized i" for i
  proof
    assume "i \<in> set (finalized evs)"
    then have "Finalized i \<in> set evs" by (auto simp: finalized_def split: relay_event.splits)
    then obtain xs ys where "evs = xs @ Finalized i # ys" by (meson split_list)
    then have "closed i evs" using snoc.prems(2) [of i] by (auto simp: closed_def)
    then show False using snoc.prems(1) [of evs i "[]"] that by simp
  qed
  ultimately show ?case by (cases e) (simp_all add: finalized_def)
qed (simp add: finalized_def)

text \<open>
  C8 (finalization). Take any sequence of fewer than \<open>2 ^ 64\<close> calls to the relayer, also with transfers
  marked as completed or failed behind its back. A transfer is finalized only after it has
  received the confirmations it requires, every one from an address that was a bridge validator at
  that time. After a transfer was finalized or marked as completed it is not finalized again unless it
  was marked as failed in between; so without such marks it is finalized at most once. A
  transfer has the status of a completed one exactly in this case.
\<close>

theorem transfer_finalized_once:
  assumes "relay_history P cfg k evs r" "k < 2 ^ 64"
  shows "(\<forall>e \<in> set evs. by_validator e) \<and>
    (\<forall>xs i ys. evs = xs @ Finalized i # ys \<longrightarrow>
       \<not> closed i xs \<and> (\<exists>t. get_transfer (rl_state r) i = Some t \<and> tr_required_confirmations t \<le> length (confirmers i xs))) \<and>
    ((\<forall>i. MarkedFailed i \<notin> set evs) \<longrightarrow> distinct (finalized evs)) \<and>
    (\<forall>i t. get_transfer (rl_state r) i = Some t \<longrightarrow> (tr_status t = Completed \<longleftrightarrow> closed i evs))"
proof -
  have ok: "relay_ok k evs r" by (rule relay_history_ok [OF assms])
  then have fin: "\<forall>xs i ys. evs = xs @ Finalized i # ys \<longrightarrow>
       \<not> closed i xs \<and> (\<exists>t. get_transfer (rl_state r) i = Some t \<and> tr_required_confirmations t \<le> length (confirmers i xs))"
    by (simp add: relay_ok_def finals_ok_def get_transfer_def)
  moreover have "tr_status t = Completed \<longleftrightarrow> closed i evs" if "get_transfer (rl_state r) i = Some t" for i t
    using ok that by (simp add: relay_ok_def get_transfer_def transfer_ok_def)
  moreover have "distinct (finalized evs)" if "\<forall>i. MarkedFailed i \<notin> set evs"
    using finalized_distinct [of evs] fin that by blast
  moreover have "\<forall>e \<in> set evs. by_validator e" using ok by (simp add: relay_ok_def)
  ultimately show ?thesis by blast
qed

section \<open>Accounting\<close>

definition hm_total :: "('v \<Rightarrow> 'b::comm_monoid_add) \<Rightarrow> ('k, 'v) hmap \<Rightarrow> 'b" where
  "hm_total f m = (\<Sum>e\<leftarrow>m. f (snd e))"

definition outbound_amount :: "external_chain \<Rightarrow> string \<Rightarrow> bridge_transfer \<Rightarrow> u128" where
  "outbound_amount c tok t =
     (if tr_direction t = Outbound \<and> tr_dest_chain t = ec_name c \<and> tr_token_symbol t = tok then tr_amount t else 0)"

definition inbound_amount :: "external_chain \<Rightarrow> string \<Rightarrow> bridge_transfer \<Rightarrow> u128" where
  "inbound_amount c tok t =
     (if tr_direction t = Inbound \<and> tr_source_chain t = ec_name c \<and> tr_token_symbol t = tok
      then saturating_sub (tr_amount t) (tr_fee t) else 0)"

definition locked_at :: "bridge_state \<Rightarrow> external_chain \<Rightarrow> string \<Rightarrow> u128" where
  "locked_at st c tok = unwrap_or 0 (hm_get (bs_locked st) (lock_key c tok))"

definition wrapped_at :: "bridge_state \<Rightarrow> external_chain \<Rightarrow> string \<Rightarrow> u128" where
  "wrapped_at st c tok = unwrap_or 0 (map_option circulating_supply (hm_get (bs_wrapped st) (lock_key c tok)))"

definition accounts_ok :: "bridge_state \<Rightarrow> bool" where
  "accounts_ok st \<longleftrightarrow> (\<forall>key w. hm_get (bs_wrapped st) key = Some w \<longrightarrow> wt_total_burned w = 0) \<and>
     (\<forall>c tok. locked_at st c tok = hm_total (outbound_amount c tok) (bs_transfers st) \<and>
        wrapped_at st c tok = hm_total (inbound_amount c tok) (bs_transfers st))"

lemma lock_key_inject: "lock_key c tok = lock_key d tok' \<longleftrightarrow> c = d \<and> tok = tok'"
  using split_at_sep [of "ec_name c" "CHR '':''" tok "ec_name d" tok']
  by (auto simp: lock_key_def ec_name_no_colon ec_name_inject)

lemma hm_total_put:
  fixes f :: "'v \<Rightarrow> 'b::ab_group_add"
  shows "hm_total f (AList.update k v m) = hm_total f m - (case map_of m k of None \<Rightarrow> 0 | Some w \<Rightarrow> f w) + f v"
proof (induction m)
  case (Cons e m)
  then show ?case by (cases e) (simp add: hm_total_def add_diff_eq add.assoc)
qed (simp add: hm_total_def)

lemma amounts_terms:
  "transfer_terms t' = transfer_terms t \<Longrightarrow> outbound_amount c tok t' = outbound_amount c tok t \<and> inbound_amount c tok t' = inbound_amount c tok t"
  by (simp add: transfer_terms_def outbound_amount_def inbound_amount_def)

lemma accounts_ok_step:
  assumes "accounts_ok (rl_state r)" "step_transfer r i t t' r'"
  shows "accounts_ok (rl_state r')"
proof -
  have st: "bs_transfers (rl_state r') = hm_put i t' (bs_transfers (rl_state r))" "hm_get (bs_transfers (rl_state r)) i = Some t"
    "transfer_terms t' = transfer_terms t" "bs_locked (rl_state r') = bs_locked (rl_state r)" "bs_wrapped (rl_state r') = bs_wrapped (rl_state r)"
    using assms(2) by (simp_all add: step_transfer_def)
  have "hm_total (outbound_amount c tok) (bs_transfers (rl_state r')) = hm_total (outbound_amount c tok) (bs_transfers (rl_state r))"
    "hm_total (inbound_amount c tok) (bs_transfers (rl_state r')) = hm_total (inbound_amount c tok) (bs_transfers (rl_state r))" for c tok
    using amounts_terms [OF st(3)] st(2) by (simp_all add: st(1) hm_total_put)
  then show ?thesis using assms(1) st(4,5) unfolding accounts_ok_def locked_at_def wrapped_at_def by presburger
qed

lemma saturating_sub_0 [simp]: "saturating_sub a 0 = a"
  by (simp add: saturating_sub_def)

lemma accounts_ok_new:
  assumes ok: "accounts_ok (rl_state r)" and new: "new_transfer r c t r'"
    and fresh: "hm_get (bs_transfers (rl_state r)) (tr_id t) = None"
  shows "accounts_ok (rl_state r')"
proof -
  have tr: "bs_transfers (rl_state r') = hm_put (tr_id t) t (bs_transfers (rl_state r))"
    using new unfolding new_transfer_def Let_def by blast
  show ?thesis
  proof (cases "tr_direction t")
    case Outbound
    then have "bs_wrapped (rl_state r') = bs_wrapped (rl_state r)" "tr_dest_chain t = ec_name c"
      "locked_at (rl_state r') d tok = locked_at (rl_state r) d tok +
         (if d = c \<and> tok = tr_token_symbol t then tr_amount t else 0)" for d tok
      using new by (auto simp: new_transfer_def Let_def locked_at_def lock_key_inject)
    then show ?thesis using ok Outbound
      by (auto simp: accounts_ok_def tr hm_total_put fresh wrapped_at_def outbound_amount_def inbound_amount_def ec_name_inject)
  next
    case Inbound
    let ?w = "unwrap_or wrapped_default (hm_get (bs_wrapped (rl_state r)) (lock_key c (tr_token_symbol t)))"
    have "\<forall>key w. hm_get (bs_wrapped (rl_state r)) key = Some w \<longrightarrow> wt_total_burned w = 0" using ok by (simp add: accounts_ok_def)
    then have w: "wt_total_burned ?w = 0" "wt_total_minted ?w = wrapped_at (rl_state r) c (tr_token_symbol t)"
      by (cases "hm_get (bs_wrapped (rl_state r)) (lock_key c (tr_token_symbol t))";
          simp add: wrapped_at_def circulating_supply_def wrapped_default_def)+
    have same: "bs_locked (rl_state r') = bs_locked (rl_state r)" "tr_source_chain t = ec_name c"
      "bs_wrapped (rl_state r') = hm_put (lock_key c (tr_token_symbol t))
         (?w\<lparr>wt_total_minted := wt_total_minted ?w + saturating_sub (tr_amount t) (tr_fee t)\<rparr>) (bs_wrapped (rl_state r))"
      using new Inbound by (simp_all add: new_transfer_def Let_def)
    have "wrapped_at (rl_state r') d tok = wrapped_at (rl_state r) d tok +
         (if d = c \<and> tok = tr_token_symbol t then saturating_sub (tr_amount t) (tr_fee t) else 0)" for d tok
      using w by (simp add: wrapped_at_def [of "rl_state r'"] same circulating_supply_def lock_key_inject) (simp add: wrapped_at_def)
    then show ?thesis using ok Inbound w(1)
      by (auto simp: accounts_ok_def tr hm_total_put fresh locked_at_def same outbound_amount_def inbound_amount_def ec_name_inject)
  qed
qed

lemma relay_history_accounts: "relay_history P cfg k evs r \<Longrightarrow> k < 2 ^ 64 \<Longrightarrow> accounts_ok (rl_state r)"
proof (induction rule: relay_history.induct)
  case (start n)
  show ?case by (simp add: accounts_ok_def bridge_relayer_new_def bridge_state_new_def locked_at_def wrapped_at_def hm_total_def)
next
  case (call k evs r clock c evs' r')
  then have ok: "accounts_ok (rl_state r)" "relay_ok k evs r" using relay_history_ok [OF call.hyps(1)] by simp_all
  from call.hyps(2) show ?case
  proof (cases rule: relay_exec_cases)
    case same
    then show ?thesis using ok(1) by (simp add: accounts_ok_def same_transfers_def locked_at_def wrapped_at_def)
  next
    case (new ch t)
    then show ?thesis using accounts_ok_new [OF ok(1)] new_transfer_fresh(1) [OF ok(2) call.prems] by blast
  qed (use ok(1) accounts_ok_step in blast)+
qed

text \<open>
  Accounting. In any sequence of fewer than \<open>2 ^ 64\<close> calls, the amount locked for a chain and a
  token is the sum of the amounts of the outbound transfers recorded for them, and the supply of
  wrapped tokens is the sum of the inbound amounts net of fees, both modulo \<open>2 ^ 128\<close> and whatever
  became of the transfers since; and the two columns of \<open>get_liquidity\<close> are these sums for the
  chain's own token.
\<close>

theorem bridge_accounting:
  assumes "relay_history P cfg k evs r" "k < 2 ^ 64"
  shows "locked_at (rl_state r) c tok = hm_total (outbound_amount c tok) (bs_transfers (rl_state r)) \<and>
    wrapped_at (rl_state r) c tok = hm_total (inbound_amount c tok) (bs_transfers (rl_state r)) \<and>
    (\<forall>l \<in> set (get_liquidity (rl_state r)).
       lq_locked_amount l = hm_total (outbound_amount (lq_chain l) (ec_symbol (lq_chain l))) (bs_transfers (rl_state r)) \<and>
       lq_wrapped_supply l = hm_total (inbound_amount (lq_chain l) (ec_symbol (lq_chain l))) (bs_transfers (rl_state r)))"
proof -
  have "accounts_ok (rl_state r)" by (rule relay_history_accounts [OF assms])
  then show ?thesis
    by (auto simp: accounts_ok_def get_liquidity_def Let_def simp flip: locked_at_def wrapped_at_def)
qed

section \<open>Which transfers arrive\<close>

lemma relay_history_dest:
  assumes "relay_history P cfg k evs r" "get_transfer (rl_state r) i = Some t" "tr_direction t = Outbound"
  shows "\<exists>c. tr_dest_chain t = ec_name c"
  using assms
proof (induction arbitrary: i t rule: relay_history.induct)
  case (start n)
  then show ?case by (simp add: bridge_relayer_new_def bridge_state_new_def get_transfer_def)
next
  case (call k evs r clock c evs' r')
  have step: "\<exists>c. tr_dest_chain t = ec_name c" if "step_transfer r j u u' r'" for j u u'
  proof (cases "i = j")
    case True
    then have "tr_dest_chain t = tr_dest_chain u" "tr_direction u = Outbound" "get_transfer (rl_state r) j = Some u"
      using that call.prems by (simp_all add: step_transfer_def transfer_terms_def get_transfer_def)
    then show ?thesis using call.IH by metis
  next
    case False
    then show ?thesis using that call by (simp add: step_transfer_def get_transfer_def)
  qed
  from call.hyps(2) show ?case
  proof (cases rule: relay_exec_cases)
    case same
    then show ?thesis using call by (simp add: same_transfers_def get_transfer_def)
  next
    case (new ch u)
    then have "bs_transfers (rl_state r') = hm_put (tr_id u) u (bs_transfers (rl_state r))"
      "tr_direction u = Outbound \<longrightarrow> tr_dest_chain u = ec_name ch"
      by (auto simp: new_transfer_def Let_def split: bridge_direction.splits)
    then show ?thesis using call by (auto simp: get_transfer_def split: if_splits)
  qed (use step in blast)+
qed

text \<open>
  Which validated transfers arrive. A transfer with sufficient confirmations is finalized by the
  first attempt, whatever adapters are registered, unless it is an outbound transfer to the BNB
  Chain: the bridge stores the chain under the name ''BNB Chain'', which it does not recognize when
  it reads it back, so that every attempt fails and leaves the bridge as it was.
\<close>

theorem validated_transfer_arrives:
  assumes "relay_history P cfg k evs r" "get_transfer (rl_state r) i = Some t" "tr_status t = Validated"
    "finalize_transfer P now r i = (res, r')"
  shows "if tr_direction t = Outbound \<and> tr_dest_chain t = ec_name BnbChain
    then res = Err (UnsupportedChain (ec_name BnbChain)) \<and> r' = r
    else \<exists>t'. res = Ok t' \<and> get_transfer (rl_state r') i = Some t' \<and> tr_status t' = Completed \<and> transfer_terms t' = transfer_terms t"
proof (cases res)
  case (Inl e)
  with finalize_transfer_cases [OF assms(4)] assms(2,3)
  have e: "r' = r" "tr_direction t = Outbound" "from_name (tr_dest_chain t) = None" "e = UnsupportedChain (tr_dest_chain t)" by auto
  obtain c where "tr_dest_chain t = ec_name c" using relay_history_dest [OF assms(1,2) e(2)] by blast
  with e Inl show ?thesis by (auto simp: from_name_name split: if_splits)
next
  case (Inr t')
  with finalize_transfer_cases [OF assms(4)] obtain u where u: "step_transfer r i u t' r'" "tr_status t' = Completed"
      "tr_direction u = Outbound \<longrightarrow> from_name (tr_dest_chain u) \<noteq> None" by auto
  moreover have "u = t" using u(1) assms(2) by (simp add: step_transfer_def get_transfer_def)
  ultimately show ?thesis using Inr from_name_name [of BnbChain] by (auto simp: step_transfer_def get_transfer_def)
qed

text \<open>
  One validator is enough. Confirmations are counted, not the validators who gave them: a
  single bridge validator that repeats its confirmation as often as confirmations are missing
  validates the transfer alone.
\<close>

theorem lone_validator_validates:
  assumes "bvs_is_validator (rl_validators r) v" "get_transfer (rl_state r) i = Some t" "tr_status t \<noteq> Completed"
    "0 < n" "tr_required_confirmations t \<le> tr_confirmations t + n"
  shows "\<exists>t'. get_transfer (rl_state (((\<lambda>r. snd (submit_confirmation now r i v)) ^^ n) r)) i = Some t' \<and> tr_status t' = Validated"
  using assms
proof (induction n arbitrary: r t)
  case (Suc n)
  let ?r = "snd (submit_confirmation now r i v)"
  obtain t' where t': "get_transfer (rl_state ?r) i = Some t'" "tr_confirmations t' = Suc (tr_confirmations t)"
      "tr_required_confirmations t' = tr_required_confirmations t"
      "tr_status t' = (if tr_required_confirmations t \<le> Suc (tr_confirmations t) then Validated else tr_status t)"
      "bvs_is_validator (rl_validators ?r) v"
    using Suc.prems(1-3) by (simp add: submit_confirmation_def add_confirmation_def get_transfer_def set_transfer_def Let_def)
  show ?case
  proof (cases n)
    case 0
    then show ?thesis using t' Suc.prems(5) by simp
  next
    case (Suc m)
    have "tr_status t' \<noteq> Completed" using t'(4) Suc.prems(3) by simp
    moreover have "tr_required_confirmations t' \<le> tr_confirmations t' + n" using t'(2,3) Suc.prems(5) by simp
    ultimately have "\<exists>t'. get_transfer (rl_state (((\<lambda>r. snd (submit_confirmation now r i v)) ^^ n) ?r)) i = Some t' \<and> tr_status t' = Validated"
      using Suc.IH [OF t'(5,1)] Suc by simp
    then show ?thesis by (simp only: funpow_Suc_right o_apply)
  qed
qed simp

text \<open>A failed transfer can be revived: nothing stops it from being confirmed and finalized again.\<close>

lemma failed_transfer_revives:
  assumes "get_transfer st i = Some t" "tr_required_confirmations t \<le> tr_confirmations t + 1"
  shows "\<exists>t'. get_transfer (snd (add_confirmation now' (snd (fail_transfer now st i)) i v)) i = Some t' \<and> tr_status t' = Validated"
  using assms by (simp add: add_confirmation_def fail_transfer_def get_transfer_def set_transfer_def Let_def)

text \<open>The script binds its terms: different locks, keys or times give different scripts.\<close>

lemma htlc_script_inject:
  assumes "build_htlc_script h rk sk t = build_htlc_script h' rk' sk' t'" "length rk < 256" "length rk' < 256"
  shows "h = h' \<and> rk = rk' \<and> sk = sk' \<and> t = t'"
proof -
  have n: "of_nat a = (of_nat b :: u8) \<longleftrightarrow> a = b" if "a < 256" "b < 256" for a b
    using that by (simp add: word_unat_eq_iff unat_of_nat)
  from assms(1) have h: "h = h'" "of_nat (length rk) = (of_nat (length rk') :: u8)"
    and rest: "rk @ [0xac, 0x67, 0x04] @ to_le_bytes t @ [0xb1, 0x75, of_nat (length sk)] @ sk @ [0xac, 0x68] =
      rk' @ [0xac, 0x67, 0x04] @ to_le_bytes t' @ [0xb1, 0x75, of_nat (length sk')] @ sk' @ [0xac, 0x68]"
    by (simp_all add: build_htlc_script_def hash32.enc_append_inject)
  have "length rk = length rk'" using h(2) n assms(2,3) by blast
  with rest show ?thesis using h(1) by (simp add: le32.enc_append_inject)
qed

section \<open>Examples\<close>

fun relay_run :: "'p crypto_prims_scheme \<Rightarrow> (nat \<Rightarrow> u64) \<Rightarrow> relay_call list \<Rightarrow> bridge_relayer \<Rightarrow> relay_event list \<times> bridge_relayer" where
  "relay_run P clock [] r = ([], r)"
| "relay_run P clock (c # cs) r = (case relay_exec P clock c r of (evs, r1) \<Rightarrow>
     (case relay_run P clock cs r1 of (evs', r2) \<Rightarrow> (evs @ evs', r2)))"

lemma relay_run_history:
  "relay_history P cfg k evs r \<Longrightarrow> relay_run P clock cs r = (evs', r') \<Longrightarrow> relay_history P cfg (k + length cs) (evs @ evs') r'"
proof (induction cs arbitrary: k evs r evs' r')
  case (Cons c cs)
  obtain e r1 where e: "relay_exec P clock c r = (e, r1)" by fastforce
  obtain es where es: "relay_run P clock cs r1 = (es, r')" "evs' = e @ es" using Cons.prems(2) e by (auto split: prod.splits)
  show ?case using Cons.IH [OF relay_history.call [OF Cons.prems(1) e] es(1)] es(2) by simp
qed simp

text \<open>A transfer of 5000 to a chain, confirmed twice by the only validator.\<close>

definition example_id :: string where
  "example_id = transfer_id 7 1"

definition example_relay_calls :: "external_chain \<Rightarrow> relay_call list" where
  "example_relay_calls c = [AddBridgeValidator 1 1 100, OutboundRequest 9 c ''0xdef'' ''RCT'' 5000,
     SubmitConfirmation example_id 1, SubmitConfirmation example_id 1]"

abbreviation example_relay_new :: bridge_relayer where
  "example_relay_new \<equiv> bridge_relayer_new (bridge_state_new bridge_config_default) (bvs_new 2)"

lemma example_relay:
  "\<exists>r t. relay_run example_prims (\<lambda>_. 7) (example_relay_calls c) example_relay_new = ([Confirmed example_id 1 True, Confirmed example_id 1 True], r) \<and>
     get_transfer (rl_state r) example_id = Some t \<and> tr_status t = Validated \<and> tr_direction t = Outbound \<and>
     tr_dest_chain t = ec_name c \<and> tr_amount t = 5000 \<and> bs_transfers (rl_state r) = [(example_id, t)] \<and> tr_token_symbol t = ''RCT''"
proof -
  have fee: "calculate_fee 5000 c ''RCT'' = 5" by (simp add: calculate_fee_def)
  show ?thesis
    by (simp add: example_relay_calls_def process_outbound_request_def initiate_outbound_def next_id_def fee
        bridge_relayer_new_def bridge_state_new_def bridge_config_default_def bvs_new_def bvs_add_validator_def is_paused_def
        submit_confirmation_def add_confirmation_def bvs_is_validator_def bvs_record_confirmation_def set_transfer_def
        when_ok_def get_transfer_def Let_def flip: example_id_def)
qed

lemma example_history:
  "relay_run example_prims (\<lambda>_. 7) (example_relay_calls c) example_relay_new = (evs, r) \<Longrightarrow>
   relay_history example_prims bridge_config_default 4 evs r"
  by (frule relay_run_history [OF relay_history.start]) (simp add: example_relay_calls_def eval_nat_numeral)

text \<open>It is finalized, marked as failed, confirmed once more by the same validator, and finalized again.\<close>

definition example_events :: "relay_event list" where
  "example_events = [Confirmed example_id 1 True, Confirmed example_id 1 True, Finalized example_id, MarkedFailed example_id,
     Confirmed example_id 1 True, Finalized example_id]"

lemma example_finalized_twice:
  "\<exists>r. relay_history example_prims bridge_config_default 8 example_events r"
proof -
  have fee: "calculate_fee 5000 Ethereum ''RCT'' = 5" by (simp add: calculate_fee_def)
  have name: "from_name ''Ethereum'' = Some Ethereum" using from_name_name [of Ethereum] by simp
  have "\<exists>r. relay_run example_prims (\<lambda>_. 7) (example_relay_calls Ethereum @
      [FinalizeTransfer example_id, FailTransfer example_id, SubmitConfirmation example_id 1, FinalizeTransfer example_id]) example_relay_new =
      (example_events, r)"
    by (simp add: example_relay_calls_def example_events_def process_outbound_request_def initiate_outbound_def next_id_def fee
        bridge_relayer_new_def bridge_state_new_def bridge_config_default_def bvs_new_def bvs_add_validator_def is_paused_def
        submit_confirmation_def add_confirmation_def bvs_is_validator_def bvs_record_confirmation_def set_transfer_def
        finalize_transfer_def finish_transfer_def complete_transfer_def fail_transfer_def name
        when_ok_def get_transfer_def Let_def flip: example_id_def)
  then show ?thesis
    using relay_run_history [OF relay_history.start] by (fastforce simp: example_relay_calls_def eval_nat_numeral)
qed

theorem transfer_finalized_once_witness:
  "\<exists>r t. relay_history example_prims bridge_config_default 8 example_events r \<and> \<not> distinct (finalized example_events) \<and>
     get_transfer (rl_state r) example_id = Some t \<and> tr_status t = Completed \<and> tr_required_confirmations t \<le> 2"
proof -
  obtain r where h: "relay_history example_prims bridge_config_default 8 example_events r" using example_finalized_twice by blast
  have split: "example_events = [Confirmed example_id 1 True, Confirmed example_id 1 True] @ Finalized example_id #
      [MarkedFailed example_id, Confirmed example_id 1 True, Finalized example_id]" by (simp add: example_events_def)
  have "closed example_id example_events"
    unfolding closed_def by (intro exI [of _ "take 5 example_events"] exI [of _ "Finalized example_id"] exI [of _ "[]"]) (simp add: example_events_def)
  moreover have "8 < (2 :: nat) ^ 64" by simp
  note fin = transfer_finalized_once [OF h this]
  note conjunct1 [OF conjunct2 [OF fin], rule_format, OF split]
  ultimately obtain t where "get_transfer (rl_state r) example_id = Some t" "tr_status t = Completed"
      "tr_required_confirmations t \<le> length (confirmers example_id [Confirmed example_id 1 True, Confirmed example_id 1 True])"
    using conjunct2 [OF conjunct2 [OF conjunct2 [OF fin]]] by blast
  then show ?thesis using h by (auto simp: example_events_def finalized_def confirmers_def)
qed

theorem bridge_accounting_witness:
  "\<exists>r. relay_history example_prims bridge_config_default 4 [Confirmed example_id 1 True, Confirmed example_id 1 True] r \<and>
     locked_at (rl_state r) Polygon ''RCT'' = 5000"
proof -
  obtain r t where r: "relay_run example_prims (\<lambda>_. 7) (example_relay_calls Polygon) example_relay_new = ([Confirmed example_id 1 True, Confirmed example_id 1 True], r)"
      "tr_direction t = Outbound" "tr_dest_chain t = ec_name Polygon" "tr_amount t = 5000" "bs_transfers (rl_state r) = [(example_id, t)]"
      "tr_token_symbol t = ''RCT''"
    using example_relay [of Polygon] by blast
  have h: "relay_history example_prims bridge_config_default 4 [Confirmed example_id 1 True, Confirmed example_id 1 True] r"
    by (rule example_history [OF r(1)])
  with bridge_accounting [OF h, of Polygon "''RCT''"] r(2-6) show ?thesis
    by (auto simp: hm_total_def outbound_amount_def)
qed

theorem validated_transfer_arrives_witness:
  "\<exists>r. relay_history example_prims bridge_config_default 4 [Confirmed example_id 1 True, Confirmed example_id 1 True] r \<and>
     finalize_transfer example_prims 7 r example_id = (Err (UnsupportedChain ''BNB Chain''), r)"
proof -
  obtain r t where r: "relay_run example_prims (\<lambda>_. 7) (example_relay_calls BnbChain) example_relay_new = ([Confirmed example_id 1 True, Confirmed example_id 1 True], r)"
      "get_transfer (rl_state r) example_id = Some t" "tr_status t = Validated" "tr_direction t = Outbound" "tr_dest_chain t = ec_name BnbChain"
    using example_relay [of BnbChain] by blast
  have h: "relay_history example_prims bridge_config_default 4 [Confirmed example_id 1 True, Confirmed example_id 1 True] r"
    by (rule example_history [OF r(1)])
  obtain res r' where fin: "finalize_transfer example_prims 7 r example_id = (res, r')" by fastforce
  from validated_transfer_arrives [OF h r(2,3) fin] r(4,5) fin h show ?thesis by auto
qed

theorem lone_validator_validates_witness:
  "\<exists>r t'. bvs_is_validator (rl_validators r) 1 \<and> get_transfer (rl_state r) example_id \<noteq> None \<and>
     get_transfer (rl_state (((\<lambda>r. snd (submit_confirmation 7 r example_id 1)) ^^ 2) r)) example_id = Some t' \<and> tr_status t' = Validated"
proof -
  define r where "r = snd (relay_run example_prims (\<lambda>_. 7) (take 2 (example_relay_calls Solana)) example_relay_new)"
  have fee: "calculate_fee 5000 Solana ''RCT'' = 5" by (simp add: calculate_fee_def)
  have "bvs_is_validator (rl_validators r) 1 \<and> (\<exists>t. get_transfer (rl_state r) example_id = Some t \<and> tr_status t = Pending \<and>
      tr_confirmations t = 0 \<and> tr_required_confirmations t = 2)"
    by (simp add: r_def example_relay_calls_def process_outbound_request_def initiate_outbound_def next_id_def fee
        bridge_relayer_new_def bridge_state_new_def bridge_config_default_def bvs_new_def bvs_add_validator_def is_paused_def
        bvs_is_validator_def get_transfer_def Let_def flip: example_id_def)
  then obtain t where t: "bvs_is_validator (rl_validators r) 1" "get_transfer (rl_state r) example_id = Some t" "tr_status t = Pending"
      "tr_confirmations t = 0" "tr_required_confirmations t = 2" by blast
  from lone_validator_validates [OF t(1,2), of 2 7] t show ?thesis by auto
qed

end
