(* ===== verification/Sdk.thy ===== *)
theory Sdk
  imports Crypto "HOL-Library.Monad_Syntax"
begin

text \<open>
  The contract SDK (\<open>src/contracts/sdk/src/lib.rs\<close>) in its native form: the environment a contract
  runs in and the calls it can make, and what the contracts share on top of it.

  A contract entry point takes its arguments as the bytes at the pointer it is given, and the
  environment, and returns a status and the environment; \<open>None\<close> is a panic, which is how
  \<open>sdk::abort\<close>, an index out of range and a slice out of range end. Contracts are compiled to
  WASM, where \<open>usize\<close> has 32 bits, so lengths and offsets read from the arguments are
  \<^typ>\<open>u32\<close> and their sums wrap.
\<close>

record mock_env =
  me_storage :: "(bytes, bytes) hmap"
  me_caller :: address
  me_self_addr :: address
  me_block_number :: u64
  me_block_timestamp :: u64
  me_chain_id :: u64
  me_self_balance :: u64
  me_events :: "bytes list"
  me_transfers :: "(address \<times> u64) list"

definition mock_env_default :: mock_env where
  "mock_env_default = \<lparr>me_storage = [], me_caller = 0, me_self_addr = 0, me_block_number = 1,
     me_block_timestamp = 1700000000, me_chain_id = 9999, me_self_balance = 0, me_events = [], me_transfers = []\<rparr>"

definition mock_reset :: "mock_env \<Rightarrow> mock_env" where
  "mock_reset e = mock_env_default"

definition mock_set_caller :: "address \<Rightarrow> mock_env \<Rightarrow> mock_env" where
  "mock_set_caller a e = e\<lparr>me_caller := a\<rparr>"

definition mock_set_self_address :: "address \<Rightarrow> mock_env \<Rightarrow> mock_env" where
  "mock_set_self_address a e = e\<lparr>me_self_addr := a\<rparr>"

definition mock_set_block_number :: "u64 \<Rightarrow> mock_env \<Rightarrow> mock_env" where
  "mock_set_block_number n e = e\<lparr>me_block_number := n\<rparr>"

definition mock_set_block_timestamp :: "u64 \<Rightarrow> mock_env \<Rightarrow> mock_env" where
  "mock_set_block_timestamp t e = e\<lparr>me_block_timestamp := t\<rparr>"

definition mock_set_chain_id :: "u64 \<Rightarrow> mock_env \<Rightarrow> mock_env" where
  "mock_set_chain_id i e = e\<lparr>me_chain_id := i\<rparr>"

definition mock_set_balance :: "u64 \<Rightarrow> mock_env \<Rightarrow> mock_env" where
  "mock_set_balance b e = e\<lparr>me_self_balance := b\<rparr>"

definition mock_get_events :: "mock_env \<Rightarrow> bytes list" where
  "mock_get_events e = me_events e"

definition mock_get_transfers :: "mock_env \<Rightarrow> (address \<times> u64) list" where
  "mock_get_transfers e = me_transfers e"

definition sdk_storage_read :: "mock_env \<Rightarrow> bytes \<Rightarrow> bytes option" where
  "sdk_storage_read e k = hm_get (me_storage e) k"

definition sdk_storage_write :: "mock_env \<Rightarrow> bytes \<Rightarrow> bytes \<Rightarrow> mock_env" where
  "sdk_storage_write e k v = e\<lparr>me_storage := hm_put k v (me_storage e)\<rparr>"

definition sdk_caller :: "mock_env \<Rightarrow> address" where
  "sdk_caller e = me_caller e"

definition sdk_self_address :: "mock_env \<Rightarrow> address" where
  "sdk_self_address e = me_self_addr e"

definition sdk_block_number :: "mock_env \<Rightarrow> u64" where
  "sdk_block_number e = me_block_number e"

definition sdk_chain_id :: "mock_env \<Rightarrow> u64" where
  "sdk_chain_id e = me_chain_id e"

definition sdk_block_timestamp :: "mock_env \<Rightarrow> u64" where
  "sdk_block_timestamp e = me_block_timestamp e"

definition sdk_self_balance :: "mock_env \<Rightarrow> u64" where
  "sdk_self_balance e = me_self_balance e"

definition sdk_transfer :: "mock_env \<Rightarrow> address \<Rightarrow> u64 \<Rightarrow> bool \<times> mock_env" where
  "sdk_transfer e to amount =
     (if amount \<le> me_self_balance e
      then (True, e\<lparr>me_self_balance := me_self_balance e - amount, me_transfers := me_transfers e @ [(to, amount)]\<rparr>)
      else (False, e))"

definition sdk_emit_event :: "string \<Rightarrow> mock_env \<Rightarrow> mock_env" where
  "sdk_emit_event d e = e\<lparr>me_events := me_events e @ [string_bytes d]\<rparr>"

definition sdk_abort :: "string \<Rightarrow> 'a option" where
  "sdk_abort msg = None"

text \<open>The storage of the environment is a store of slots.\<close>

interpretation env: slot_map sdk_storage_read sdk_storage_write
  by unfold_locales (simp add: sdk_storage_read_def sdk_storage_write_def)

text \<open>The calls that only move other parts of the environment.\<close>

lemma sdk_frame [simp]:
  "sdk_storage_read (sdk_emit_event d e) k = sdk_storage_read e k"
  "sdk_storage_read (snd (sdk_transfer e to amt)) k = sdk_storage_read e k"
  "sdk_storage_read (mock_set_caller a e) k = sdk_storage_read e k"
  "me_caller (sdk_emit_event d e) = me_caller e" "me_caller (sdk_storage_write e k v) = me_caller e"
  "me_self_balance (sdk_emit_event d e) = me_self_balance e" "me_self_balance (sdk_storage_write e k v) = me_self_balance e"
  "me_transfers (sdk_emit_event d e) = me_transfers e" "me_transfers (sdk_storage_write e k v) = me_transfers e"
  "me_block_timestamp (sdk_emit_event d e) = me_block_timestamp e" "me_block_timestamp (sdk_storage_write e k v) = me_block_timestamp e"
  by (simp_all add: sdk_storage_read_def sdk_emit_event_def sdk_transfer_def sdk_storage_write_def mock_set_caller_def)

lemma sdk_caller_set [simp]: "sdk_caller (mock_set_caller a e) = a"
  by (simp add: sdk_caller_def mock_set_caller_def)

text \<open>A payment is made in full or not at all.\<close>

lemma sdk_transfer_exact:
  "sdk_transfer e to amt = (paid, e') \<Longrightarrow>
   unat (me_self_balance e') + (if paid then unat amt else 0) = unat (me_self_balance e) \<and>
   me_transfers e' = me_transfers e @ (if paid then [(to, amt)] else [])"
  by (auto simp: sdk_transfer_def unat_sub word_le_nat_alt split: if_splits)

section \<open>Typed slots\<close>

definition read_word :: "nat \<Rightarrow> mock_env \<Rightarrow> bytes \<Rightarrow> 'a::len word" where
  "read_word n e k = unwrap_or 0 (Option.bind (sdk_storage_read e k)
     (\<lambda>v. if length v = n then Some (from_le_bytes v) else None))"

definition read_u64 :: "mock_env \<Rightarrow> bytes \<Rightarrow> u64" where
  "read_u64 e k = read_word 8 e k"

definition write_u64 :: "bytes \<Rightarrow> u64 \<Rightarrow> mock_env \<Rightarrow> mock_env" where
  "write_u64 k v e = sdk_storage_write e k (to_le_bytes v)"

lemma read_write_u64 [simp]: "read_u64 (write_u64 k v e) l = (if l = k then v else read_u64 e l)"
  by (simp add: read_u64_def write_u64_def read_word_def env.rd_wr le64.dec_enc)

lemma read_u64_cong: "sdk_storage_read e k = sdk_storage_read e' k \<Longrightarrow> read_u64 e k = read_u64 e' k"
  by (simp add: read_u64_def read_word_def)

lemma read_u64_event [simp]: "read_u64 (sdk_emit_event d e) k = read_u64 e k"
  by (rule read_u64_cong) simp

lemma read_u64_write_other [simp]: "l \<noteq> k \<Longrightarrow> read_u64 (sdk_storage_write e k v) l = read_u64 e l"
  by (rule read_u64_cong) (simp add: env.rd_wr)

text \<open>A slice of the arguments, and the result of an entry point.\<close>

definition slice :: "bytes \<Rightarrow> u32 \<Rightarrow> u32 \<Rightarrow> bytes option" where
  "slice xs a b = (if a \<le> b \<and> unat b \<le> length xs then Some (take (unat b - unat a) (drop (unat a) xs)) else None)"

type_synonym entry = "mock_env \<Rightarrow> (i32 \<times> mock_env) option"

abbreviation FAILED :: i32 where "FAILED \<equiv> - 1"

end
