(* ===== verification/Token.thy ===== *)
theory Token
  imports Sdk
begin

text \<open>
  The token contract (\<open>src/contracts/token/src/lib.rs\<close>): its storage layout and entry points, the
  abstract ledger they implement, and that no call but \<open>init\<close> makes or destroys tokens.
\<close>

definition balance_key :: "address \<Rightarrow> bytes" where
  "balance_key a = string_bytes ''balance:'' @ to_be_bytes a"

definition allowance_key :: "address \<Rightarrow> address \<Rightarrow> bytes" where
  "allowance_key owner spender =
     string_bytes ''allowance:'' @ to_be_bytes owner @ string_bytes '':'' @ to_be_bytes spender"

definition token_init :: entry where
  "token_init e =
     (let caller = sdk_caller e;
          e1 = sdk_storage_write e (string_bytes ''name'') (string_bytes ''RustChain Token'');
          e2 = sdk_storage_write e1 (string_bytes ''symbol'') (string_bytes ''RCT'');
          e3 = sdk_storage_write e2 (string_bytes ''decimals'') [18];
          e4 = sdk_storage_write e3 (string_bytes ''owner'') (to_be_bytes caller);
          initial_supply = 1000000000;
          e5 = write_u64 (string_bytes ''total_supply'') initial_supply e4;
          e6 = write_u64 (balance_key caller) initial_supply e5 in
      Some (0, sdk_emit_event ''TokenInitialized'' e6))"

text \<open>Both branches of the code return the balance of the caller.\<close>

definition balance_of :: "i32 \<Rightarrow> entry" where
  "balance_of addr_len e =
     (if addr_len \<noteq> 20 then Some (ucast (read_u64 e (balance_key (sdk_caller e))), e)
      else Some (ucast (read_u64 e (balance_key (sdk_caller e))), e))"

definition transfer_tokens :: "bytes \<Rightarrow> entry" where
  "transfer_tokens args e =
     (if length args < 28 then Some (FAILED, sdk_emit_event ''TransferFailed:InvalidArgs'' e)
      else
        (let caller = sdk_caller e; caller_balance = read_u64 e (balance_key caller);
             to_addr = from_be_bytes (take 20 args); amount = from_le_bytes (take 8 (drop 20 args)) in
         if caller_balance < amount then Some (FAILED, sdk_emit_event ''TransferFailed:InsufficientBalance'' e)
         else
           (let e1 = write_u64 (balance_key caller) (caller_balance - amount) e;
                to_balance = read_u64 e1 (balance_key to_addr);
                e2 = write_u64 (balance_key to_addr) (to_balance + amount) e1 in
            Some (0, sdk_emit_event ''Transfer'' e2))))"

definition approve :: "bytes \<Rightarrow> entry" where
  "approve args e =
     (if length args < 28 then Some (FAILED, e)
      else
        (let spender = from_be_bytes (take 20 args); amount = from_le_bytes (take 8 (drop 20 args)) in
         Some (0, sdk_emit_event ''Approval'' (write_u64 (allowance_key (sdk_caller e) spender) amount e))))"

definition total_supply :: entry where
  "total_supply e = Some (ucast (read_u64 e (string_bytes ''total_supply'')), e)"

section \<open>The ledger\<close>

text \<open>What the contract promises: balances by address, a fixed supply, and allowances.\<close>

record ledger =
  lg_balance :: "address \<Rightarrow> u64"
  lg_allowance :: "address \<Rightarrow> address \<Rightarrow> u64"
  lg_supply :: u64

definition ledger_transfer :: "address \<Rightarrow> address \<Rightarrow> u64 \<Rightarrow> ledger \<Rightarrow> ledger option" where
  "ledger_transfer a b v l =
     (if lg_balance l a < v then None
      else if a = b then Some l
      else Some (l\<lparr>lg_balance := (lg_balance l)(a := lg_balance l a - v, b := lg_balance l b + v)\<rparr>))"

definition ledger_approve :: "address \<Rightarrow> address \<Rightarrow> u64 \<Rightarrow> ledger \<Rightarrow> ledger" where
  "ledger_approve a b v l = l\<lparr>lg_allowance := (lg_allowance l)(a := (lg_allowance l a)(b := v))\<rparr>"

definition ledger_of :: "mock_env \<Rightarrow> ledger" where
  "ledger_of e = \<lparr>lg_balance = \<lambda>a. read_u64 e (balance_key a), lg_allowance = \<lambda>a b. read_u64 e (allowance_key a b),
     lg_supply = read_u64 e (string_bytes ''total_supply'')\<rparr>"

lemma token_keys [simp]:
  "balance_key a = balance_key b \<longleftrightarrow> a = b"
  "allowance_key a s = allowance_key b t \<longleftrightarrow> a = b \<and> s = t"
  "balance_key a \<noteq> allowance_key b t" "allowance_key b t \<noteq> balance_key a"
  "balance_key a \<noteq> string_bytes ''total_supply''" "string_bytes ''total_supply'' \<noteq> balance_key a"
  "allowance_key a s \<noteq> string_bytes ''total_supply''" "string_bytes ''total_supply'' \<noteq> allowance_key a s"
  "balance_key a \<noteq> string_bytes ''name''" "balance_key a \<noteq> string_bytes ''symbol''"
  "balance_key a \<noteq> string_bytes ''decimals''" "balance_key a \<noteq> string_bytes ''owner''"
  "allowance_key a s \<noteq> string_bytes ''name''" "allowance_key a s \<noteq> string_bytes ''symbol''"
  "allowance_key a s \<noteq> string_bytes ''decimals''" "allowance_key a s \<noteq> string_bytes ''owner''"
  by (auto simp: balance_key_def allowance_key_def string_bytes_def addr20.enc_inject addr20.enc_append_inject)

lemma ledger_of_event [simp]: "ledger_of (sdk_emit_event d e) = ledger_of e"
  by (simp add: ledger_of_def)

lemma ledger_of_balance: "ledger_of (write_u64 (balance_key a) v e) = (ledger_of e)\<lparr>lg_balance := (lg_balance (ledger_of e))(a := v)\<rparr>"
  by (auto simp: ledger_of_def)

lemma ledger_of_allowance:
  "ledger_of (write_u64 (allowance_key a b) v e) = ledger_approve a b v (ledger_of e)"
  by (auto simp: ledger_of_def ledger_approve_def fun_eq_iff)

lemma transfer_tokens_ledger:
  "\<exists>st e'. transfer_tokens args e = Some (st, e') \<and>
     (if length args < 28 then st = FAILED \<and> ledger_of e' = ledger_of e
      else case ledger_transfer (sdk_caller e) (from_be_bytes (take 20 args)) (from_le_bytes (take 8 (drop 20 args))) (ledger_of e) of
          None \<Rightarrow> st = FAILED \<and> ledger_of e' = ledger_of e
        | Some l \<Rightarrow> st = 0 \<and> ledger_of e' = l)"
proof -
  have bal: "read_u64 e (balance_key a) = lg_balance (ledger_of e) a" for a by (simp add: ledger_of_def)
  show ?thesis
    by (auto simp: transfer_tokens_def Let_def ledger_of_balance ledger_transfer_def bal)
qed

lemma approve_ledger:
  "\<exists>st e'. approve args e = Some (st, e') \<and>
     (if length args < 28 then st = FAILED \<and> e' = e
      else st = 0 \<and> ledger_of e' =
        ledger_approve (sdk_caller e) (from_be_bytes (take 20 args)) (from_le_bytes (take 8 (drop 20 args))) (ledger_of e))"
  by (auto simp: approve_def Let_def ledger_of_allowance)

text \<open>
  C14 (the token contract implements the ledger). \<open>transfer_tokens\<close> and \<open>approve\<close> never panic. Given at
  least 28 bytes of arguments, a transfer does to the stored balances what the ledger's transfer does,
  a transfer to oneself included, and fails without a change exactly when the balance is too small; an
  approval sets the one allowance. Shorter arguments are refused without a change.
\<close>

theorem token_implements_ledger:
  "\<exists>st e'. transfer_tokens args e = Some (st, e') \<and>
     (if length args < 28 then st = FAILED \<and> ledger_of e' = ledger_of e
      else case ledger_transfer (sdk_caller e) (from_be_bytes (take 20 args)) (from_le_bytes (take 8 (drop 20 args))) (ledger_of e) of
          None \<Rightarrow> st = FAILED \<and> ledger_of e' = ledger_of e
        | Some l \<Rightarrow> st = 0 \<and> ledger_of e' = l) \<and>
   (\<exists>st e'. approve args e = Some (st, e') \<and>
     (if length args < 28 then st = FAILED \<and> e' = e
      else st = 0 \<and> ledger_of e' =
        ledger_approve (sdk_caller e) (from_be_bytes (take 20 args)) (from_le_bytes (take 8 (drop 20 args))) (ledger_of e)))"
  using transfer_tokens_ledger [of args e] approve_ledger [of args e] by blast

section \<open>No tokens from nowhere\<close>

datatype token_call = TransferTokens bytes | Approve bytes | BalanceOf i32 | TotalSupply

fun token_exec :: "token_call \<Rightarrow> entry" where
  "token_exec (TransferTokens args) e = transfer_tokens args e"
| "token_exec (Approve args) e = approve args e"
| "token_exec (BalanceOf n) e = balance_of n e"
| "token_exec TotalSupply e = total_supply e"

text \<open>A deployed token: one \<open>init\<close> on empty storage, then calls by anyone.\<close>

inductive token_reachable :: "mock_env \<Rightarrow> bool" where
  deployed: "me_storage e = [] \<Longrightarrow> token_init e = Some (st, e') \<Longrightarrow> token_reachable e'"
| call: "token_reachable e \<Longrightarrow> token_exec c (mock_set_caller a e) = Some (st, e') \<Longrightarrow> token_reachable e'"

definition tokens_held :: "ledger \<Rightarrow> nat" where
  "tokens_held l = (\<Sum>a\<in>UNIV. unat (lg_balance l a))"

lemma ledger_of_caller [simp]: "ledger_of (mock_set_caller a e) = ledger_of e"
  by (simp add: ledger_of_def read_u64_def read_word_def)

lemma sum_two:
  fixes f :: "'a::finite \<Rightarrow> nat"
  assumes "a \<noteq> b" "f' a + f' b = f a + f b" "\<And>c. c \<noteq> a \<Longrightarrow> c \<noteq> b \<Longrightarrow> f' c = f c"
  shows "sum f' UNIV = sum f UNIV"
proof -
  have "sum g UNIV = g a + g b + sum g (UNIV - {a, b})" for g :: "'a \<Rightarrow> nat"
    using assms(1) sum.subset_diff [of "{a, b}" UNIV g] by simp
  moreover have "sum f' (UNIV - {a, b}) = sum f (UNIV - {a, b})" using assms(3) by (intro sum.cong) auto
  ultimately show ?thesis using assms(2) by simp
qed

lemma two_held: "a \<noteq> b \<Longrightarrow> unat (lg_balance l a) + unat (lg_balance l b) \<le> tokens_held l"
  using sum_mono2 [of UNIV "{a, b}" "\<lambda>a. unat (lg_balance l a)"] by (simp add: tokens_held_def)

lemma ledger_transfer_held:
  assumes "ledger_transfer a b v l = Some l'" "tokens_held l < 2 ^ 64"
  shows "tokens_held l' = tokens_held l \<and> lg_supply l' = lg_supply l"
proof (cases "a = b")
  case False
  then have l': "l' = l\<lparr>lg_balance := (lg_balance l)(a := lg_balance l a - v, b := lg_balance l b + v)\<rparr>" "v \<le> lg_balance l a"
    using assms(1) by (auto simp: ledger_transfer_def split: if_splits)
  have "unat (lg_balance l b) + unat v < 2 ^ LENGTH(64)"
    using two_held [OF False, of l] l'(2) assms(2) by (simp add: word_le_nat_alt)
  from unat_add_nowrap [OF this] have "unat (lg_balance l' a) + unat (lg_balance l' b) = unat (lg_balance l a) + unat (lg_balance l b)"
    using l' False by (simp add: unat_sub_le word_le_nat_alt)
  then have "tokens_held l' = tokens_held l"
    unfolding tokens_held_def by (rule sum_two [OF False]) (simp add: l'(1))
  with l'(1) show ?thesis by simp
qed (use assms(1) in \<open>auto simp: ledger_transfer_def split: if_splits\<close>)

lemma tokens_held_approve [simp]: "tokens_held (ledger_approve a b v l) = tokens_held l" "lg_supply (ledger_approve a b v l) = lg_supply l"
  by (simp_all add: tokens_held_def ledger_approve_def)

lemma token_init_ledger:
  assumes "token_init e = Some (st, e')"
  shows "lg_balance (ledger_of e') = (lg_balance (ledger_of e))(sdk_caller e := 1000000000)" "lg_supply (ledger_of e') = 1000000000"
  using assms by (auto simp: token_init_def Let_def ledger_of_def)

text \<open>
  C20 (no tokens from nowhere). After a token is deployed, whatever transfers, approvals and queries
  anyone makes, the balances of all addresses add up to the initial supply of \<open>1,000,000,000\<close>, which is
  also the supply on record; so no balance ever wraps around.
\<close>

theorem token_supply_fixed:
  assumes "token_reachable e"
  shows "(\<Sum>a\<in>UNIV. unat (read_u64 e (balance_key a))) = 1000000000 \<and> read_u64 e (string_bytes ''total_supply'') = 1000000000"
proof -
  have "tokens_held (ledger_of e) = 1000000000 \<and> lg_supply (ledger_of e) = 1000000000"
    using assms
  proof induction
    case (deployed e st e')
    then have "lg_balance (ledger_of e) = (\<lambda>_. 0)"
      by (simp add: ledger_of_def read_u64_def read_word_def sdk_storage_read_def)
    then show ?case using token_init_ledger [OF deployed(2)] by (simp add: tokens_held_def fun_upd_def if_distrib cong: if_cong)
  next
    case (call e c a st e')
    show ?case
    proof (cases c)
      case (TransferTokens args)
      then show ?thesis
        using call transfer_tokens_ledger [of args "mock_set_caller a e"]
          ledger_transfer_held [of a "from_be_bytes (take 20 args)" "from_le_bytes (take 8 (drop 20 args))" "ledger_of e"]
        by (auto split: if_splits option.splits)
    next
      case (Approve args)
      then show ?thesis using call by (auto simp: approve_def Let_def ledger_of_allowance split: if_splits)
    qed (use call in \<open>auto simp: balance_of_def total_supply_def\<close>)
  qed
  then show ?thesis by (simp add: tokens_held_def ledger_of_def)
qed

text \<open>The entry point \<open>init\<close> stays callable: anyone who calls it is given the initial supply again, and the contract.\<close>

lemma token_init_again:
  assumes "token_init (mock_set_caller a e) = Some (st, e')" "b \<noteq> a"
  shows "read_u64 e' (balance_key a) = 1000000000" "read_u64 e' (balance_key b) = read_u64 e (balance_key b)"
    "sdk_storage_read e' (string_bytes ''owner'') = Some (to_be_bytes a)"
  using assms by (auto simp: token_init_def Let_def sdk_caller_def mock_set_caller_def write_u64_def env.rd_wr balance_key_def
      string_bytes_def addr20.enc_inject read_u64_def read_word_def le64.dec_enc sdk_storage_read_def sdk_storage_write_def sdk_emit_event_def)

definition example_token_args :: bytes where
  "example_token_args = to_be_bytes (2 :: address) @ to_le_bytes (600 :: u64)"

theorem token_supply_fixed_witness:
  "\<exists>e. token_reachable e \<and> read_u64 e (balance_key 1) = 999999400 \<and> read_u64 e (balance_key 2) = 600 \<and>
     (\<Sum>a\<in>UNIV. unat (read_u64 e (balance_key a))) = 1000000000"
proof -
  obtain st0 e0 where e0: "token_init (mock_set_caller 1 mock_env_default) = Some (st0, e0)"
    by (simp add: token_init_def Let_def)
  have r0: "token_reachable e0"
    by (rule token_reachable.deployed [OF _ e0]) (simp add: mock_set_caller_def mock_env_default_def)
  have b0: "lg_balance (ledger_of e0) = (\<lambda>a. if a = 1 then 1000000000 else 0)"
    using token_init_ledger(1) [OF e0]
    by (auto simp: sdk_caller_def mock_set_caller_def ledger_of_def read_u64_def read_word_def sdk_storage_read_def mock_env_default_def)
  obtain st e where e: "transfer_tokens example_token_args (mock_set_caller 1 e0) = Some (st, e)"
      "ledger_of e = (ledger_of e0)\<lparr>lg_balance := (lg_balance (ledger_of e0))(1 := 999999400, 2 := 600)\<rparr>"
    using transfer_tokens_ledger [of example_token_args "mock_set_caller 1 e0"]
    by (auto simp: example_token_args_def addr20.dec_enc le64.dec_enc ledger_transfer_def b0)
  have r: "token_reachable e" by (rule token_reachable.call [OF r0, where c = "TransferTokens example_token_args" and a = 1]) (simp add: e(1))
  have "read_u64 e (balance_key a) = lg_balance (ledger_of e) a" for a by (simp add: ledger_of_def)
  then show ?thesis using r token_supply_fixed [OF r] e(2) b0 by auto
qed

end
