(* ===== verification/Sha256.thy ===== *)
theory Sha256
  imports Sdk
begin

unbundle bit_operations_syntax

text \<open>
  The SHA-256 of the bridge contract (\<open>src/contracts/bridge/src/lib.rs\<close>, \<open>simple_sha256\<close> and
  \<open>hex_encode_32\<close>), loop by loop, and the reference it is compared with: the message schedule as the
  recurrence of the standard, the padding as a closed form, and the digest as a fold of the
  compression function over the blocks.
\<close>

section \<open>The contract's code\<close>

definition SHA_K :: "u32 list" where
  "SHA_K = concat
    [[0x428a2f98, 0x71374491, 0xb5c0fbcf, 0xe9b5dba5], [0x3956c25b, 0x59f111f1, 0x923f82a4, 0xab1c5ed5],
     [0xd807aa98, 0x12835b01, 0x243185be, 0x550c7dc3], [0x72be5d74, 0x80deb1fe, 0x9bdc06a7, 0xc19bf174],
     [0xe49b69c1, 0xefbe4786, 0x0fc19dc6, 0x240ca1cc], [0x2de92c6f, 0x4a7484aa, 0x5cb0a9dc, 0x76f988da],
     [0x983e5152, 0xa831c66d, 0xb00327c8, 0xbf597fc7], [0xc6e00bf3, 0xd5a79147, 0x06ca6351, 0x14292967],
     [0x27b70a85, 0x2e1b2138, 0x4d2c6dfc, 0x53380d13], [0x650a7354, 0x766a0abb, 0x81c2c92e, 0x92722c85],
     [0xa2bfe8a1, 0xa81a664b, 0xc24b8b70, 0xc76c51a3], [0xd192e819, 0xd6990624, 0xf40e3585, 0x106aa070],
     [0x19a4c116, 0x1e376c08, 0x2748774c, 0x34b0bcb5], [0x391c0cb3, 0x4ed8aa4a, 0x5b9cca4f, 0x682e6ff3],
     [0x748f82ee, 0x78a5636f, 0x84c87814, 0x8cc70208], [0x90befffa, 0xa4506ceb, 0xbef9a3f7, 0xc67178f2]]"

definition SHA_H :: "u32 list" where
  "SHA_H = [0x6a09e667, 0xbb67ae85, 0x3c6ef372, 0xa54ff53a, 0x510e527f, 0x9b05688c, 0x1f83d9ab, 0x5be0cd19]"

text \<open>\<open>while (padded.len() % 64) != 56 { padded.push(0) }\<close>\<close>

function pad_loop :: "bytes \<Rightarrow> bytes" where
  "pad_loop padded = (if length padded mod 64 \<noteq> 56 then pad_loop (padded @ [0]) else padded)"
  by auto

text \<open>Each round brings the length one nearer to the next residue 56.\<close>

definition pad_missing :: "nat \<Rightarrow> nat" where
  "pad_missing n = (if n mod 64 \<le> 56 then 56 - n mod 64 else 120 - n mod 64)"

lemma pad_missing_Suc: "n mod 64 \<noteq> 56 \<Longrightarrow> pad_missing n = Suc (pad_missing (Suc n))"
proof -
  assume n: "n mod 64 \<noteq> 56"
  define r where "r = n mod 64"
  have r: "r < 64" "r \<noteq> 56" using n by (simp_all add: r_def)
  have "Suc n mod 64 = (if r = 63 then 0 else Suc r)" by (simp add: r_def mod_Suc)
  then show ?thesis using r by (auto simp: pad_missing_def simp flip: r_def)
qed

termination pad_loop
  by (relation "measure (\<lambda>xs. pad_missing (length xs))") (simp_all add: pad_missing_Suc)

declare pad_loop.simps [simp del]

text \<open>\<open>data.len() as u64 * 8\<close> wraps like the multiplication of words.\<close>

definition sha_pad :: "bytes \<Rightarrow> bytes" where
  "sha_pad data = pad_loop (data @ [0x80]) @ to_be_bytes (of_nat (length data) * 8 :: u64)"

function chunks :: "bytes \<Rightarrow> bytes list" where
  "chunks xs = (if xs = [] then [] else take 64 xs # chunks (drop 64 xs))"
  by auto

termination chunks
  by (relation "measure length") simp_all

declare chunks.simps [simp del]

definition sha_load :: "bytes \<Rightarrow> u32 list" where
  "sha_load chunk = foldl (\<lambda>w i. w[i := from_be_bytes [chunk ! (i * 4), chunk ! (i * 4 + 1), chunk ! (i * 4 + 2), chunk ! (i * 4 + 3)]])
     (replicate 64 0) [0..<16]"

definition sha_extend :: "u32 list \<Rightarrow> nat \<Rightarrow> u32 list" where
  "sha_extend w i =
     (let s0 = word_rotr 7 (w ! (i - 15)) XOR word_rotr 18 (w ! (i - 15)) XOR drop_bit 3 (w ! (i - 15));
          s1 = word_rotr 17 (w ! (i - 2)) XOR word_rotr 19 (w ! (i - 2)) XOR drop_bit 10 (w ! (i - 2)) in
      w[i := w ! (i - 16) + s0 + w ! (i - 7) + s1])"

definition sha_schedule :: "bytes \<Rightarrow> u32 list" where
  "sha_schedule chunk = foldl sha_extend (sha_load chunk) [16..<64]"

type_synonym sha_state = "u32 \<times> u32 \<times> u32 \<times> u32 \<times> u32 \<times> u32 \<times> u32 \<times> u32"

definition sha_round :: "u32 list \<Rightarrow> sha_state \<Rightarrow> nat \<Rightarrow> sha_state" where
  "sha_round w st i =
     (case st of (a, b, c, d, e, f, g, hh) \<Rightarrow>
        (let s1 = word_rotr 6 e XOR word_rotr 11 e XOR word_rotr 25 e;
             ch = (e AND f) XOR (NOT e AND g);
             temp1 = hh + s1 + ch + SHA_K ! i + w ! i;
             s0 = word_rotr 2 a XOR word_rotr 13 a XOR word_rotr 22 a;
             maj = (a AND b) XOR (a AND c) XOR (b AND c);
             temp2 = s0 + maj in
         (temp1 + temp2, a, b, c, d + temp1, e, f, g)))"

definition sha_block :: "u32 list \<Rightarrow> bytes \<Rightarrow> u32 list" where
  "sha_block h chunk =
     (let w = sha_schedule chunk in
      case foldl (sha_round w) (h ! 0, h ! 1, h ! 2, h ! 3, h ! 4, h ! 5, h ! 6, h ! 7) [0..<64] of
        (a, b, c, d, e, f, g, hh) \<Rightarrow>
          [h ! 0 + a, h ! 1 + b, h ! 2 + c, h ! 3 + d, h ! 4 + e, h ! 5 + f, h ! 6 + g, h ! 7 + hh])"

definition simple_sha256 :: "bytes \<Rightarrow> 256 word" where
  "simple_sha256 data = from_be_bytes (concat (map to_be_bytes (foldl sha_block SHA_H (chunks (sha_pad data)))))"

definition HEX_CHARS :: bytes where
  "HEX_CHARS = string_bytes ''0123456789abcdef''"

definition hex_encode_32 :: "256 word \<Rightarrow> bytes" where
  "hex_encode_32 w = concat (map (\<lambda>b. [HEX_CHARS ! unat (drop_bit 4 b), HEX_CHARS ! unat (b AND 0x0f)]) (to_be_bytes w))"

section \<open>The reference\<close>

definition Ch :: "u32 \<Rightarrow> u32 \<Rightarrow> u32 \<Rightarrow> u32" where
  "Ch x y z = (x AND y) XOR (NOT x AND z)"

definition Maj :: "u32 \<Rightarrow> u32 \<Rightarrow> u32 \<Rightarrow> u32" where
  "Maj x y z = (x AND y) XOR (x AND z) XOR (y AND z)"

definition Sigma :: "nat \<Rightarrow> nat \<Rightarrow> nat \<Rightarrow> u32 \<Rightarrow> u32" where
  "Sigma i j k x = word_rotr i x XOR word_rotr j x XOR word_rotr k x"

definition sigma :: "nat \<Rightarrow> nat \<Rightarrow> nat \<Rightarrow> u32 \<Rightarrow> u32" where
  "sigma i j k x = word_rotr i x XOR word_rotr j x XOR drop_bit k x"

fun W :: "bytes \<Rightarrow> nat \<Rightarrow> u32" where
  "W M t = (if t < 16 then from_be_bytes (take 4 (drop (4 * t) M))
     else sigma 17 19 10 (W M (t - 2)) + W M (t - 7) + sigma 7 18 3 (W M (t - 15)) + W M (t - 16))"

declare W.simps [simp del]

primrec working :: "bytes \<Rightarrow> sha_state \<Rightarrow> nat \<Rightarrow> sha_state" where
  "working M H 0 = H"
| "working M H (Suc t) =
     (case working M H t of (a, b, c, d, e, f, g, h) \<Rightarrow>
        (let T1 = h + Sigma 6 11 25 e + Ch e f g + SHA_K ! t + W M t; T2 = Sigma 2 13 22 a + Maj a b c in
         (T1 + T2, a, b, c, d + T1, e, f, g)))"

definition sha_compress :: "sha_state \<Rightarrow> bytes \<Rightarrow> sha_state" where
  "sha_compress H M =
     (case H of (h0, h1, h2, h3, h4, h5, h6, h7) \<Rightarrow>
      case working M H 64 of (a, b, c, d, e, f, g, h) \<Rightarrow> (h0 + a, h1 + b, h2 + c, h3 + d, h4 + e, h5 + f, h6 + g, h7 + h))"

definition sha_message :: "bytes \<Rightarrow> bytes" where
  "sha_message m = m @ 0x80 # replicate (pad_missing (length m + 1)) 0 @ to_be_bytes (of_nat (8 * length m) :: u64)"

fun state_list :: "sha_state \<Rightarrow> u32 list" where
  "state_list (a, b, c, d, e, f, g, h) = [a, b, c, d, e, f, g, h]"

fun list_state :: "u32 list \<Rightarrow> sha_state" where
  "list_state h = (h ! 0, h ! 1, h ! 2, h ! 3, h ! 4, h ! 5, h ! 6, h ! 7)"

definition sha256_spec :: "bytes \<Rightarrow> 256 word" where
  "sha256_spec m = (let M = sha_message m in
     from_be_bytes (concat (map to_be_bytes (state_list
       (foldl (\<lambda>H i. sha_compress H (take 64 (drop (64 * i) M))) (list_state SHA_H) [0..<length M div 64])))))"

section \<open>The loops compute the reference\<close>

lemma pad_loop_replicate: "pad_loop xs = xs @ replicate (pad_missing (length xs)) 0"
proof (induction xs rule: pad_loop.induct)
  case (1 padded)
  show ?case
  proof (cases "length padded mod 64 = 56")
    case True
    then show ?thesis by (simp add: pad_loop.simps [of padded] pad_missing_def)
  next
    case False
    then have "pad_loop padded = padded @ 0 # replicate (pad_missing (Suc (length padded))) 0"
      using 1 by (simp add: pad_loop.simps [of padded])
    then show ?thesis using pad_missing_Suc [OF False] by simp
  qed
qed

lemma sha_pad_message: "sha_pad m = sha_message m"
  by (simp add: sha_pad_def sha_message_def pad_loop_replicate mult.commute)

lemma pad_missing_mod: "(n + pad_missing n) mod 64 = 56"
proof -
  have "(n + pad_missing n) mod 64 = (n mod 64 + pad_missing n) mod 64" by (simp add: mod_add_left_eq)
  moreover have "n mod 64 + pad_missing n = 56 \<or> n mod 64 + pad_missing n = 120"
    using mod_less_divisor [of 64 n] by (auto simp: pad_missing_def)
  ultimately show ?thesis by auto
qed

lemma length_sha_message: "64 dvd length (sha_message m)"
proof -
  let ?n = "length m + 1 + pad_missing (length m + 1)"
  have "(?n + 8) mod 64 = (?n mod 64 + 8) mod 64" by (simp only: mod_add_left_eq)
  also have "\<dots> = 0" by (simp only: pad_missing_mod) simp
  finally show ?thesis by (simp add: sha_message_def mod_eq_0_iff_dvd ac_simps)
qed

lemma chunks_nth: "64 dvd length xs \<Longrightarrow> chunks xs = map (\<lambda>i. take 64 (drop (64 * i) xs)) [0..<length xs div 64]"
proof (induction xs rule: chunks.induct)
  case (1 xs)
  show ?case
  proof (cases "xs = []")
    case False
    with 1(2) obtain k where k: "length xs = 64 * Suc k" by (metis dvd_def length_0_conv mult_0_right old.nat.exhaust)
    then have "chunks (drop 64 xs) = map (\<lambda>i. take 64 (drop (64 * i) (drop 64 xs))) [0..<k]"
      using 1(1) [OF False] by simp
    moreover have "[0..<Suc k] = 0 # map Suc [0..<k]" by (simp add: map_Suc_upt upt_conv_Cons)
    ultimately show ?thesis using k False by (simp add: chunks.simps [of xs] comp_def add.commute)
  qed (simp add: chunks.simps)
qed

lemma chunks_length: "64 dvd length xs \<Longrightarrow> c \<in> set (chunks xs) \<Longrightarrow> length c = 64"
  by (auto simp: chunks_nth elim!: dvdE)

lemma foldl_nth_invariant:
  assumes "\<And>w i. n \<le> i \<Longrightarrow> i < m \<Longrightarrow> I i w \<Longrightarrow> I (Suc i) (f w i)" "I n w" "n \<le> m"
  shows "I m (foldl f w [n..<m])"
  using assms(3,1,2)
proof (induction rule: dec_induct)
  case (step k)
  then show ?case by (simp add: less_Suc_eq)
qed simp

lemma sha_load_nth: "length (sha_load c) = 64 \<and> (length c = 64 \<longrightarrow> (\<forall>t < 16. sha_load c ! t = W c t))"
proof -
  let ?f = "\<lambda>w i. w[i := from_be_bytes [c ! (i * 4), c ! (i * 4 + 1), c ! (i * 4 + 2), c ! (i * 4 + 3)]]"
  let ?I = "\<lambda>n w. length w = 64 \<and> (length c = 64 \<longrightarrow> (\<forall>t < n. w ! t = W c t))"
  have four: "take 4 (drop (4 * i) c) = [c ! (i * 4), c ! (i * 4 + 1), c ! (i * 4 + 2), c ! (i * 4 + 3)]"
    if "i < 16" "length c = 64" for i
    by (rule nth_equalityI) (use that in \<open>auto simp: less_Suc_eq numeral_eq_Suc mult.commute\<close>)
  have "?I 16 (foldl ?f (replicate 64 0) [0..<16])"
    by (rule foldl_nth_invariant [where I = ?I]) (auto simp: less_Suc_eq nth_list_update W.simps [of c] four)
  then show ?thesis by (simp add: sha_load_def)
qed

lemma sha_schedule_nth: "length c = 64 \<Longrightarrow> t < 64 \<Longrightarrow> sha_schedule c ! t = W c t"
proof -
  assume c: "length c = 64" and t: "t < 64"
  let ?I = "\<lambda>n w. length w = 64 \<and> (\<forall>t < n. w ! t = W c t)"
  have "?I 64 (foldl sha_extend (sha_load c) [16..<64])"
    by (rule foldl_nth_invariant [where I = ?I])
      (use sha_load_nth [of c] c in \<open>auto simp: sha_extend_def Let_def less_Suc_eq W.simps [of c i for i] sigma_def ac_simps\<close>)
  then show ?thesis using t by (simp add: sha_schedule_def)
qed

lemma sha_round_working: "w ! n = W c n \<Longrightarrow> sha_round w (working c H n) n = working c H (Suc n)"
  by (cases "working c H n") (simp add: sha_round_def Sigma_def Ch_def Maj_def Let_def)

lemma working_rounds:
  assumes "length c = 64" "n \<le> 64"
  shows "foldl (sha_round (sha_schedule c)) H [0..<n] = working c H n"
  using assms(2)
proof (induction n)
  case (Suc n)
  then have "sha_schedule c ! n = W c n" "foldl (sha_round (sha_schedule c)) H [0..<n] = working c H n"
    using sha_schedule_nth [OF assms(1)] by simp_all
  then show ?case using sha_round_working by (simp del: working.simps)
qed simp

lemma sha_block_compress:
  assumes "length c = 64"
  shows "sha_block h c = state_list (sha_compress (list_state h) c)"
proof -
  obtain x0 x1 x2 x3 x4 x5 x6 x7 where x: "working c (list_state h) 64 = (x0, x1, x2, x3, x4, x5, x6, x7)"
    by (rule state_list.cases [of "working c (list_state h) 64"])
  have "foldl (sha_round (sha_schedule c)) (list_state h) [0..<64] = (x0, x1, x2, x3, x4, x5, x6, x7)"
    using working_rounds [OF assms, of 64] x by simp
  then show ?thesis
    using x unfolding sha_block_def sha_compress_def Let_def list_state.simps by (simp only: prod.case state_list.simps)
qed

lemma list_state_list [simp]: "list_state (state_list H) = H"
  by (rule state_list.cases [of H]) simp

lemma sha_blocks_compress:
  "\<forall>c \<in> set cs. length c = 64 \<Longrightarrow> foldl sha_block (state_list H) cs = state_list (foldl sha_compress H cs)"
  by (induction cs arbitrary: H) (simp_all add: sha_block_compress del: list_state.simps)

lemma simple_sha256_eq: "simple_sha256 = sha256_spec"
proof
  fix m
  let ?M = "sha_message m"
  have init: "SHA_H = state_list (list_state SHA_H)" by (simp add: SHA_H_def)
  have "foldl sha_block SHA_H (chunks (sha_pad m)) = foldl sha_block (state_list (list_state SHA_H)) (chunks ?M)"
    by (simp only: sha_pad_message flip: init)
  also have "\<dots> = state_list (foldl sha_compress (list_state SHA_H) (chunks ?M))"
    by (rule sha_blocks_compress) (use chunks_length [OF length_sha_message] in blast)
  finally show "simple_sha256 m = sha256_spec m"
    by (simp only: simple_sha256_def sha256_spec_def Let_def chunks_nth [OF length_sha_message] foldl_map)
qed

text \<open>
  C10 (SHA-256). For every message, the contract's hash, computed by a padding loop and in-place updates of an
  array of 64 words and of eight variables, is the digest of the standard: the message padded to
  whole blocks, the schedule given by its recurrence, and the compression function folded over the
  blocks.
\<close>

theorem simple_sha256_correct: "simple_sha256 m = sha256_spec m"
  by (simp only: simple_sha256_eq)

text \<open>The padding is injective on messages of fewer than \<open>2 ^ 61\<close> bytes, so the digest sees every byte of them.\<close>

lemma sha_message_inject:
  assumes "sha_message m = sha_message m'" "length m < 2 ^ 61" "length m' < 2 ^ 61"
  shows "m = m'"
proof -
  have "drop (length x - 8) x = drop (length y - 8) y" if "x = y" for x y :: bytes using that by simp
  from this [OF assms(1)] have "to_be_bytes (of_nat (8 * length m) :: u64) = to_be_bytes (of_nat (8 * length m') :: u64)"
    by (simp add: sha_message_def)
  then have "of_nat (8 * length m) = (of_nat (8 * length m') :: u64)" by (simp only: be64.enc_inject)
  moreover have "unat (of_nat (8 * length x) :: u64) = 8 * length x" if "length x < 2 ^ 61" for x :: bytes
    by (simp only: unat_of_nat) (use that in simp)
  ultimately have "8 * length m = 8 * length m'" using assms(2,3) by metis
  then have "length m = length m'" by simp
  with assms(1) show ?thesis by (simp add: sha_message_def)
qed

text \<open>The hexadecimal form of a digest identifies it.\<close>

lemma hex_digit_pair:
  fixes b b' :: u8
  assumes "HEX_CHARS ! unat (drop_bit 4 b) = HEX_CHARS ! unat (drop_bit 4 b')" "HEX_CHARS ! unat (b AND 0x0f) = HEX_CHARS ! unat (b' AND 0x0f)"
  shows "b = b'"
proof -
  have d: "distinct HEX_CHARS" "length HEX_CHARS = 16" by (simp_all add: HEX_CHARS_def string_bytes_def)
  have lo: "unat (c AND 0x0f) = unat c mod 16" for c :: u8
  proof -
    have "c AND 0x0f = take_bit 4 c" by (simp add: take_bit_eq_mask mask_eq_exp_minus_1)
    then show ?thesis by (simp add: take_bit_eq_mod unat_mod)
  qed
  have hi: "unat (drop_bit 4 c) = unat c div 16" for c :: u8 by (simp add: drop_bit_eq_div unat_div)
  have "unat c < 256" for c :: u8 using unsigned_less [of c] by simp
  then have "unat c div 16 < 16" for c :: u8 by (simp add: less_mult_imp_div_less)
  with assms d have "unat b div 16 = unat b' div 16" "unat b mod 16 = unat b' mod 16"
    by (simp_all add: lo hi nth_eq_iff_index_eq)
  then show ?thesis by (metis div_mult_mod_eq word_unat_eq_iff)
qed

lemma hex_pairs_inject:
  fixes bs bs' :: bytes
  shows "concat (map (\<lambda>b. [HEX_CHARS ! unat (drop_bit 4 b), HEX_CHARS ! unat (b AND 0x0f)]) bs) =
   concat (map (\<lambda>b. [HEX_CHARS ! unat (drop_bit 4 b), HEX_CHARS ! unat (b AND 0x0f)]) bs') \<Longrightarrow> bs = bs'"
proof (induction bs arbitrary: bs')
  case (Cons b bs)
  then obtain b' bs'' where bs': "bs' = b' # bs''" by (cases bs') auto
  with Cons.prems have "b = b'" by - (rule hex_digit_pair, simp_all)
  with Cons bs' show ?case by simp
next
  case Nil
  then show ?case by (cases bs') auto
qed

lemma hex_encode_32_inject [simp]: "hex_encode_32 w = hex_encode_32 w' \<longleftrightarrow> w = w'"
  unfolding hex_encode_32_def using hex_pairs_inject [of "to_be_bytes w" "to_be_bytes w'"] by (auto simp: hash32.enc_inject)

end
