(* ===== verification/Bridge_Contract.thy ===== *)
theory Bridge_Contract
  imports Sdk Sha256 Hash_Lock
begin

text \<open>
  The bridge contract (\<open>src/contracts/bridge/src/lib.rs\<close>): its storage layout, the encoding of a
  hash time-locked contract (HTLC), and all entry points, on the environment of the SDK. The
  arguments of an entry point are the bytes the host wrote for it, so \<open>args_len\<close> is their number.
  The theorems follow whole histories of calls by anyone: wrapped tokens are backed by mints and an
  HTLC is settled at most once, but the contract's balance is not divided among its HTLCs.
\<close>

section \<open>Helpers\<close>

definition read_u128 :: "mock_env \<Rightarrow> bytes \<Rightarrow> u128" where
  "read_u128 e k = read_word 16 e k"

definition write_u128 :: "bytes \<Rightarrow> u128 \<Rightarrow> mock_env \<Rightarrow> mock_env" where
  "write_u128 k v e = sdk_storage_write e k (to_le_bytes v)"

definition read_bool :: "mock_env \<Rightarrow> bytes \<Rightarrow> bool" where
  "read_bool e k = unwrap_or False (map_option (\<lambda>v. v \<noteq> [] \<and> hd v \<noteq> 0) (sdk_storage_read e k))"

definition write_bool :: "bytes \<Rightarrow> bool \<Rightarrow> mock_env \<Rightarrow> mock_env" where
  "write_bool k b e = sdk_storage_write e k [if b then 1 else 0]"

definition read_address :: "mock_env \<Rightarrow> bytes \<Rightarrow> address" where
  "read_address e k = unwrap_or 0 (Option.bind (sdk_storage_read e k)
     (\<lambda>v. if length v = 20 then Some (from_be_bytes v) else None))"

definition require_owner :: "mock_env \<Rightarrow> unit option" where
  "require_owner e =
     (if sdk_caller e \<noteq> read_address e (string_bytes ''owner'') then sdk_abort ''Only owner can call this function''
      else Some ())"

definition require_not_paused :: "mock_env \<Rightarrow> unit option" where
  "require_not_paused e = (if read_bool e (string_bytes ''paused'') then sdk_abort ''Bridge is paused'' else Some ())"

definition htlc_key :: "bytes \<Rightarrow> bytes" where
  "htlc_key hash_lock_hex = string_bytes ''htlc:'' @ hash_lock_hex"

definition locked_key :: "bytes \<Rightarrow> bytes \<Rightarrow> bytes" where
  "locked_key chain token = string_bytes ''locked:'' @ chain @ string_bytes '':'' @ token"

definition wrapped_balance_key :: "bytes \<Rightarrow> bytes \<Rightarrow> address \<Rightarrow> bytes" where
  "wrapped_balance_key chain token addr =
     string_bytes ''wrapped:'' @ chain @ string_bytes '':'' @ token @ string_bytes '':'' @ to_be_bytes addr"

definition wrapped_supply_key :: "bytes \<Rightarrow> bytes \<Rightarrow> bytes" where
  "wrapped_supply_key chain token = string_bytes ''wrapped_supply:'' @ chain @ string_bytes '':'' @ token"

definition validator_key :: "address \<Rightarrow> bytes" where
  "validator_key addr = string_bytes ''validator:'' @ to_be_bytes addr"

section \<open>The encoding of an HTLC\<close>

record htlc_data =
  hd_sender :: address
  hd_recipient :: address
  hd_amount :: u128
  hd_timelock :: u64
  hd_status :: u8

definition encode_htlc :: "address \<Rightarrow> address \<Rightarrow> u128 \<Rightarrow> u64 \<Rightarrow> u8 \<Rightarrow> bytes" where
  "encode_htlc snd_addr recipient amount timelock status =
     to_be_bytes snd_addr @ to_be_bytes recipient @ to_le_bytes amount @ to_le_bytes timelock @ [status]"

definition decode_htlc :: "bytes \<Rightarrow> htlc_data option" where
  "decode_htlc d =
     (if length d < 65 then None
      else Some \<lparr>hd_sender = from_be_bytes (take 20 d), hd_recipient = from_be_bytes (take 20 (drop 20 d)),
             hd_amount = from_le_bytes (take 16 (drop 40 d)), hd_timelock = from_le_bytes (take 8 (drop 56 d)),
             hd_status = d ! 64\<rparr>)"

section \<open>Entry points\<close>

definition bridge_init :: entry where
  "bridge_init e =
     (let e1 = sdk_storage_write e (string_bytes ''owner'') (to_be_bytes (sdk_caller e));
          e2 = write_bool (string_bytes ''paused'') False e1;
          e3 = write_u64 (string_bytes ''htlc_count'') 0 e2;
          e4 = write_u64 (string_bytes ''validator_count'') 0 e3;
          e5 = write_u64 (string_bytes ''min_signatures'') 2 e4;
          e6 = write_u64 (string_bytes ''fee_bps'') 10 e5 in
      Some (0, sdk_emit_event ''BridgeInitialized'' e6))"

definition create_htlc :: "bytes \<Rightarrow> entry" where
  "create_htlc args e = do {
     require_not_paused e;
     if length args < 60 then Some (FAILED, sdk_emit_event ''HTLCFailed:InvalidArgs'' e)
     else
       let hash_lock = from_be_bytes (take 32 args);
           recipient = from_be_bytes (take 20 (drop 32 args));
           timelock = from_le_bytes (take 8 (drop 52 args));
           caller = sdk_caller e;
           amount = sdk_self_balance e in
       if amount = 0 then Some (FAILED, sdk_emit_event ''HTLCFailed:ZeroAmount'' e)
       else
         let key = htlc_key (hex_encode_32 hash_lock) in
         if sdk_storage_read e key \<noteq> None then Some (FAILED, sdk_emit_event ''HTLCFailed:AlreadyExists'' e)
         else
           let e1 = sdk_storage_write e key (encode_htlc caller recipient (ucast amount) timelock 0);
               count = read_u64 e1 (string_bytes ''htlc_count'');
               e2 = write_u64 (string_bytes ''htlc_count'') (count + 1) e1 in
           Some (0, sdk_emit_event ''HTLCCreated'' e2)
   }"

definition claim_htlc :: "bytes \<Rightarrow> entry" where
  "claim_htlc preimage e =
     (if length preimage < 1 then Some (FAILED, e)
      else
        let key = htlc_key (hex_encode_32 (simple_sha256 preimage)) in
        case sdk_storage_read e key of
          None \<Rightarrow> Some (FAILED, sdk_emit_event ''HTLCFailed:NotFound'' e)
        | Some d \<Rightarrow> (case decode_htlc d of
            None \<Rightarrow> Some (FAILED, e)
          | Some h \<Rightarrow>
              if hd_status h \<noteq> 0 then Some (FAILED, sdk_emit_event ''HTLCFailed:NotActive'' e)
              else if sdk_caller e \<noteq> hd_recipient h then Some (FAILED, sdk_emit_event ''HTLCFailed:NotRecipient'' e)
              else if hd_timelock h \<le> sdk_block_timestamp e then Some (FAILED, sdk_emit_event ''HTLCFailed:Expired'' e)
              else
                let e1 = snd (sdk_transfer e (hd_recipient h) (ucast (hd_amount h)));
                    updated = encode_htlc (hd_sender h) (hd_recipient h) (hd_amount h) (hd_timelock h) 1;
                    e2 = sdk_storage_write e1 key updated in
                Some (0, sdk_emit_event ''HTLCClaimed'' e2)))"

definition refund_htlc :: "bytes \<Rightarrow> entry" where
  "refund_htlc args e =
     (if length args < 32 then Some (FAILED, e)
      else
        let key = htlc_key (hex_encode_32 (from_be_bytes (take 32 args))) in
        case sdk_storage_read e key of
          None \<Rightarrow> Some (FAILED, sdk_emit_event ''HTLCFailed:NotFound'' e)
        | Some d \<Rightarrow> (case decode_htlc d of
            None \<Rightarrow> Some (FAILED, e)
          | Some h \<Rightarrow>
              if hd_status h \<noteq> 0 then Some (FAILED, sdk_emit_event ''HTLCFailed:NotActive'' e)
              else if sdk_caller e \<noteq> hd_sender h then Some (FAILED, sdk_emit_event ''HTLCFailed:NotSender'' e)
              else if sdk_block_timestamp e < hd_timelock h then Some (FAILED, sdk_emit_event ''HTLCFailed:NotExpired'' e)
              else
                let e1 = snd (sdk_transfer e (hd_sender h) (ucast (hd_amount h)));
                    updated = encode_htlc (hd_sender h) (hd_recipient h) (hd_amount h) (hd_timelock h) 2;
                    e2 = sdk_storage_write e1 key updated in
                Some (0, sdk_emit_event ''HTLCRefunded'' e2)))"

text \<open>
  Reading a length prefix; a slice out of range is a panic. \<open>bridge_mint\<close> and \<open>bridge_burn\<close>
  begin by reading a chain and a token the same way, without looking at the length.
\<close>

definition read_len :: "bytes \<Rightarrow> u32 \<Rightarrow> u32 option" where
  "read_len args offset = map_option from_le_bytes (slice args offset (offset + 4))"

definition args_size :: "bytes \<Rightarrow> u32" where
  "args_size args = of_nat (length args)"

definition bridge_lock :: "bytes \<Rightarrow> entry" where
  "bridge_lock args e = do {
     require_not_paused e;
     if length args < 12 then Some (FAILED, sdk_emit_event ''BridgeLockFailed:InvalidArgs'' e)
     else do {
       chain_len \<leftarrow> read_len args 0;
       if args_size args < 4 + chain_len + 4 then Some (FAILED, e)
       else do {
         chain \<leftarrow> slice args 4 (4 + chain_len);
         let offset = 4 + chain_len;
         token_len \<leftarrow> read_len args offset;
         if args_size args < offset + 4 + token_len + 4 then Some (FAILED, e)
         else do {
           token \<leftarrow> slice args (offset + 4) (offset + 4 + token_len);
           let offset2 = offset + 4 + token_len;
           recip_len \<leftarrow> read_len args offset2;
           if args_size args < offset2 + 4 + recip_len then Some (FAILED, e)
           else
             let amount = (ucast (sdk_self_balance e) :: u128) in
             if amount = 0 then Some (FAILED, sdk_emit_event ''BridgeLockFailed:ZeroAmount'' e)
             else
               let fee_bps = ucast (read_u64 e (string_bytes ''fee_bps''));
                   fee = amount * fee_bps div 10000;
                   net_amount = amount - fee;
                   lk = locked_key chain token;
                   e1 = write_u128 lk (read_u128 e lk + net_amount) e in
               Some (0, sdk_emit_event ''BridgeLocked'' e1)
         }
       }
     }
   }"

definition parse_chain_token :: "bytes \<Rightarrow> (bytes \<times> bytes \<times> u32) option" where
  "parse_chain_token args = do {
     chain_len \<leftarrow> read_len args 0;
     chain \<leftarrow> slice args 4 (4 + chain_len);
     let offset = 4 + chain_len;
     token_len \<leftarrow> read_len args offset;
     token \<leftarrow> slice args (offset + 4) (offset + 4 + token_len);
     Some (chain, token, offset + 4 + token_len)
   }"

definition bridge_mint :: "bytes \<Rightarrow> entry" where
  "bridge_mint args e = do {
     require_owner e;
     require_not_paused e;
     if length args < 44 then Some (FAILED, e)
     else do {
       (chain, token, offset2) \<leftarrow> parse_chain_token args;
       recipient \<leftarrow> map_option from_be_bytes (slice args offset2 (offset2 + 20));
       amount \<leftarrow> map_option from_le_bytes (slice args (offset2 + 20) (offset2 + 36));
       let bk = wrapped_balance_key chain token recipient;
       let e1 = write_u128 bk (read_u128 e bk + amount) e;
       let sk = wrapped_supply_key chain token;
       let e2 = write_u128 sk (read_u128 e1 sk + amount) e1;
       Some (0, sdk_emit_event ''WrappedMinted'' e2)
     }
   }"

definition bridge_burn :: "bytes \<Rightarrow> entry" where
  "bridge_burn args e = do {
     require_not_paused e;
     if length args < 28 then Some (FAILED, e)
     else do {
       (chain, token, offset2) \<leftarrow> parse_chain_token args;
       amount \<leftarrow> map_option from_le_bytes (slice args offset2 (offset2 + 16));
       let bk = wrapped_balance_key chain token (sdk_caller e);
       let balance = read_u128 e bk;
       if balance < amount then Some (FAILED, sdk_emit_event ''BurnFailed:InsufficientBalance'' e)
       else
         let e1 = write_u128 bk (balance - amount) e;
             sk = wrapped_supply_key chain token;
             e2 = write_u128 sk (saturating_sub (read_u128 e1 sk) amount) e1 in
         Some (0, sdk_emit_event ''WrappedBurned'' e2)
     }
   }"

definition add_validator :: "bytes \<Rightarrow> entry" where
  "add_validator args e = do {
     require_owner e;
     if length args < 20 then Some (FAILED, e)
     else
       let e1 = write_bool (validator_key (from_be_bytes (take 20 args))) True e;
           count = read_u64 e1 (string_bytes ''validator_count'');
           e2 = write_u64 (string_bytes ''validator_count'') (count + 1) e1 in
       Some (0, sdk_emit_event ''ValidatorAdded'' e2)
   }"

definition remove_validator :: "bytes \<Rightarrow> entry" where
  "remove_validator args e = do {
     require_owner e;
     if length args < 20 then Some (FAILED, e)
     else
       let e1 = write_bool (validator_key (from_be_bytes (take 20 args))) False e;
           count = read_u64 e1 (string_bytes ''validator_count'');
           e2 = (if 0 < count then write_u64 (string_bytes ''validator_count'') (count - 1) e1 else e1) in
       Some (0, sdk_emit_event ''ValidatorRemoved'' e2)
   }"

definition pause :: entry where
  "pause e = do {
     require_owner e;
     Some (0, sdk_emit_event ''BridgePaused'' (write_bool (string_bytes ''paused'') True e))
   }"

definition unpause :: entry where
  "unpause e = do {
     require_owner e;
     Some (0, sdk_emit_event ''BridgeUnpaused'' (write_bool (string_bytes ''paused'') False e))
   }"

definition htlc_count :: entry where
  "htlc_count e = Some (ucast (read_u64 e (string_bytes ''htlc_count'')), e)"

definition validator_count :: entry where
  "validator_count e = Some (ucast (read_u64 e (string_bytes ''validator_count'')), e)"

section \<open>Histories of calls\<close>

text \<open>
  A call comes from an address, in a block with a timestamp, and brings an amount that is added to
  the balance of the contract. A call that panics leaves nothing behind.
\<close>

datatype bridge_call = Init | CreateHtlc bytes | ClaimHtlc bytes | RefundHtlc bytes | BridgeLock bytes
  | BridgeMint bytes | BridgeBurn bytes | AddValidator bytes | RemoveValidator bytes | Pause | Unpause
  | HtlcCount | ValidatorCount

fun bridge_call_run :: "bridge_call \<Rightarrow> entry" where
  "bridge_call_run Init = bridge_init"
| "bridge_call_run (CreateHtlc args) = create_htlc args"
| "bridge_call_run (ClaimHtlc args) = claim_htlc args"
| "bridge_call_run (RefundHtlc args) = refund_htlc args"
| "bridge_call_run (BridgeLock args) = bridge_lock args"
| "bridge_call_run (BridgeMint args) = bridge_mint args"
| "bridge_call_run (BridgeBurn args) = bridge_burn args"
| "bridge_call_run (AddValidator args) = add_validator args"
| "bridge_call_run (RemoveValidator args) = remove_validator args"
| "bridge_call_run Pause = pause"
| "bridge_call_run Unpause = unpause"
| "bridge_call_run HtlcCount = htlc_count"
| "bridge_call_run ValidatorCount = validator_count"

definition message :: "address \<Rightarrow> u64 \<Rightarrow> u64 \<Rightarrow> mock_env \<Rightarrow> mock_env" where
  "message a t v e = mock_set_caller a (mock_set_block_timestamp t (mock_set_balance (me_self_balance e + v) e))"

type_synonym log_entry = "address \<times> u64 \<times> bridge_call \<times> i32"

inductive bridge_history :: "mock_env \<Rightarrow> log_entry list \<Rightarrow> bool" where
  deployed: "me_storage e = [] \<Longrightarrow> bridge_history e []"
| call: "bridge_history e xs \<Longrightarrow> bridge_call_run c (message a t v e) = Some (st, e') \<Longrightarrow> bridge_history e' (xs @ [(a, t, c, st)])"

lemma message_simps [simp]:
  "sdk_storage_read (message a t v e) k = sdk_storage_read e k" "sdk_caller (message a t v e) = a"
  "sdk_block_timestamp (message a t v e) = t" "sdk_self_balance (message a t v e) = me_self_balance e + v"
  "me_transfers (message a t v e) = me_transfers e" "me_self_balance (message a t v e) = me_self_balance e + v"
  by (simp_all add: message_def mock_set_caller_def mock_set_block_timestamp_def mock_set_balance_def sdk_caller_def
      sdk_block_timestamp_def sdk_self_balance_def sdk_storage_read_def)

text \<open>What a write does to the slots.\<close>

lemma storage_after_write:
  "sdk_storage_read (write_u64 k v e) l = (if l = k then Some (to_le_bytes v) else sdk_storage_read e l)"
  "sdk_storage_read (write_u128 k w e) l = (if l = k then Some (to_le_bytes w) else sdk_storage_read e l)"
  "sdk_storage_read (write_bool k b e) l = (if l = k then Some [if b then 1 else 0] else sdk_storage_read e l)"
  "sdk_storage_read (sdk_storage_write e k x) l = (if l = k then Some x else sdk_storage_read e l)"
  by (simp_all add: write_u64_def write_u128_def write_bool_def env.rd_wr)

lemma read_u128_cong: "sdk_storage_read e k = sdk_storage_read e' k \<Longrightarrow> read_u128 e k = read_u128 e' k"
  by (simp add: read_u128_def read_word_def)

lemma read_u128_simps [simp]:
  "read_u128 (write_u128 k v e) l = (if l = k then v else read_u128 e l)"
  "read_u128 (sdk_emit_event d e) l = read_u128 e l" "read_u128 (message a t x e) l = read_u128 e l"
  by (simp_all add: read_u128_def read_word_def storage_after_write le128.dec_enc)

text \<open>The regions of the storage; no entry point writes outside those its name suggests.\<close>

definition region :: "string \<Rightarrow> bytes \<Rightarrow> bool" where
  "region p k \<longleftrightarrow> take (length p) k = string_bytes p"

lemma region_keys [simp]:
  "\<not> region ''wrapped'' (htlc_key h)" "\<not> region ''wrapped'' (locked_key c d)" "\<not> region ''wrapped'' (validator_key a)"
  "\<not> region ''htlc:'' (wrapped_balance_key c d a)" "\<not> region ''htlc:'' (wrapped_supply_key c d)"
  "\<not> region ''htlc:'' (locked_key c d)" "\<not> region ''htlc:'' (validator_key a)"
  "region ''htlc:'' (htlc_key h)" "region ''wrapped'' (wrapped_balance_key c d a)" "region ''wrapped'' (wrapped_supply_key c d)"
  by (simp_all add: region_def string_bytes_def htlc_key_def locked_key_def wrapped_balance_key_def wrapped_supply_key_def validator_key_def)

lemma region_names [simp]:
  "\<not> region ''wrapped'' (string_bytes ''owner'')" "\<not> region ''wrapped'' (string_bytes ''paused'')"
  "\<not> region ''wrapped'' (string_bytes ''htlc_count'')" "\<not> region ''wrapped'' (string_bytes ''validator_count'')"
  "\<not> region ''wrapped'' (string_bytes ''min_signatures'')" "\<not> region ''wrapped'' (string_bytes ''fee_bps'')"
  "\<not> region ''htlc:'' (string_bytes ''owner'')" "\<not> region ''htlc:'' (string_bytes ''paused'')"
  "\<not> region ''htlc:'' (string_bytes ''htlc_count'')" "\<not> region ''htlc:'' (string_bytes ''validator_count'')"
  "\<not> region ''htlc:'' (string_bytes ''min_signatures'')" "\<not> region ''htlc:'' (string_bytes ''fee_bps'')"
  by (simp_all add: region_def string_bytes_def)

lemma region_frame [simp]:
  assumes "region p k" "\<not> region p l"
  shows "sdk_storage_read (write_u64 l v e) k = sdk_storage_read e k"
    "sdk_storage_read (write_u128 l w e) k = sdk_storage_read e k"
    "sdk_storage_read (write_bool l b e) k = sdk_storage_read e k"
    "sdk_storage_read (sdk_storage_write e l x) k = sdk_storage_read e k"
  using assms by (auto simp: storage_after_write)

lemmas entry_defs = bridge_init_def create_htlc_def claim_htlc_def refund_htlc_def bridge_lock_def bridge_mint_def bridge_burn_def
  add_validator_def remove_validator_def pause_def unpause_def htlc_count_def validator_count_def

lemma bridge_frame_wrapped:
  assumes "bridge_call_run c e = Some (st, e')" "region ''wrapped'' k" "\<And>args. c \<noteq> BridgeMint args" "\<And>args. c \<noteq> BridgeBurn args"
  shows "sdk_storage_read e' k = sdk_storage_read e k"
  using assms by (cases c) (force simp: entry_defs Let_def bind_eq_Some_conv split: if_splits option.splits)+

lemma bridge_frame_htlc:
  assumes "bridge_call_run c e = Some (st, e')" "region ''htlc:'' k" "\<And>args. c \<noteq> CreateHtlc args" "\<And>args. c \<noteq> ClaimHtlc args"
    "\<And>args. c \<noteq> RefundHtlc args"
  shows "sdk_storage_read e' k = sdk_storage_read e k"
  using assms by (cases c) (force simp: entry_defs Let_def bind_eq_Some_conv split: if_splits option.splits)+

section \<open>Wrapped tokens\<close>

text \<open>
  A wrapped token is named by its chain and its symbol, joined by a colon; the contract keeps its
  supply and a balance for each holder.
\<close>

definition asset :: "bytes \<Rightarrow> bytes \<Rightarrow> bytes" where
  "asset chain token = chain @ string_bytes '':'' @ token"

definition wrapped_supply :: "mock_env \<Rightarrow> bytes \<Rightarrow> u128" where
  "wrapped_supply e i = read_u128 e (string_bytes ''wrapped_supply:'' @ i)"

definition wrapped_balance :: "mock_env \<Rightarrow> bytes \<Rightarrow> address \<Rightarrow> u128" where
  "wrapped_balance e i a = read_u128 e (string_bytes ''wrapped:'' @ i @ string_bytes '':'' @ to_be_bytes a)"

lemma wrapped_keys:
  "wrapped_supply_key c d = string_bytes ''wrapped_supply:'' @ asset c d"
  "wrapped_balance_key c d a = string_bytes ''wrapped:'' @ asset c d @ string_bytes '':'' @ to_be_bytes a"
  by (simp_all add: wrapped_supply_key_def wrapped_balance_key_def asset_def)

lemma wrapped_key_inject [simp]:
  "string_bytes ''wrapped:'' @ i @ string_bytes '':'' @ to_be_bytes (a :: address) =
   string_bytes ''wrapped:'' @ j @ string_bytes '':'' @ to_be_bytes b \<longleftrightarrow> i = j \<and> a = b"
  "string_bytes ''wrapped_supply:'' @ i = string_bytes ''wrapped_supply:'' @ j \<longleftrightarrow> i = j"
  "string_bytes ''wrapped_supply:'' @ i \<noteq> string_bytes ''wrapped:'' @ u"
  "string_bytes ''wrapped:'' @ u \<noteq> string_bytes ''wrapped_supply:'' @ i"
  by (auto simp: string_bytes_def append_eq_append_conv addr20.enc_width addr20.enc_inject append_assoc [symmetric] simp del: append_assoc)

text \<open>What a mint and a burn are asked to do.\<close>

definition mint_of :: "bytes \<Rightarrow> (bytes \<times> address \<times> u128) option" where
  "mint_of args = do {
     (chain, token, offset2) \<leftarrow> parse_chain_token args;
     recipient \<leftarrow> map_option from_be_bytes (slice args offset2 (offset2 + 20));
     amount \<leftarrow> map_option from_le_bytes (slice args (offset2 + 20) (offset2 + 36));
     Some (asset chain token, recipient, amount)
   }"

definition burn_of :: "bytes \<Rightarrow> (bytes \<times> u128) option" where
  "burn_of args = do {
     (chain, token, offset2) \<leftarrow> parse_chain_token args;
     amount \<leftarrow> map_option from_le_bytes (slice args offset2 (offset2 + 16));
     Some (asset chain token, amount)
   }"

lemma wrapped_after_write [simp]:
  "wrapped_balance (write_u128 (wrapped_balance_key c d a) v e) =
     (wrapped_balance e)(asset c d := (wrapped_balance e (asset c d))(a := v))"
  "wrapped_supply (write_u128 (wrapped_balance_key c d a) v e) = wrapped_supply e"
  "wrapped_supply (write_u128 (wrapped_supply_key c d) v e) = (wrapped_supply e)(asset c d := v)"
  "wrapped_balance (write_u128 (wrapped_supply_key c d) v e) = wrapped_balance e"
  "wrapped_balance (sdk_emit_event ev e) = wrapped_balance e" "wrapped_supply (sdk_emit_event ev e) = wrapped_supply e"
  "wrapped_balance (message b t x e) = wrapped_balance e" "wrapped_supply (message b t x e) = wrapped_supply e"
  by (auto simp: wrapped_balance_def wrapped_supply_def wrapped_keys fun_eq_iff addr20.enc_inject)

lemma wrapped_reads:
  "read_u128 e (wrapped_balance_key c d a) = wrapped_balance e (asset c d) a"
  "read_u128 e (wrapped_supply_key c d) = wrapped_supply e (asset c d)"
  by (simp_all add: wrapped_balance_def wrapped_supply_def wrapped_keys)

lemma bridge_mint_effect:
  assumes "bridge_mint args e = Some (st, e')"
  obtains "st = FAILED" "e' = e"
  | i r v where "mint_of args = Some (i, r, v)" "st = 0"
      "wrapped_balance e' = (wrapped_balance e)(i := (wrapped_balance e i)(r := wrapped_balance e i r + v))"
      "wrapped_supply e' = (wrapped_supply e)(i := wrapped_supply e i + v)"
proof (cases "length args < 44")
  case True
  then show thesis using assms that(1) by (auto simp: bridge_mint_def bind_eq_Some_conv)
next
  case False
  then obtain c d k r v where "parse_chain_token args = Some (c, d, k)" "slice args k (k + 20) = Some r" "slice args (k + 20) (k + 36) = Some v"
      "st = 0" "e' = sdk_emit_event ''WrappedMinted''
        (write_u128 (wrapped_supply_key c d) (wrapped_supply e (asset c d) + from_le_bytes v)
          (write_u128 (wrapped_balance_key c d (from_be_bytes r)) (wrapped_balance e (asset c d) (from_be_bytes r) + from_le_bytes v) e))"
    using assms by (auto simp: bridge_mint_def bind_eq_Some_conv Let_def wrapped_reads)
  then show thesis by (intro that(2) [of "asset c d" "from_be_bytes r" "from_le_bytes v"]) (simp_all add: mint_of_def)
qed

lemma bridge_burn_effect:
  assumes "bridge_burn args e = Some (st, e')"
  obtains "st = FAILED" "wrapped_balance e' = wrapped_balance e" "wrapped_supply e' = wrapped_supply e"
  | i v where "burn_of args = Some (i, v)" "st = 0" "v \<le> wrapped_balance e i (sdk_caller e)"
      "wrapped_balance e' = (wrapped_balance e)(i := (wrapped_balance e i)(sdk_caller e := wrapped_balance e i (sdk_caller e) - v))"
      "wrapped_supply e' = (wrapped_supply e)(i := saturating_sub (wrapped_supply e i) v)"
proof (cases "length args < 28")
  case True
  then show thesis using assms that(1) by (auto simp: bridge_burn_def bind_eq_Some_conv)
next
  case False
  then obtain c d k v where p: "require_not_paused e = Some ()" "parse_chain_token args = Some (c, d, k)" "slice args k (k + 16) = Some v"
    using assms by (auto simp: bridge_burn_def bind_eq_Some_conv)
  show thesis
  proof (cases "wrapped_balance e (asset c d) (sdk_caller e) < from_le_bytes v")
    case True
    then show thesis using False p assms by (intro that(1)) (auto simp: bridge_burn_def Let_def wrapped_reads)
  next
    case enough: False
    then have "st = 0" "e' = sdk_emit_event ''WrappedBurned''
          (write_u128 (wrapped_supply_key c d) (saturating_sub (wrapped_supply e (asset c d)) (from_le_bytes v))
            (write_u128 (wrapped_balance_key c d (sdk_caller e)) (wrapped_balance e (asset c d) (sdk_caller e) - from_le_bytes v) e))"
      using False p assms by (auto simp: bridge_burn_def Let_def wrapped_reads)
    then show thesis using enough p by (intro that(2) [of "asset c d" "from_le_bytes v"]) (auto simp: burn_of_def)
  qed
qed

text \<open>The amounts minted and burned in a history, from the calls that succeeded.\<close>

fun minted :: "bytes \<Rightarrow> log_entry \<Rightarrow> nat" where
  "minted i (a, t, BridgeMint args, st) = (case mint_of args of Some (j, r, v) \<Rightarrow> if st = 0 \<and> j = i then unat v else 0 | None \<Rightarrow> 0)"
| "minted i _ = 0"

fun burned :: "bytes \<Rightarrow> log_entry \<Rightarrow> nat" where
  "burned i (a, t, BridgeBurn args, st) = (case burn_of args of Some (j, v) \<Rightarrow> if st = 0 \<and> j = i then unat v else 0 | None \<Rightarrow> 0)"
| "burned i _ = 0"

definition wrapped_held :: "mock_env \<Rightarrow> bytes \<Rightarrow> nat" where
  "wrapped_held e i = (\<Sum>a\<in>UNIV. unat (wrapped_balance e i a))"

lemma wrapped_held_upd:
  assumes "wrapped_balance e' = (wrapped_balance e)(i := (wrapped_balance e i)(r := w))"
  shows "wrapped_held e' j = (if j = i then wrapped_held e i - unat (wrapped_balance e i r) + unat w else wrapped_held e j)"
    "unat (wrapped_balance e i r) \<le> wrapped_held e i"
proof -
  have split: "wrapped_held x i = unat (wrapped_balance x i r) + (\<Sum>a\<in>UNIV - {r}. unat (wrapped_balance x i a))" for x
    unfolding wrapped_held_def by (subst sum.remove [of _ r]) auto
  have "(\<Sum>a\<in>UNIV - {r}. unat (wrapped_balance e' i a)) = (\<Sum>a\<in>UNIV - {r}. unat (wrapped_balance e i a))"
    using assms by (intro sum.cong) auto
  then show "wrapped_held e' j = (if j = i then wrapped_held e i - unat (wrapped_balance e i r) + unat w else wrapped_held e j)"
    using split [of e] split [of e'] assms by (auto simp: wrapped_held_def)
  show "unat (wrapped_balance e i r) \<le> wrapped_held e i" using split [of e] by simp
qed

lemma wrapped_frame:
  assumes "bridge_call_run c e = Some (st, e')" "\<And>args. c \<noteq> BridgeMint args" "\<And>args. c \<noteq> BridgeBurn args"
  shows "wrapped_balance e' = wrapped_balance e" "wrapped_supply e' = wrapped_supply e"
proof -
  have "sdk_storage_read e' k = sdk_storage_read e k" if "region ''wrapped'' k" for k
    using bridge_frame_wrapped [OF assms(1) that] assms(2, 3) by blast
  then show "wrapped_balance e' = wrapped_balance e" "wrapped_supply e' = wrapped_supply e"
    by (auto simp: wrapped_balance_def wrapped_supply_def fun_eq_iff region_def string_bytes_def intro!: read_u128_cong)
qed

lemma wrapped_invariant:
  assumes "bridge_history e xs" "sum_list (map (minted i) xs) < 2 ^ 128"
  shows "unat (wrapped_supply e i) = wrapped_held e i \<and> wrapped_held e i + sum_list (map (burned i) xs) = sum_list (map (minted i) xs)"
  using assms
proof induction
  case (deployed e)
  then show ?case by (simp add: wrapped_held_def wrapped_supply_def wrapped_balance_def read_u128_def read_word_def sdk_storage_read_def)
next
  case (call e xs c a t v st e')
  have IH: "unat (wrapped_supply e i) = wrapped_held e i" "wrapped_held e i + sum_list (map (burned i) xs) = sum_list (map (minted i) xs)"
    using call by simp_all
  show ?case
  proof (cases "(\<exists>args. c = BridgeMint args) \<or> (\<exists>args. c = BridgeBurn args)")
    case False
    then show ?thesis using wrapped_frame [OF call(2)] IH by (cases c) (simp_all add: wrapped_held_def)
  next
    case True
    then consider (mint) args where "c = BridgeMint args" | (burn) args where "c = BridgeBurn args" by blast
    then show ?thesis
    proof cases
      case mint
      then have "bridge_mint args (message a t v e) = Some (st, e')" using call(2) by simp
      then show ?thesis
      proof (cases rule: bridge_mint_effect)
        case 1
        then show ?thesis using mint IH by (auto simp: wrapped_held_def split: option.split)
      next
        case (2 j r w)
        note upd = wrapped_held_upd [OF 2(3) [unfolded wrapped_after_write]]
        have "unat (wrapped_supply e i + w) = unat (wrapped_supply e i) + unat w" "unat (wrapped_balance e i r + w) = unat (wrapped_balance e i r) + unat w"
          if "j = i" using that call.prems mint 2 IH upd(2) by (simp_all add: unat_word_ariths)
        then show ?thesis using mint 2 IH upd(1) [of i] upd(2) by auto
      qed
    next
      case burn
      then have "bridge_burn args (message a t v e) = Some (st, e')" using call(2) by simp
      then show ?thesis
      proof (cases rule: bridge_burn_effect)
        case 1
        then show ?thesis using burn IH by (auto simp: wrapped_held_def split: option.split)
      next
        case (2 j w)
        note upd = wrapped_held_upd [OF 2(4) [unfolded wrapped_after_write message_simps]]
        have "unat (wrapped_balance e i a - w) = unat (wrapped_balance e i a) - unat w" "unat w \<le> unat (wrapped_balance e i a)"
          if "j = i" using that 2 by (simp_all add: unat_sub word_le_nat_alt)
        then show ?thesis using burn 2 IH upd(1) [of i] upd(2) by auto
      qed
    qed
  qed
qed

text \<open>
  C11 (wrapped tokens are backed). Whatever anyone calls, in any order, the supply the bridge contract
  has on record for a wrapped token is the sum of its balances, and what was minted less what was
  burned, as long as no more than fit into 128 bits are minted in all.
\<close>

theorem wrapped_tokens_backed:
  assumes "bridge_history e xs" "sum_list (map (minted (asset chain token)) xs) < 2 ^ 128"
  shows "unat (read_u128 e (wrapped_supply_key chain token)) = (\<Sum>a\<in>UNIV. unat (read_u128 e (wrapped_balance_key chain token a))) \<and>
    unat (read_u128 e (wrapped_supply_key chain token)) + sum_list (map (burned (asset chain token)) xs) =
      sum_list (map (minted (asset chain token)) xs)"
  using wrapped_invariant [OF assms] by (simp add: wrapped_reads wrapped_held_def)

text \<open>An example history: the owner mints 500 tokens to a holder, who burns 200.\<close>

definition example_asset :: bytes where
  "example_asset = to_le_bytes (3 :: u32) @ string_bytes ''eth'' @ to_le_bytes (3 :: u32) @ string_bytes ''DAI''"

definition example_mint :: bytes where
  "example_mint = example_asset @ to_be_bytes (2 :: address) @ to_le_bytes (500 :: u128)"

definition example_burn :: bytes where
  "example_burn = example_asset @ to_le_bytes (200 :: u128)"

fun bridge_calls :: "(address \<times> u64 \<times> u64 \<times> bridge_call) list \<Rightarrow> mock_env \<times> log_entry list \<Rightarrow> (mock_env \<times> log_entry list) option" where
  "bridge_calls [] s = Some s"
| "bridge_calls ((a, t, v, c) # ms) (e, xs) =
     (case bridge_call_run c (message a t v e) of None \<Rightarrow> None | Some (st, e') \<Rightarrow> bridge_calls ms (e', xs @ [(a, t, c, st)]))"

lemma bridge_calls_history:
  "bridge_history e xs \<Longrightarrow> bridge_calls ms (e, xs) = Some (e', ys) \<Longrightarrow> bridge_history e' ys"
proof (induction ms arbitrary: e xs)
  case (Cons m ms)
  obtain a t v c where m: "m = (a, t, v, c)" by (cases m)
  with Cons.prems obtain st e1 where "bridge_call_run c (message a t v e) = Some (st, e1)" "bridge_calls ms (e1, xs @ [(a, t, c, st)]) = Some (e', ys)"
    by (auto split: option.splits)
  with Cons show ?case by (blast intro: bridge_history.call)
qed simp

lemma example_wrapped:
  "map_option (\<lambda>(e, xs). (read_u128 e (wrapped_supply_key (string_bytes ''eth'') (string_bytes ''DAI'')),
       sum_list (map (minted (asset (string_bytes ''eth'') (string_bytes ''DAI''))) xs)))
     (bridge_calls [(1, 5, 0, Init), (1, 6, 0, BridgeMint example_mint), (2, 7, 0, BridgeBurn example_burn)] (mock_env_default, [])) =
   Some (300, 500)"
  by code_simp

theorem wrapped_tokens_backed_witness:
  "\<exists>e xs. bridge_history e xs \<and> sum_list (map (minted (asset (string_bytes ''eth'') (string_bytes ''DAI''))) xs) = 500 \<and>
     (\<Sum>a\<in>UNIV. unat (read_u128 e (wrapped_balance_key (string_bytes ''eth'') (string_bytes ''DAI'') a))) = 300"
proof -
  obtain e xs where run: "bridge_calls [(1, 5, 0, Init), (1, 6, 0, BridgeMint example_mint), (2, 7, 0, BridgeBurn example_burn)] (mock_env_default, []) = Some (e, xs)"
      "read_u128 e (wrapped_supply_key (string_bytes ''eth'') (string_bytes ''DAI'')) = 300"
      "sum_list (map (minted (asset (string_bytes ''eth'') (string_bytes ''DAI''))) xs) = 500"
    using example_wrapped by auto
  have h: "bridge_history e xs"
    by (rule bridge_calls_history [OF bridge_history.deployed run(1)]) (simp add: mock_env_default_def)
  show ?thesis using wrapped_tokens_backed [OF h, of "string_bytes ''eth''" "string_bytes ''DAI''"] h run by auto
qed

section \<open>Hash time-locked contracts\<close>

lemma decode_encode_htlc [simp]:
  "decode_htlc (encode_htlc s r amt tlock st) = Some \<lparr>hd_sender = s, hd_recipient = r, hd_amount = amt, hd_timelock = tlock, hd_status = st\<rparr>"
  by (simp add: decode_htlc_def encode_htlc_def addr20.enc_width le128.enc_width le64.enc_width addr20.dec_enc le128.dec_enc le64.dec_enc nth_append)

lemma encode_htlc_inject [simp]:
  "encode_htlc s r amt tlock st = encode_htlc s' r' amt' tlock' st' \<longleftrightarrow> s = s' \<and> r = r' \<and> amt = amt' \<and> tlock = tlock' \<and> st = st'"
  by (metis decode_encode_htlc htlc_data.ext_inject option.inject)

definition htlc_slot :: "mock_env \<Rightarrow> 256 word \<Rightarrow> bytes option" where
  "htlc_slot e h = sdk_storage_read e (htlc_key (hex_encode_32 h))"

abbreviation arg_hash :: "bytes \<Rightarrow> 256 word" where "arg_hash args \<equiv> from_be_bytes (take 32 args)"
abbreviation arg_recipient :: "bytes \<Rightarrow> address" where "arg_recipient args \<equiv> from_be_bytes (take 20 (drop 32 args))"
abbreviation arg_timelock :: "bytes \<Rightarrow> u64" where "arg_timelock args \<equiv> from_le_bytes (take 8 (drop 52 args))"

lemma htlc_slot_simps [simp]:
  "htlc_slot (sdk_emit_event d e) h = htlc_slot e h" "htlc_slot (message a t v e) h = htlc_slot e h"
  "htlc_slot (snd (sdk_transfer e to amt)) h = htlc_slot e h"
  "htlc_slot (write_u64 (string_bytes ''htlc_count'') n e) h = htlc_slot e h"
  "htlc_slot (sdk_storage_write e (htlc_key (hex_encode_32 h')) x) h = (if h = h' then Some x else htlc_slot e h)"
  by (auto simp: htlc_slot_def storage_after_write htlc_key_def string_bytes_def)

lemma htlc_slot_frame:
  assumes "bridge_call_run c e = Some (st, e')" "\<And>args. c \<noteq> CreateHtlc args" "\<And>args. c \<noteq> ClaimHtlc args" "\<And>args. c \<noteq> RefundHtlc args"
  shows "htlc_slot e' h = htlc_slot e h"
  using bridge_frame_htlc [OF assms(1) _ assms(2-4), of "htlc_key (hex_encode_32 h)"] by (simp add: htlc_slot_def)

lemma create_htlc_effect:
  assumes "create_htlc args e = Some (st, e')"
  shows "if st = 0
    then htlc_slot e (arg_hash args) = None \<and>
      htlc_slot e' h = (if h = arg_hash args
        then Some (encode_htlc (sdk_caller e) (arg_recipient args) (ucast (me_self_balance e)) (arg_timelock args) 0) else htlc_slot e h)
    else htlc_slot e' h = htlc_slot e h"
  using assms
  by (auto simp: create_htlc_def bind_eq_Some_conv Let_def htlc_slot_def [symmetric] sdk_self_balance_def split: if_splits)

text \<open>A claim or a refund that succeeds finds the contract active and leaves it settled; nothing else is touched.\<close>

lemma claim_htlc_effect:
  assumes "claim_htlc p e = Some (st, e')" "htlc_slot e (simple_sha256 p) = Some (encode_htlc s r amt tlock status)"
  shows "htlc_slot e' h = (if st = 0 \<and> h = simple_sha256 p then Some (encode_htlc s r amt tlock 1) else htlc_slot e h)"
    "st = 0 \<longleftrightarrow> p \<noteq> [] \<and> status = 0 \<and> sdk_caller e = r \<and> sdk_block_timestamp e < tlock"
  using assms by (auto simp: claim_htlc_def Let_def htlc_slot_def [symmetric] Suc_le_eq split: if_splits)

lemma claim_htlc_missing:
  assumes "claim_htlc p e = Some (st, e')" "htlc_slot e (simple_sha256 p) = None"
  shows "htlc_slot e' h = htlc_slot e h" "st \<noteq> 0"
  using assms by (auto simp: claim_htlc_def Let_def htlc_slot_def [symmetric] split: if_splits)

lemma refund_htlc_effect:
  assumes "refund_htlc args e = Some (st, e')" "htlc_slot e (arg_hash args) = Some (encode_htlc s r amt tlock status)"
  shows "htlc_slot e' h = (if st = 0 \<and> h = arg_hash args then Some (encode_htlc s r amt tlock 2) else htlc_slot e h)"
    "st = 0 \<longleftrightarrow> 32 \<le> length args \<and> status = 0 \<and> sdk_caller e = s \<and> tlock \<le> sdk_block_timestamp e"
  using assms by (auto simp: refund_htlc_def Let_def htlc_slot_def [symmetric] split: if_splits)

lemma refund_htlc_missing:
  assumes "refund_htlc args e = Some (st, e')" "htlc_slot e (arg_hash args) = None"
  shows "htlc_slot e' h = htlc_slot e h" "st \<noteq> 0"
  using assms by (auto simp: refund_htlc_def Let_def htlc_slot_def [symmetric] split: if_splits)

lemma settle_htlc_other:
  "claim_htlc p e = Some (st, e') \<Longrightarrow> h \<noteq> simple_sha256 p \<Longrightarrow> htlc_slot e' h = htlc_slot e h"
  "refund_htlc args e = Some (st, e') \<Longrightarrow> h \<noteq> arg_hash args \<Longrightarrow> htlc_slot e' h = htlc_slot e h"
  by (auto simp: claim_htlc_def refund_htlc_def Let_def split: if_splits option.splits)

text \<open>The entries of a history that create and that settle the contract with a hash lock.\<close>

fun creates :: "256 word \<Rightarrow> log_entry \<Rightarrow> bool" where
  "creates h (a, t, CreateHtlc args, st) \<longleftrightarrow> st = 0 \<and> arg_hash args = h"
| "creates h _ \<longleftrightarrow> False"

fun settles :: "256 word \<Rightarrow> log_entry \<Rightarrow> bool" where
  "settles h (a, t, ClaimHtlc p, st) \<longleftrightarrow> st = 0 \<and> simple_sha256 p = h"
| "settles h (a, t, RefundHtlc args, st) \<longleftrightarrow> st = 0 \<and> arg_hash args = h"
| "settles h _ \<longleftrightarrow> False"

fun as_agreed :: "log_entry \<Rightarrow> log_entry \<Rightarrow> bool" where
  "as_agreed (s, t0, CreateHtlc args, st0) (a, t, ClaimHtlc p, st) \<longleftrightarrow> a = arg_recipient args \<and> t < arg_timelock args"
| "as_agreed (s, t0, CreateHtlc args, st0) (a, t, RefundHtlc args', st) \<longleftrightarrow> a = s \<and> arg_timelock args \<le> t"
| "as_agreed _ _ \<longleftrightarrow> False"

definition htlc_story :: "256 word \<Rightarrow> mock_env \<Rightarrow> log_entry list \<Rightarrow> bool" where
  "htlc_story h e xs \<longleftrightarrow>
     htlc_slot e h = None \<and> filter (creates h) xs = [] \<and> filter (settles h) xs = [] \<or>
     (\<exists>s t0 args amt status. filter (creates h) xs = [(s, t0, CreateHtlc args, 0)] \<and>
        htlc_slot e h = Some (encode_htlc s (arg_recipient args) amt (arg_timelock args) status) \<and>
        (status = 0 \<and> filter (settles h) xs = [] \<or>
         status \<noteq> 0 \<and> (\<exists>m. filter (settles h) xs = [m] \<and> as_agreed (s, t0, CreateHtlc args, 0) m)))"

lemma htlc_story_frame:
  "htlc_story h e xs \<Longrightarrow> htlc_slot e' h = htlc_slot e h \<Longrightarrow> \<not> creates h m \<Longrightarrow> \<not> settles h m \<Longrightarrow> htlc_story h e' (xs @ [m])"
  by (auto simp: htlc_story_def)
lemma htlc_story_settle:
  assumes "htlc_story h e xs" "\<not> creates h m" "k \<noteq> 0"
    and "htlc_slot e h = None \<Longrightarrow> \<not> settles h m \<and> htlc_slot e' h = None"
    and "\<And>s t0 args amt status. htlc_slot e h = Some (encode_htlc s (arg_recipient args) amt (arg_timelock args) status) \<Longrightarrow>
      htlc_slot e' h = Some (encode_htlc s (arg_recipient args) amt (arg_timelock args) (if settles h m then k else status)) \<and>
      (settles h m \<longrightarrow> status = 0 \<and> as_agreed (s, t0, CreateHtlc args, 0) m)"
  shows "htlc_story h e' (xs @ [m])"
  using assms(1)[unfolded htlc_story_def]
proof (elim disjE exE conjE)
  fix s t0 args amt status
  assume "htlc_slot e h = Some (encode_htlc s (arg_recipient args) amt (arg_timelock args) status)"
    "filter (creates h) xs = [(s, t0, CreateHtlc args, 0)]" "status = 0" "filter (settles h) xs = []"
  then show ?thesis using assms(2, 3) assms(5) [of s args amt status t0] by (auto simp: htlc_story_def simp del: split_paired_Ex)
next
  fix s t0 args amt status m'
  assume "htlc_slot e h = Some (encode_htlc s (arg_recipient args) amt (arg_timelock args) status)"
    "filter (creates h) xs = [(s, t0, CreateHtlc args, 0)]" "status \<noteq> 0" "filter (settles h) xs = [m']" "as_agreed (s, t0, CreateHtlc args, 0) m'"
  then show ?thesis using assms(2) assms(5) [of s args amt status t0] by (auto simp: htlc_story_def)
qed (use assms(2, 4) in \<open>auto simp: htlc_story_def\<close>)

lemma htlc_story_history:
  assumes "bridge_history e xs"
  shows "htlc_story h e xs"
  using assms
proof induction
  case (deployed e)
  then show ?case by (simp add: htlc_story_def htlc_slot_def sdk_storage_read_def)
next
  case (call e xs c a t v st e')
  let ?e = "message a t v e"
  consider (create) args where "c = CreateHtlc args" | (claim) p where "c = ClaimHtlc p" | (refund) args where "c = RefundHtlc args"
    | (other) "\<And>args. c \<noteq> CreateHtlc args" "\<And>args. c \<noteq> ClaimHtlc args" "\<And>args. c \<noteq> RefundHtlc args" by blast
  then show ?case
  proof cases
    case create
    show ?thesis
    proof (cases "creates h (a, t, c, st)")
      case True
      then show ?thesis using create call create_htlc_effect [of args ?e st e' h] by (auto simp: htlc_story_def)
    next
      case False
      then have "htlc_slot e' h = htlc_slot e h" using create call(2) create_htlc_effect [of args ?e st e' h] by (auto split: if_splits)
      then show ?thesis using create False call.IH by (intro htlc_story_frame) simp_all
    qed
  next
    case claim
    then have c: "claim_htlc p ?e = Some (st, e')" using call(2) by simp
    show ?thesis
    proof (cases "h = simple_sha256 p")
      case True
      then show ?thesis using claim claim_htlc_missing [OF c] claim_htlc_effect [OF c]
        by (intro htlc_story_settle [where k = 1, OF call.IH]) auto
    next
      case False
      then show ?thesis using claim settle_htlc_other(1) [OF c] by (intro htlc_story_frame [OF call.IH]) auto
    qed
  next
    case refund
    then have c: "refund_htlc args ?e = Some (st, e')" using call(2) by simp
    show ?thesis
    proof (cases "h = arg_hash args")
      case True
      then show ?thesis using refund refund_htlc_missing [OF c] refund_htlc_effect [OF c]
        by (intro htlc_story_settle [where k = 2, OF call.IH]) auto
    next
      case False
      then show ?thesis using refund settle_htlc_other(2) [OF c] by (intro htlc_story_frame [OF call.IH]) auto
    qed
  next
    case other
    then have "\<not> creates h (a, t, c, st)" "\<not> settles h (a, t, c, st)" by (cases c; simp)+
    moreover have "htlc_slot e' h = htlc_slot e h" using htlc_slot_frame [OF call(2) other, of h] by simp
    ultimately show ?thesis by (intro htlc_story_frame [OF call.IH])
  qed
qed

lemma claim_htlc_returns: "\<exists>st e'. claim_htlc p e = Some (st, e')"
  by (auto simp: claim_htlc_def Let_def split: option.splits)

lemma refund_htlc_returns: "\<exists>st e'. refund_htlc args e = Some (st, e')"
  by (auto simp: refund_htlc_def Let_def split: option.splits)

text \<open>
  C12 (an HTLC of the bridge contract is settled once, as agreed). In any history a hash lock is used by
  at most one HTLC, and that is settled at most once: claimed by its recipient before the timelock,
  against a preimage, or refunded to its sender from the timelock on. Until it is settled, the
  recipient who knows a preimage can claim it before the timelock, and the sender can have it
  refunded from then on.
\<close>

theorem contract_htlc_settled:
  assumes "bridge_history e xs"
  shows "filter (creates h) xs = [] \<and> filter (settles h) xs = [] \<or>
    (\<exists>s t0 args. filter (creates h) xs = [(s, t0, CreateHtlc args, 0)] \<and>
      ((\<exists>m. filter (settles h) xs = [m] \<and> as_agreed (s, t0, CreateHtlc args, 0) m) \<or>
       filter (settles h) xs = [] \<and>
       (\<forall>p t v. p \<noteq> [] \<and> simple_sha256 p = h \<and> t < arg_timelock args \<longrightarrow>
          (\<exists>e'. claim_htlc p (message (arg_recipient args) t v e) = Some (0, e'))) \<and>
       (\<forall>args' t v. 32 \<le> length args' \<and> arg_hash args' = h \<and> arg_timelock args \<le> t \<longrightarrow>
          (\<exists>e'. refund_htlc args' (message s t v e) = Some (0, e')))))"
  using htlc_story_history [OF assms, of h, unfolded htlc_story_def]
proof (elim disjE exE conjE)
  fix s t0 args amt status
  assume created: "filter (creates h) xs = [(s, t0, CreateHtlc args, 0)]" "filter (settles h) xs = []"
    and slot: "htlc_slot e h = Some (encode_htlc s (arg_recipient args) amt (arg_timelock args) status)" "status = 0"
  have "\<exists>e'. claim_htlc p (message (arg_recipient args) t v e) = Some (0, e')"
    if "p \<noteq> []" "simple_sha256 p = h" "t < arg_timelock args" for p t v
    using claim_htlc_returns [of p "message (arg_recipient args) t v e"] claim_htlc_effect(2) [of p "message (arg_recipient args) t v e"] that slot by auto
  moreover have "\<exists>e'. refund_htlc args' (message s t v e) = Some (0, e')"
    if "32 \<le> length args'" "arg_hash args' = h" "arg_timelock args \<le> t" for args' t v
    using refund_htlc_returns [of args' "message s t v e"] refund_htlc_effect(2) [of args' "message s t v e"] that slot by auto
  ultimately show ?thesis using created by (intro disjI2 exI [of _ s] exI [of _ t0] exI [of _ args]) auto
qed auto

text \<open>An example: an HTLC over 1000 tokens with hash lock 7, and its refund after the timelock.\<close>

definition example_create :: "256 word \<Rightarrow> bytes" where
  "example_create h = to_be_bytes h @ to_be_bytes (4 :: address) @ to_le_bytes (100 :: u64)"

lemma example_htlc:
  "map_option (\<lambda>(e, xs). (length (filter (creates 7) xs), length (filter (settles 7) xs), me_transfers e))
     (bridge_calls [(1, 5, 0, Init), (2, 6, 1000, CreateHtlc (example_create 7)), (2, 100, 0, RefundHtlc (to_be_bytes (7 :: 256 word)))]
        (mock_env_default, [])) = Some (1, 1, [(2, 1000)])"
  by code_simp

theorem contract_htlc_settled_witness:
  "\<exists>e xs c m. bridge_history e xs \<and> filter (creates 7) xs = [c] \<and> filter (settles 7) xs = [m] \<and> as_agreed c m"
proof -
  obtain e xs where run: "bridge_calls [(1, 5, 0, Init), (2, 6, 1000, CreateHtlc (example_create 7)), (2, 100, 0, RefundHtlc (to_be_bytes (7 :: 256 word)))]
        (mock_env_default, []) = Some (e, xs)" "length (filter (creates 7) xs) = 1" "length (filter (settles 7) xs) = 1"
    using example_htlc by auto
  have h: "bridge_history e xs"
    by (rule bridge_calls_history [OF bridge_history.deployed run(1)]) (simp add: mock_env_default_def)
  show ?thesis using contract_htlc_settled [OF h, of 7] h run(2, 3) by (elim disjE exE conjE) (simp, blast, simp)
qed

section \<open>What is not protected\<close>

lemma refund_htlc_pays:
  assumes "htlc_slot e h = Some (encode_htlc (sdk_caller e) r amt tlock 0)" "tlock \<le> sdk_block_timestamp e" "ucast amt \<le> me_self_balance e"
  shows "\<exists>e'. refund_htlc (to_be_bytes h) e = Some (0, e') \<and> me_transfers e' = me_transfers e @ [(sdk_caller e, ucast amt)] \<and>
    me_self_balance e' = me_self_balance e - ucast amt"
proof -
  have hash: "arg_hash (to_be_bytes h) = h" "length (to_be_bytes h) = 32" by (simp_all add: hash32.enc_width hash32.dec_enc)
  have read: "sdk_storage_read e (htlc_key (hex_encode_32 h)) = Some (encode_htlc (sdk_caller e) r amt tlock 0)"
    using assms(1) by (simp add: htlc_slot_def)
  show ?thesis using assms(2, 3) by (simp add: refund_htlc_def hash hash32.dec_enc read Let_def sdk_transfer_def)
qed

text \<open>
  C35 (the balance of the bridge contract is not divided). An HTLC is created over the whole balance of
  the contract, not over what was sent with the call, and its timelock may lie in the past. So
  anyone can create one without paying anything and have everything the contract holds refunded to
  them at once, the amounts of all other HTLCs included.
\<close>

theorem anyone_drains_contract:
  fixes r a :: address and tlock :: u64
  assumes "\<not> read_bool e (string_bytes ''paused'')" "me_self_balance e \<noteq> 0" "htlc_slot e h = None" "tlock \<le> t"
  shows "\<exists>e1 e2. create_htlc (to_be_bytes h @ to_be_bytes r @ to_le_bytes tlock) (message a t 0 e) = Some (0, e1) \<and>
    refund_htlc (to_be_bytes h) (message a t 0 e1) = Some (0, e2) \<and>
    me_transfers e2 = me_transfers e @ [(a, me_self_balance e)] \<and> me_self_balance e2 = 0"
proof -
  let ?args = "to_be_bytes h @ to_be_bytes (r :: address) @ to_le_bytes (tlock :: u64)" and ?e = "message a t 0 e"
  let ?e1 = "sdk_emit_event ''HTLCCreated'' (write_u64 (string_bytes ''htlc_count'') (read_u64 ?e (string_bytes ''htlc_count'') + 1)
      (sdk_storage_write ?e (htlc_key (hex_encode_32 h)) (encode_htlc a r (ucast (me_self_balance e)) tlock 0)))"
  have args: "length ?args = 60" "arg_hash ?args = h" "arg_recipient ?args = r" "arg_timelock ?args = tlock"
    by (simp_all add: hash32.enc_width addr20.enc_width le64.enc_width hash32.dec_enc addr20.dec_enc le64.dec_enc)
  have free: "read_bool ?e (string_bytes ''paused'') = False" "sdk_storage_read ?e (htlc_key (hex_encode_32 h)) = None"
    using assms by (simp_all add: read_bool_def htlc_slot_def)
  have k: "string_bytes ''htlc_count'' \<noteq> htlc_key x" for x by (simp add: htlc_key_def string_bytes_def)
  have create: "create_htlc ?args ?e = Some (0, ?e1)"
    using assms args free k by (simp add: create_htlc_def require_not_paused_def Let_def)
  have slot: "htlc_slot (message a t 0 ?e1) h = Some (encode_htlc a r (ucast (me_self_balance e)) tlock 0)" by simp
  have bal: "me_self_balance ?e1 = me_self_balance e" "me_transfers ?e1 = me_transfers e"
    by (simp_all add: write_u64_def)
  have widen: "ucast (ucast x :: u128) = x" for x :: u64 by (simp add: ucast_up_ucast_id is_up)
  obtain e2 where "refund_htlc (to_be_bytes h) (message a t 0 ?e1) = Some (0, e2)" "me_transfers e2 = me_transfers e @ [(a, me_self_balance e)]" "me_self_balance e2 = 0"
    using refund_htlc_pays [of "message a t 0 ?e1" h r "ucast (me_self_balance e)" tlock] slot assms(4) bal by (auto simp: widen)
  with create show ?thesis by blast
qed

lemma example_victim:
  "map_option (\<lambda>(e, xs). (me_self_balance e, read_bool e (string_bytes ''paused''), htlc_slot e 8, filter (creates 7) xs = []))
     (bridge_calls [(1, 5, 0, Init), (2, 6, 1000, CreateHtlc (example_create 7))] (mock_env_default, [])) = Some (1000, False, None, False)"
  by code_simp

theorem anyone_drains_contract_witness:
  "\<exists>e xs e1 e2. bridge_history e xs \<and> filter (creates 7) xs \<noteq> [] \<and>
     create_htlc (to_be_bytes (8 :: 256 word) @ to_be_bytes (3 :: address) @ to_le_bytes (0 :: u64)) (message 3 6 0 e) = Some (0, e1) \<and>
     refund_htlc (to_be_bytes (8 :: 256 word)) (message 3 6 0 e1) = Some (0, e2) \<and> (3, 1000) \<in> set (me_transfers e2) \<and> me_self_balance e2 = 0"
proof -
  obtain e xs where run: "bridge_calls [(1, 5, 0, Init), (2, 6, 1000, CreateHtlc (example_create 7))] (mock_env_default, []) = Some (e, xs)"
      "me_self_balance e = 1000" "\<not> read_bool e (string_bytes ''paused'')" "htlc_slot e 8 = None" "filter (creates 7) xs \<noteq> []"
    using example_victim by auto
  have h: "bridge_history e xs"
    by (rule bridge_calls_history [OF bridge_history.deployed run(1)]) (simp add: mock_env_default_def)
  show ?thesis using anyone_drains_contract [OF run(3) _ run(4), of 0 6 3 3] h run(2, 5) by fastforce
qed

text \<open>Anyone can become the owner of the contract by initialising it again, and then mint.\<close>

lemma bridge_init_again:
  assumes "bridge_init (message a t v e) = Some (st, e')"
  shows "require_owner (message a t' v' e') = Some ()" "require_not_paused (message a t' v' e') = Some ()"
  using assms
  by (auto simp: bridge_init_def Let_def require_owner_def require_not_paused_def read_address_def read_bool_def storage_after_write
      string_bytes_def addr20.enc_width addr20.dec_enc)

text \<open>A claim counts as settled even when the contract cannot pay.\<close>

lemma unpaid_claim_settles:
  assumes "claim_htlc p e = Some (0, e')" "htlc_slot e (simple_sha256 p) = Some (encode_htlc s r amt tlock 0)" "me_self_balance e < ucast amt"
  shows "me_transfers e' = me_transfers e" "htlc_slot e' (simple_sha256 p) = Some (encode_htlc s r amt tlock 1)"
  using assms by (auto simp: claim_htlc_def Let_def htlc_slot_def [symmetric] sdk_transfer_def split: if_splits)

section \<open>The contract as a hash time lock\<close>

text \<open>A hash lock stands for its HTLC; a claim names it by the preimage.\<close>

definition contract_lock :: "mock_env \<Rightarrow> 256 word \<Rightarrow> hash_time_lock option" where
  "contract_lock e h = (case Option.bind (htlc_slot e h) decode_htlc of
     None \<Rightarrow> None
   | Some d \<Rightarrow> if hd_status d \<noteq> 0 then None
       else Some \<lparr>lk_hash = h, lk_giver = hd_sender d, lk_taker = hd_recipient d, lk_until = hd_timelock d\<rparr>)"

definition contract_claim :: "u64 \<Rightarrow> address \<Rightarrow> 256 word \<Rightarrow> bytes \<Rightarrow> mock_env \<Rightarrow> mock_env option" where
  "contract_claim now a h p e = (case claim_htlc p (message a now 0 e) of
     Some (st, e') \<Rightarrow> if st = 0 \<and> simple_sha256 p = h then Some e' else None | None \<Rightarrow> None)"

definition contract_refund :: "u64 \<Rightarrow> address \<Rightarrow> 256 word \<Rightarrow> mock_env \<Rightarrow> mock_env option" where
  "contract_refund now a h e = (case refund_htlc (to_be_bytes h) (message a now 0 e) of
     Some (st, e') \<Rightarrow> if st = 0 then Some e' else None | None \<Rightarrow> None)"

lemma contract_lockD:
  assumes "contract_lock e h = Some l"
  obtains d x where "htlc_slot e h = Some d" "decode_htlc d = Some x" "hd_status x = 0"
    "l = \<lparr>lk_hash = h, lk_giver = hd_sender x, lk_taker = hd_recipient x, lk_until = hd_timelock x\<rparr>"
  using assms by (auto simp: contract_lock_def split: option.splits if_splits Option.bind_splits)

interpretation contract: timed_lock simple_sha256 contract_lock contract_claim contract_refund
proof
  fix e h l now a and p :: bytes
  assume l: "contract_lock e h = Some l" and p: "p \<noteq> []"
  obtain d x where x: "htlc_slot e h = Some d" "decode_htlc d = Some x" "hd_status x = 0"
    "l = \<lparr>lk_hash = h, lk_giver = hd_sender x, lk_taker = hd_recipient x, lk_until = hd_timelock x\<rparr>"
    by (rule contract_lockD [OF l])
  show "contract_claim now a h p e \<noteq> None \<longleftrightarrow> a = lk_taker l \<and> now < lk_until l \<and> simple_sha256 p = lk_hash l"
  proof (cases "simple_sha256 p = h")
    case True
    then show ?thesis using x p by (auto simp: contract_claim_def claim_htlc_def Let_def not_le htlc_slot_def [symmetric] Suc_le_eq)
  next
    case False
    then show ?thesis using x by (simp add: contract_claim_def split: option.split prod.split)
  qed
next
  fix e h l now a
  assume "contract_lock e h = Some l"
  then show "contract_refund now a h e \<noteq> None \<longleftrightarrow> a = lk_giver l \<and> lk_until l \<le> now"
    by (elim contract_lockD) (auto simp: contract_refund_def refund_htlc_def Let_def not_less hash32.dec_enc htlc_slot_def [symmetric])
next
  fix e h p now a e'
  assume claim: "contract_claim now a h p e = Some e'"
  then have "h = simple_sha256 p" by (simp add: contract_claim_def split: option.splits if_splits prod.splits)
  with claim show "contract_lock e h \<noteq> None \<and> contract_lock e' = (contract_lock e)(h := None)"
    by (cases "htlc_slot e h"; cases "Option.bind (htlc_slot e h) decode_htlc")
      (auto simp: contract_lock_def contract_claim_def claim_htlc_def Let_def fun_eq_iff htlc_slot_def [symmetric] split: if_splits)
next
  fix e h now a e'
  assume "contract_refund now a h e = Some e'"
  then show "contract_lock e h \<noteq> None \<and> contract_lock e' = (contract_lock e)(h := None)"
    by (cases "htlc_slot e h"; cases "Option.bind (htlc_slot e h) decode_htlc")
      (auto simp: contract_lock_def contract_refund_def refund_htlc_def Let_def fun_eq_iff hash32.dec_enc htlc_slot_def [symmetric] split: if_splits)
qed

end
