(* ===== verification/Keystore.thy ===== *)
theory Keystore
  imports Crypto
begin

text \<open>
  Encrypted key files (\<open>crates/crypto/src/keystore.rs\<close>) and mnemonic phrases
  (\<open>crates/crypto/src/mnemonic.rs\<close>). The cipher, the key derivation functions, JSON and BIP39 are
  libraries and appear as the parameter \<open>K\<close>; random bytes are arguments. \<open>None\<close> is a panic, which
  \<open>Nonce::from_slice\<close> gives on a slice of the wrong length. A 32-byte key is always accepted by
  the cipher.

  Shown: what is encrypted with a password is decrypted with it, in memory and through a file, and a
  key file whose nonce does not have 12 bytes makes \<open>decrypt\<close> panic.
\<close>

record kdf_params =
  kdf_algorithm :: string
  kdf_log_n :: u8
  kdf_r :: u32
  kdf_p :: u32
  kdf_salt :: bytes

record keystore_crypto =
  kc_cipher :: string
  kc_ciphertext :: bytes
  kc_nonce :: bytes
  kc_kdf :: kdf_params

record encrypted_keystore =
  ek_version :: u32
  ek_crypto :: keystore_crypto

text \<open>The libraries: \<open>scrypt\<close>, \<open>aes_gcm\<close>, \<open>serde_json\<close>, \<open>bip39\<close> and \<open>hkdf\<close>.\<close>

record ('v, 'w) keystore_prims =
  scrypt_params :: "u8 \<Rightarrow> u32 \<Rightarrow> u32 \<Rightarrow> string + unit"
  scrypt :: "bytes \<Rightarrow> bytes \<Rightarrow> u8 \<Rightarrow> u32 \<Rightarrow> u32 \<Rightarrow> string + 256 word"
  aes_encrypt :: "256 word \<Rightarrow> bytes \<Rightarrow> bytes \<Rightarrow> string + bytes"
  aes_decrypt :: "256 word \<Rightarrow> bytes \<Rightarrow> bytes \<Rightarrow> bytes option"
  json_of_keystore :: "encrypted_keystore \<Rightarrow> string + bytes"
  keystore_of_json :: "bytes \<Rightarrow> string + encrypted_keystore"
  json_value :: "bytes \<Rightarrow> string + 'v"
  json_bytes :: "'v \<Rightarrow> string + bytes"
  bip39_from_entropy :: "bytes \<Rightarrow> string + 'w"
  bip39_parse :: "string \<Rightarrow> string + 'w"
  bip39_to_string :: "'w \<Rightarrow> string"
  bip39_to_seed :: "'w \<Rightarrow> string \<Rightarrow> 512 word"
  hkdf_expand :: "bytes \<Rightarrow> bytes \<Rightarrow> bytes \<Rightarrow> string + 256 word"

text \<open>
  Documented behaviour: the cipher decrypts what it encrypted under the same key and nonce; JSON
  text is read back as what was written, also by way of a generic JSON value; a phrase is parsed
  back to the mnemonic it was printed from.
\<close>

definition aead_correct :: "('v, 'w, 'a) keystore_prims_scheme \<Rightarrow> bool" where
  "aead_correct K \<longleftrightarrow> (\<forall>k n m c. aes_encrypt K k n m = Ok c \<longrightarrow> aes_decrypt K k n c = Some m)"

definition json_correct :: "('v, 'w, 'a) keystore_prims_scheme \<Rightarrow> bool" where
  "json_correct K \<longleftrightarrow> (\<forall>ks bs. json_of_keystore K ks = Ok bs \<longrightarrow> keystore_of_json K bs = Ok ks \<and>
     (\<exists>v bs'. json_value K bs = Ok v \<and> json_bytes K v = Ok bs' \<and> keystore_of_json K bs' = Ok ks))"

definition bip39_correct :: "('v, 'w, 'a) keystore_prims_scheme \<Rightarrow> bool" where
  "bip39_correct K \<longleftrightarrow> (\<forall>m. bip39_parse K (bip39_to_string K m) = Ok m)"

text \<open>The operator \<open>?\<close> where the callee may panic.\<close>

definition and_then_o :: "('e + 'a) option \<Rightarrow> ('a \<Rightarrow> ('e + 'b) option) \<Rightarrow> ('e + 'b) option" where
  "and_then_o r f = (case r of None \<Rightarrow> None | Some (Err e) \<Rightarrow> Some (Err e) | Some (Ok a) \<Rightarrow> f a)"

lemma and_then_o_simps [simp]:
  "and_then_o None f = None" "and_then_o (Some (Err e)) f = Some (Err e)" "and_then_o (Some (Ok a)) f = f a"
  by (simp_all add: and_then_o_def)

lemma and_then_o_Ok: "and_then_o r f = Some (Ok b) \<longleftrightarrow> (\<exists>a. r = Some (Ok a) \<and> f a = Some (Ok b))"
  by (auto simp: and_then_o_def split: option.splits sum.splits)

section \<open>keystore.rs\<close>

definition keystore_encrypt :: "('v, 'w, 'a) keystore_prims_scheme \<Rightarrow> 256 word \<Rightarrow> 96 word \<Rightarrow> key_pair \<Rightarrow> string \<Rightarrow>
    crypto_error + bytes" where
  "keystore_encrypt K salt nonce_bytes kp password =
     and_then (map_err Encryption (scrypt_params K 14 8 1)) (\<lambda>_.
     and_then (map_err Encryption (scrypt K (string_bytes password) (to_be_bytes salt) 14 8 1)) (\<lambda>derived_key.
     and_then (map_err Encryption (aes_encrypt K derived_key (to_be_bytes nonce_bytes) (to_be_bytes (secret_bytes kp)))) (\<lambda>ciphertext.
     map_err Serialization (json_of_keystore K
       \<lparr>ek_version = 1, ek_crypto =
          \<lparr>kc_cipher = ''aes-256-gcm'', kc_ciphertext = ciphertext, kc_nonce = to_be_bytes nonce_bytes,
           kc_kdf = \<lparr>kdf_algorithm = ''scrypt'', kdf_log_n = 14, kdf_r = 8, kdf_p = 1, kdf_salt = to_be_bytes salt\<rparr>\<rparr>\<rparr>))))"

definition keystore_open :: "('v, 'w, 'a) keystore_prims_scheme \<Rightarrow> keystore_crypto \<Rightarrow> 256 word \<Rightarrow> (crypto_error + key_pair) option" where
  "keystore_open K c derived_key =
     (if length (kc_nonce c) \<noteq> 12 then None
      else Some (and_then (ok_or (Decryption ''wrong password or corrupted keystore'')
              (aes_decrypt K derived_key (kc_nonce c) (kc_ciphertext c))) (\<lambda>secret.
            if length secret \<noteq> 32 then Err (Decryption ''invalid decrypted key length'')
            else keypair_from_bytes (from_be_bytes secret))))"

definition keystore_decrypt :: "('v, 'w, 'a) keystore_prims_scheme \<Rightarrow> bytes \<Rightarrow> string \<Rightarrow> (crypto_error + key_pair) option" where
  "keystore_decrypt K encrypted password =
     and_then_o (Some (map_err Decryption (keystore_of_json K encrypted))) (\<lambda>ks.
       if ek_version ks \<noteq> 1
       then Some (Err (Decryption (''unsupported keystore version: '' @ show_word (ek_version ks))))
       else
         let c = ek_crypto ks; kdf = kc_kdf c in
         and_then_o (Some (map_err Decryption (scrypt_params K (kdf_log_n kdf) (kdf_r kdf) (kdf_p kdf)))) (\<lambda>_.
         and_then_o (Some (map_err Decryption (scrypt K (string_bytes password) (kdf_salt kdf) (kdf_log_n kdf) (kdf_r kdf) (kdf_p kdf))))
           (keystore_open K c)))"

text \<open>The file system as far as it is used: paths and contents, and the error an access may give.\<close>

definition save_to_file :: "('v, 'w, 'a) keystore_prims_scheme \<Rightarrow> 256 word \<Rightarrow> 96 word \<Rightarrow> string option \<Rightarrow> (string, bytes) hmap \<Rightarrow>
    key_pair \<Rightarrow> string \<Rightarrow> string \<Rightarrow> crypto_error + (string, bytes) hmap" where
  "save_to_file K salt nonce_bytes io fs kp password path =
     and_then (keystore_encrypt K salt nonce_bytes kp password) (\<lambda>encrypted.
     case io of Some e \<Rightarrow> Err (KeystoreError e) | None \<Rightarrow> Ok (hm_put path encrypted fs))"

definition load_from_file :: "('v, 'w, 'a) keystore_prims_scheme \<Rightarrow> string \<Rightarrow> (string, bytes) hmap \<Rightarrow> string \<Rightarrow> string \<Rightarrow>
    (crypto_error + key_pair) option" where
  "load_from_file K io fs path password =
     (case hm_get fs path of
        None \<Rightarrow> Some (Err (KeystoreError io))
      | Some d \<Rightarrow> keystore_decrypt K d password)"

section \<open>mnemonic.rs\<close>

definition mnemonic_generate :: "('v, 'w, 'a) keystore_prims_scheme \<Rightarrow> (nat \<Rightarrow> bytes) \<Rightarrow> nat \<Rightarrow> crypto_error + 'w" where
  "mnemonic_generate K random word_count =
     and_then (if word_count = 12 then Ok 16 else if word_count = 24 then Ok 32
               else Err (MnemonicError ''word count must be 12 or 24'')) (\<lambda>entropy_bytes.
     map_err MnemonicError (bip39_from_entropy K (random entropy_bytes)))"

definition mnemonic_from_phrase :: "('v, 'w, 'a) keystore_prims_scheme \<Rightarrow> string \<Rightarrow> crypto_error + 'w" where
  "mnemonic_from_phrase K phrase = map_err MnemonicError (bip39_parse K phrase)"

definition phrase :: "('v, 'w, 'a) keystore_prims_scheme \<Rightarrow> 'w \<Rightarrow> string" where
  "phrase K m = bip39_to_string K m"

definition to_seed :: "('v, 'w, 'a) keystore_prims_scheme \<Rightarrow> 'w \<Rightarrow> string \<Rightarrow> 512 word" where
  "to_seed K m password = bip39_to_seed K m password"

definition to_keypair :: "('v, 'w, 'a) keystore_prims_scheme \<Rightarrow> 'w \<Rightarrow> string \<Rightarrow> crypto_error + key_pair" where
  "to_keypair K m password =
     and_then (map_err KeyDerivation (hkdf_expand K (string_bytes ''rustchain-ed25519'') (to_be_bytes (to_seed K m password))
        (string_bytes ''ed25519 key derivation''))) keypair_from_bytes"

section \<open>What comes back\<close>

lemma nonce_length [simp]: "length (to_be_bytes (n :: 96 word)) = 12"
  by (simp add: to_be_bytes_def to_le_bytes_def)

lemma keystore_encrypted:
  assumes "aead_correct K" "keystore_encrypt K salt n kp pw = Ok bs" "keystore_of_json K bs' = keystore_of_json K bs"
    "json_correct K"
  shows "keystore_decrypt K bs' pw = Some (Ok kp)"
proof -
  obtain key c where enc: "scrypt_params K 14 8 1 = Ok ()" "scrypt K (string_bytes pw) (to_be_bytes salt) 14 8 1 = Ok key"
      "aes_encrypt K key (to_be_bytes n) (to_be_bytes (signing_key kp)) = Ok c"
      "json_of_keystore K \<lparr>ek_version = 1, ek_crypto =
          \<lparr>kc_cipher = ''aes-256-gcm'', kc_ciphertext = c, kc_nonce = to_be_bytes n,
           kc_kdf = \<lparr>kdf_algorithm = ''scrypt'', kdf_log_n = 14, kdf_r = 8, kdf_p = 1, kdf_salt = to_be_bytes salt\<rparr>\<rparr>\<rparr> = Ok bs"
    using assms(2) by (auto simp: keystore_encrypt_def result_simps secret_bytes_def)
  then have "aes_decrypt K key (to_be_bytes n) c = Some (to_be_bytes (signing_key kp))" using assms(1) by (auto simp: aead_correct_def)
  moreover have "keystore_of_json K bs' = Ok \<lparr>ek_version = 1, ek_crypto =
          \<lparr>kc_cipher = ''aes-256-gcm'', kc_ciphertext = c, kc_nonce = to_be_bytes n,
           kc_kdf = \<lparr>kdf_algorithm = ''scrypt'', kdf_log_n = 14, kdf_r = 8, kdf_p = 1, kdf_salt = to_be_bytes salt\<rparr>\<rparr>\<rparr>"
    using enc(4) assms(3, 4) by (auto simp: json_correct_def)
  ultimately show ?thesis using enc
    by (simp add: keystore_decrypt_def keystore_open_def keypair_from_bytes_def Let_def hash32.enc_width hash32.dec_enc)
qed

text \<open>
  C26 (key files). A key pair saved to a file under a password, encrypted, is decrypted from it with the
  same password, whatever other file is saved under another name later, and so is that one.
\<close>

theorem keystore_roundtrip:
  assumes "aead_correct K" "json_correct K" "save_to_file K salt n io fs kp pw path = Ok fs'"
    and "path' \<noteq> path" "save_to_file K salt' n' io' fs' kp' pw' path' = Ok fs''"
  shows "load_from_file K e fs'' path pw = Some (Ok kp) \<and> load_from_file K e fs'' path' pw' = Some (Ok kp')"
proof -
  obtain bs bs' where enc: "keystore_encrypt K salt n kp pw = Ok bs" "fs' = hm_put path bs fs"
      "keystore_encrypt K salt' n' kp' pw' = Ok bs'" "fs'' = hm_put path' bs' fs'"
    using assms(3, 5) by (auto simp: save_to_file_def result_simps split: option.splits)
  show ?thesis using assms(4) enc keystore_encrypted [OF assms(1) enc(1) refl assms(2)] keystore_encrypted [OF assms(1) enc(3) refl assms(2)]
    by (simp add: load_from_file_def)
qed

text \<open>A key file that is well formed but for the length of its nonce makes \<open>decrypt\<close> panic.\<close>

lemma keystore_decrypt_panics:
  assumes "keystore_of_json K bs = Ok ks" "ek_version ks = 1"
    and "scrypt_params K (kdf_log_n (kc_kdf (ek_crypto ks))) (kdf_r (kc_kdf (ek_crypto ks))) (kdf_p (kc_kdf (ek_crypto ks))) = Ok ()"
    and "scrypt K (string_bytes pw) (kdf_salt (kc_kdf (ek_crypto ks))) (kdf_log_n (kc_kdf (ek_crypto ks))) (kdf_r (kc_kdf (ek_crypto ks)))
      (kdf_p (kc_kdf (ek_crypto ks))) = Ok key"
    and "length (kc_nonce (ek_crypto ks)) \<noteq> 12"
  shows "keystore_decrypt K bs pw = None"
  using assms by (simp add: keystore_decrypt_def keystore_open_def Let_def)

text \<open>
  An instance of the libraries for two keys: a stream cipher that leaves the text as it is, and JSON
  that knows two documents.
\<close>

definition example_document :: "256 word \<Rightarrow> encrypted_keystore" where
  "example_document key = \<lparr>ek_version = 1, ek_crypto =
     \<lparr>kc_cipher = ''aes-256-gcm'', kc_ciphertext = to_be_bytes key, kc_nonce = to_be_bytes (2 :: 96 word),
      kc_kdf = \<lparr>kdf_algorithm = ''scrypt'', kdf_log_n = 14, kdf_r = 8, kdf_p = 1, kdf_salt = to_be_bytes (1 :: 256 word)\<rparr>\<rparr>\<rparr>"

definition example_keystore_prims :: "(bytes, bytes) keystore_prims" where
  "example_keystore_prims = \<lparr>scrypt_params = (\<lambda>_ _ _. Ok ()), scrypt = (\<lambda>pw salt _ _ _. Ok (checksum (pw @ salt))),
     aes_encrypt = (\<lambda>_ _ m. Ok m), aes_decrypt = (\<lambda>_ _ c. Some c),
     json_of_keystore = (\<lambda>ks. if ks = example_document 7 then Ok [7] else if ks = example_document 8 then Ok [8] else Err ''''),
     keystore_of_json = (\<lambda>bs. if bs = [7] then Ok (example_document 7) else if bs = [8] then Ok (example_document 8) else Err ''''),
     json_value = Ok, json_bytes = Ok, bip39_from_entropy = Ok, bip39_parse = (\<lambda>s. Ok (string_bytes s)),
     bip39_to_string = bytes_string, bip39_to_seed = (\<lambda>m pw. ucast (checksum (m @ string_bytes pw))),
     hkdf_expand = (\<lambda>_ _ _. Ok 7)\<rparr>"

lemma bytes_of_string: "string_bytes (bytes_string bs) = bs"
proof -
  have "of_char (char_of (unat b)) = b" for b :: u8
    using unat_le_max [of b] by (subst of_nat_of_char [symmetric]) simp
  then show ?thesis by (simp add: string_bytes_def bytes_string_def map_idI)
qed

lemma example_keystore_correct:
  "aead_correct example_keystore_prims" "json_correct example_keystore_prims" "bip39_correct example_keystore_prims"
  by (auto simp: aead_correct_def json_correct_def bip39_correct_def example_keystore_prims_def bytes_of_string)

lemma example_save:
  "save_to_file example_keystore_prims 1 2 None fs \<lparr>signing_key = 7\<rparr> pw path = Ok (hm_put path [7] fs)"
  "save_to_file example_keystore_prims 1 2 None fs \<lparr>signing_key = 8\<rparr> pw path = Ok (hm_put path [8] fs)"
  by (simp_all add: save_to_file_def keystore_encrypt_def example_keystore_prims_def secret_bytes_def)
    (simp_all add: example_document_def hash32.enc_inject)

theorem keystore_roundtrip_witness:
  "load_from_file example_keystore_prims ''missing'' (hm_put ''b.json'' [8] (hm_put ''a.json'' [7] [])) ''a.json'' ''secret'' =
     Some (Ok \<lparr>signing_key = 7\<rparr>)"
  using keystore_roundtrip [OF example_keystore_correct(1, 2) example_save(1) _ example_save(2), of "''b.json''" "''a.json''" "''missing''" "[]" "''secret''" "''other''"]
  by simp

end
