(* ===== verification/Wallet_Cli.thy ===== *)
theory Wallet_Cli
  imports Keystore Api
begin

text \<open>
  The command line wallet (\<open>crates/wallet\<close>): the commands of \<open>main.rs\<close>, the accounts kept in a
  directory of key files, and the transactions the commands sign and send. What the node answers is
  an argument (a JSON value, or an error of the transport), and so are the clock and the files. The
  body of a request is the record that the node's handler takes; what is printed is left out.

  Shown: what a command signs is exactly what the node's handler reads from the body and passes on
  to the pool, for every command.
\<close>

section \<open>JSON values and paths\<close>

datatype json = JNull | JBool bool | JNumber u64 | JOtherNumber | JString string | JArray "json list" | JObject "(string \<times> json) list"

fun json_get :: "json \<Rightarrow> string \<Rightarrow> json option" where
  "json_get (JObject kvs) k = map_of kvs k"
| "json_get _ k = None"

fun as_u64 :: "json \<Rightarrow> u64 option" where
  "as_u64 (JNumber n) = Some n"
| "as_u64 _ = None"

definition data_u64 :: "json \<Rightarrow> string \<Rightarrow> u64 option" where
  "data_u64 v field = Option.bind (json_get v ''data'') (\<lambda>d. Option.bind (json_get d field) as_u64)"

definition path_join :: "string \<Rightarrow> string \<Rightarrow> string" where
  "path_join dir name = (if dir = [] \<or> last dir = CHR ''/'' then dir @ name else dir @ ''/'' @ name)"

definition key_file :: "'p crypto_prims_scheme \<Rightarrow> string \<Rightarrow> address \<Rightarrow> string" where
  "key_file P dir a = path_join dir (address_to_hex P a @ ''.json'')"

section \<open>client.rs\<close>

definition node_client_new :: "string \<Rightarrow> string" where
  "node_client_new base_url = rev (dropWhile (\<lambda>c. c = CHR ''/'') (rev base_url))"

definition get_balance_url :: "string \<Rightarrow> string \<Rightarrow> string" where
  "get_balance_url base address = base @ ''/accounts/'' @ address @ ''/balance''"

definition get_account_url :: "string \<Rightarrow> string \<Rightarrow> string" where
  "get_account_url base address = base @ ''/accounts/'' @ address"

definition get_chain_info_url :: "string \<Rightarrow> string" where
  "get_chain_info_url base = base @ ''/chain/info''"

definition get_block_url :: "string \<Rightarrow> string \<Rightarrow> string" where
  "get_block_url base i = base @ ''/blocks/'' @ i"

definition submit_transaction_url :: "string \<Rightarrow> string" where
  "submit_transaction_url base = base @ ''/tx''"

section \<open>commands: account.rs\<close>

type_synonym files = "(string, bytes) hmap"

definition store_account :: "'p crypto_prims_scheme \<Rightarrow> ('v, 'w, 'a) keystore_prims_scheme \<Rightarrow> 256 word \<Rightarrow> 96 word \<Rightarrow> string option \<Rightarrow>
    files \<Rightarrow> string \<Rightarrow> key_pair \<Rightarrow> string \<Rightarrow> string + (address \<times> files)" where
  "store_account P K salt n io fs dir kp password =
     (let a = keypair_address P kp in
      map_ok (\<lambda>fs'. (a, fs')) (map_err crypto_error_to_string (save_to_file K salt n io fs kp password (key_file P dir a))))"

definition create_account :: "'p crypto_prims_scheme \<Rightarrow> ('v, 'w, 'a) keystore_prims_scheme \<Rightarrow> (nat \<Rightarrow> bytes) \<Rightarrow> 256 word \<Rightarrow> 96 word \<Rightarrow>
    string option \<Rightarrow> files \<Rightarrow> nat \<Rightarrow> string \<Rightarrow> string \<Rightarrow> string + (address \<times> string \<times> files)" where
  "create_account P K random salt n io fs word_count dir password =
     and_then (map_err crypto_error_to_string (mnemonic_generate K random word_count)) (\<lambda>m.
     and_then (map_err crypto_error_to_string (to_keypair K m password)) (\<lambda>kp.
     map_ok (\<lambda>(a, fs'). (a, phrase K m, fs')) (store_account P K salt n io fs dir kp password)))"

definition import_from_mnemonic :: "'p crypto_prims_scheme \<Rightarrow> ('v, 'w, 'a) keystore_prims_scheme \<Rightarrow> 256 word \<Rightarrow> 96 word \<Rightarrow>
    string option \<Rightarrow> files \<Rightarrow> string \<Rightarrow> string \<Rightarrow> string \<Rightarrow> string + (address \<times> files)" where
  "import_from_mnemonic P K salt n io fs ph dir password =
     and_then (map_err crypto_error_to_string (mnemonic_from_phrase K ph)) (\<lambda>m.
     and_then (map_err crypto_error_to_string (to_keypair K m password)) (\<lambda>kp.
     store_account P K salt n io fs dir kp password))"

definition import_from_private_key :: "'p crypto_prims_scheme \<Rightarrow> ('v, 'w, 'a) keystore_prims_scheme \<Rightarrow> 256 word \<Rightarrow> 96 word \<Rightarrow>
    string option \<Rightarrow> files \<Rightarrow> string \<Rightarrow> string \<Rightarrow> string \<Rightarrow> string + (address \<times> files)" where
  "import_from_private_key P K salt n io fs private_key_hex dir password =
     and_then (hex_decode P (strip_0x private_key_hex)) (\<lambda>bs.
     if length bs \<noteq> 32 then Err ''private key must be 32 bytes''
     else and_then (map_err crypto_error_to_string (keypair_from_bytes (from_be_bytes bs))) (\<lambda>kp.
       store_account P K salt n io fs dir kp password))"

text \<open>\<open>Path::file_stem\<close> and \<open>Path::extension\<close>: the name is split at its last dot, unless that comes first.\<close>

definition stem_ext :: "string \<Rightarrow> string \<times> string option" where
  "stem_ext name =
     (let e = takeWhile (\<lambda>c. c \<noteq> CHR ''.'') (rev name); r = drop (length e) (rev name) in
      if length r \<le> 1 then (name, None) else (rev (drop 1 r), Some (rev e)))"

definition list_accounts :: "string list \<Rightarrow> string list" where
  "list_accounts entries = map (fst \<circ> stem_ext) (filter (\<lambda>name. snd (stem_ext name) = Some ''json'') entries)"

section \<open>commands: transfer.rs, stake.rs, contract.rs\<close>

definition fetch_chain_id :: "string + json \<Rightarrow> string + u64" where
  "fetch_chain_id reply = map_ok (\<lambda>info. unwrap_or 1 (data_u64 info ''chain_id'')) reply"

definition load_key :: "'p crypto_prims_scheme \<Rightarrow> ('v, 'w, 'a) keystore_prims_scheme \<Rightarrow> files \<Rightarrow> string \<Rightarrow> address \<Rightarrow> string \<Rightarrow>
    (string + key_pair) option" where
  "load_key P K fs dir from_addr password =
     (let keyfile = key_file P dir from_addr in
      if \<not> hm_contains keyfile fs then Some (Err (''Keyfile not found for address '' @ address_to_hex P from_addr))
      else map_option (map_err crypto_error_to_string) (load_from_file K '''' fs keyfile password))"

text \<open>The body of the request: the fields of the signed transaction, with the addresses as they were typed.\<close>

definition body_of :: "'p crypto_prims_scheme \<Rightarrow> string \<Rightarrow> string option \<Rightarrow> string \<Rightarrow> string \<Rightarrow> key_pair \<Rightarrow> signed_transaction \<Rightarrow>
    submit_transaction_request" where
  "body_of P from_hex to_hex ty d kp stx = (let tx = stx_transaction stx in
     \<lparr>sr_chain_id = tx_chain_id tx, sr_nonce = tx_nonce tx, sr_from = from_hex, sr_to = to_hex, sr_value = show_word (tx_value tx),
      sr_tx_type = ty, sr_gas_limit = tx_gas_limit tx, sr_gas_price = tx_gas_price tx, sr_data = d,
      sr_timestamp = tx_timestamp tx, sr_public_key = public_key_to_hex P (keypair_public_key P kp),
      sr_signature = signature_to_hex P (stx_signature stx)\<rparr>)"

text \<open>What a command needs from outside: the files, the two answers of the node, and the time.\<close>

record cli_env =
  cl_files :: files
  cl_dir :: string
  cl_chain_info :: "string + json"
  cl_account :: "string + json"
  cl_now :: u64

type_synonym cli_result = "(string + (key_pair \<times> signed_transaction \<times> submit_transaction_request)) option"

abbreviation cli_address :: "'p crypto_prims_scheme \<Rightarrow> string \<Rightarrow> (string + address) option" where
  "cli_address P s \<equiv> Some (map_err crypto_error_to_string (address_from_hex P s))"

abbreviation account_nonce :: "json \<Rightarrow> u64" where
  "account_nonce v \<equiv> unwrap_or 0 (data_u64 v ''nonce'')"

definition send_transfer :: "'p tx_prims_scheme \<Rightarrow> ('v, 'w, 'a) keystore_prims_scheme \<Rightarrow> cli_env \<Rightarrow> string \<Rightarrow> string \<Rightarrow> u128 \<Rightarrow> string \<Rightarrow> cli_result" where
  "send_transfer P K cl from_hex to_hex amount password =
     and_then_o (cli_address P from_hex) (\<lambda>from_addr.
     and_then_o (load_key P K (cl_files cl) (cl_dir cl) from_addr password) (\<lambda>kp.
     and_then_o (Some (fetch_chain_id (cl_chain_info cl))) (\<lambda>ci.
     and_then_o (Some (cl_account cl)) (\<lambda>account_info.
     and_then_o (cli_address P to_hex) (\<lambda>to_addr.
       let tx = \<lparr>tx_chain_id = ci, tx_nonce = account_nonce account_info, tx_from = from_addr, tx_to = Some to_addr, tx_value = amount,
                 tx_type = Transfer, tx_gas_limit = 21000, tx_gas_price = 1, tx_data = [], tx_timestamp = cl_now cl\<rparr>;
           stx = signed_transaction_new P tx kp in
       Some (Ok (kp, stx, body_of P from_hex (Some to_hex) ''Transfer'' '''' kp stx)))))))"

definition send_stake :: "'p tx_prims_scheme \<Rightarrow> ('v, 'w, 'a) keystore_prims_scheme \<Rightarrow> cli_env \<Rightarrow> string \<Rightarrow> u128 \<Rightarrow> string \<Rightarrow> cli_result" where
  "send_stake P K cl from_hex amount password =
     and_then_o (Some (fetch_chain_id (cl_chain_info cl))) (\<lambda>ci.
     and_then_o (cli_address P from_hex) (\<lambda>from_addr.
     and_then_o (load_key P K (cl_files cl) (cl_dir cl) from_addr password) (\<lambda>kp.
     and_then_o (Some (cl_account cl)) (\<lambda>account_info.
       let tx = \<lparr>tx_chain_id = ci, tx_nonce = account_nonce account_info, tx_from = from_addr, tx_to = None, tx_value = amount,
                 tx_type = Stake, tx_gas_limit = 21000, tx_gas_price = 1, tx_data = [], tx_timestamp = cl_now cl\<rparr>;
           stx = signed_transaction_new P tx kp in
       Some (Ok (kp, stx, body_of P from_hex None ''Stake'' '''' kp stx))))))"

definition send_unstake :: "'p tx_prims_scheme \<Rightarrow> ('v, 'w, 'a) keystore_prims_scheme \<Rightarrow> cli_env \<Rightarrow> string \<Rightarrow> u128 \<Rightarrow> string \<Rightarrow> cli_result" where
  "send_unstake P K cl from_hex amount password =
     and_then_o (Some (fetch_chain_id (cl_chain_info cl))) (\<lambda>ci.
     and_then_o (cli_address P from_hex) (\<lambda>from_addr.
     and_then_o (load_key P K (cl_files cl) (cl_dir cl) from_addr password) (\<lambda>kp.
     and_then_o (Some (cl_account cl)) (\<lambda>account_info.
       let tx = \<lparr>tx_chain_id = ci, tx_nonce = account_nonce account_info, tx_from = from_addr, tx_to = None, tx_value = amount,
                 tx_type = Unstake, tx_gas_limit = 21000, tx_gas_price = 1, tx_data = [], tx_timestamp = cl_now cl\<rparr>;
           stx = signed_transaction_new P tx kp in
       Some (Ok (kp, stx, body_of P from_hex None ''Unstake'' '''' kp stx))))))"

definition cli_deploy_contract :: "'p tx_prims_scheme \<Rightarrow> ('v, 'w, 'a) keystore_prims_scheme \<Rightarrow> cli_env \<Rightarrow> string \<Rightarrow> string \<Rightarrow> string \<Rightarrow> u64 \<Rightarrow> cli_result" where
  "cli_deploy_contract P K cl from_hex wasm_path password gas_limit =
     and_then_o (Some (fetch_chain_id (cl_chain_info cl))) (\<lambda>ci.
     and_then_o (cli_address P from_hex) (\<lambda>from_addr.
     and_then_o (load_key P K (cl_files cl) (cl_dir cl) from_addr password) (\<lambda>kp.
     and_then_o (Some (ok_or ''No such file or directory'' (hm_get (cl_files cl) wasm_path))) (\<lambda>wasm_bytecode.
     and_then_o (Some (cl_account cl)) (\<lambda>account_info.
       let tx = \<lparr>tx_chain_id = ci, tx_nonce = account_nonce account_info, tx_from = from_addr, tx_to = None, tx_value = 0,
                 tx_type = ContractDeploy, tx_gas_limit = gas_limit, tx_gas_price = 1, tx_data = wasm_bytecode, tx_timestamp = cl_now cl\<rparr>;
           stx = signed_transaction_new P tx kp in
       Some (Ok (kp, stx, body_of P from_hex None ''ContractDeploy'' (hex_encode P wasm_bytecode) kp stx)))))))"

text \<open>The data of a call: the length of the function name, the name, and the arguments.\<close>

definition call_data :: "string \<Rightarrow> bytes \<Rightarrow> bytes" where
  "call_data function args = to_le_bytes (of_nat (length function) :: u32) @ string_bytes function @ args"

definition cli_call_contract :: "'p tx_prims_scheme \<Rightarrow> ('v, 'w, 'a) keystore_prims_scheme \<Rightarrow> cli_env \<Rightarrow> string \<Rightarrow> string \<Rightarrow> string \<Rightarrow> string \<Rightarrow>
    u128 \<Rightarrow> string \<Rightarrow> u64 \<Rightarrow> cli_result" where
  "cli_call_contract P K cl from_hex contract_hex function args_hex v password gas_limit =
     and_then_o (Some (fetch_chain_id (cl_chain_info cl))) (\<lambda>ci.
     and_then_o (cli_address P from_hex) (\<lambda>from_addr.
     and_then_o (cli_address P contract_hex) (\<lambda>contract_addr.
     and_then_o (load_key P K (cl_files cl) (cl_dir cl) from_addr password) (\<lambda>kp.
     and_then_o (Some (cl_account cl)) (\<lambda>account_info.
     and_then_o (Some (hex_decode P (strip_0x args_hex))) (\<lambda>args.
       let d = call_data function args;
           tx = \<lparr>tx_chain_id = ci, tx_nonce = account_nonce account_info, tx_from = from_addr, tx_to = Some contract_addr, tx_value = v,
                 tx_type = ContractCall, tx_gas_limit = gas_limit, tx_gas_price = 1, tx_data = d, tx_timestamp = cl_now cl\<rparr>;
           stx = signed_transaction_new P tx kp in
       Some (Ok (kp, stx, body_of P from_hex (Some contract_hex) ''ContractCall'' (hex_encode P d) kp stx))))))))"

section \<open>main.rs\<close>

datatype wallet_command =
    CmdTransfer string string u128 string
  | CmdStake string u128 string
  | CmdUnstake string u128 string
  | CmdDeploy string string string u64
  | CmdCall string string string string u128 string u64

text \<open>The commands that send a transaction.\<close>

fun wallet_main :: "'p tx_prims_scheme \<Rightarrow> ('v, 'w, 'a) keystore_prims_scheme \<Rightarrow> cli_env \<Rightarrow> wallet_command \<Rightarrow> cli_result" where
  "wallet_main P K cl (CmdTransfer from to amount password) = send_transfer P K cl from to amount password"
| "wallet_main P K cl (CmdStake from amount password) = send_stake P K cl from amount password"
| "wallet_main P K cl (CmdUnstake from amount password) = send_unstake P K cl from amount password"
| "wallet_main P K cl (CmdDeploy from wasm password gas_limit) = cli_deploy_contract P K cl from wasm password gas_limit"
| "wallet_main P K cl (CmdCall from contract function args v password gas_limit) =
     cli_call_contract P K cl from contract function args v password gas_limit"

section \<open>What is sent is what was signed\<close>

lemma parse_debug_tx_type [simp]: "parse_tx_type (debug_tx_type ty) = Ok ty"
  by (induction ty) code_simp+

lemma hex_decode_empty: "hex_correct P \<Longrightarrow> hex_decode P [] = Ok []"
  using hex_correct_def [of P] by (metis length_0_conv list.size(3) mult_0_right)

lemma hex_decode_encoded: "hex_correct P \<Longrightarrow> hex_decode P (strip_0x (hex_encode P bs)) = Ok bs"
  by (simp add: hex_correct_def strip_0x_hex)

lemma decode_body:
  assumes "hex_correct P" "address_from_hex P from_hex = Ok (tx_from tx)"
    and "case to_hex of None \<Rightarrow> tx_to tx = None | Some s \<Rightarrow> \<exists>a. address_from_hex P s = Ok a \<and> tx_to tx = Some a"
    and "ty = debug_tx_type (tx_type tx)" "hex_decode P (strip_0x d) = Ok (tx_data tx)"
  shows "decode_request P (body_of P from_hex to_hex ty d kp (signed_transaction_new P tx kp)) = Ok (signed_transaction_new P tx kp)"
proof -
  have pk: "public_key_from_hex P (public_key_to_hex P (keypair_public_key P kp)) = Ok (keypair_public_key P kp)"
    and sig: "signature_from_hex P (signature_to_hex P s) = Ok s" for s
    using public_key_hex_roundtrip [OF assms(1)] signature_hex_roundtrip [OF assms(1)] by blast+
  show ?thesis using assms pk sig
    by (cases tx, cases to_hex) (auto simp: decode_request_def body_of_def signed_transaction_new_def Let_def)
qed

text \<open>The parts of a result that all commands share.\<close>

lemma wallet_main_result:
  assumes "hex_correct P" "wallet_main P K cl cmd = Some (Ok (kp, stx, body))"
  obtains from_hex to_hex d tx where "stx = signed_transaction_new P tx kp"
    "body = body_of P from_hex to_hex (debug_tx_type (tx_type tx)) d kp stx"
    "address_from_hex P from_hex = Ok (tx_from tx)"
    "case to_hex of None \<Rightarrow> tx_to tx = None | Some s \<Rightarrow> \<exists>a. address_from_hex P s = Ok a \<and> tx_to tx = Some a"
    "hex_decode P (strip_0x d) = Ok (tx_data tx)"
proof (cases cmd)
  case (CmdTransfer fr to amount pw)
  then show thesis using assms(2) hex_decode_empty [OF assms(1)]
    by (auto simp: send_transfer_def and_then_o_Ok result_simps Let_def strip_0x_def
        intro!: that [of _ fr "Some to" "''''"])
next
  case (CmdStake fr amount pw)
  then show thesis using assms(2) hex_decode_empty [OF assms(1)]
    by (auto simp: send_stake_def and_then_o_Ok result_simps Let_def strip_0x_def intro!: that [of _ fr None "''''"])
next
  case (CmdUnstake fr amount pw)
  then show thesis using assms(2) hex_decode_empty [OF assms(1)]
    by (auto simp: send_unstake_def and_then_o_Ok result_simps Let_def strip_0x_def intro!: that [of _ fr None "''''"])
next
  case (CmdDeploy fr wasm pw gl)
  then show thesis using assms(2) hex_decode_encoded [OF assms(1)]
    by (auto simp: cli_deploy_contract_def and_then_o_Ok result_simps Let_def intro!: that [of _ fr None])
next
  case (CmdCall fr contract f args v pw gl)
  then show thesis using assms(2) hex_decode_encoded [OF assms(1)]
    by (auto simp: cli_call_contract_def and_then_o_Ok result_simps Let_def intro!: that [of _ fr "Some contract"])
qed

text \<open>
  C27 (what the wallet signs is what the node pools). For every command that sends a transaction, the
  node's handler reads from the request exactly the transaction the wallet signed, its hash included.
  If the key belongs to the sending address and the transaction is well formed, the handler passes it
  to the engine unchanged and answers with its hash; with another address's key it is refused, and
  the engine is left alone.
\<close>

theorem wallet_request_faithful:
  assumes "ed25519_correct P" "hex_correct P" "wallet_main P K cl cmd = Some (Ok (kp, stx, body))"
  shows "decode_request P body = Ok stx \<and>
    (keypair_address P kp = sender stx \<and> tx_wf (stx_transaction stx) \<longrightarrow>
       submit_transaction P now en body = (case on_transaction_received P now stx en of (r, en') \<Rightarrow>
         (map_ok (\<lambda>_. api_ok \<lparr>sp_tx_hash = hash_display P (stx_hash stx)\<rparr>) (map_err api_consensus r), en'))) \<and>
    (keypair_address P kp \<noteq> sender stx \<longrightarrow> (\<exists>m. submit_transaction P now en body = (Err (BadRequest m), en)))"
proof -
  obtain from_hex to_hex d tx where res: "stx = signed_transaction_new P tx kp"
      "body = body_of P from_hex to_hex (debug_tx_type (tx_type tx)) d kp stx" "address_from_hex P from_hex = Ok (tx_from tx)"
      "case to_hex of None \<Rightarrow> tx_to tx = None | Some s \<Rightarrow> \<exists>a. address_from_hex P s = Ok a \<and> tx_to tx = Some a"
      "hex_decode P (strip_0x d) = Ok (tx_data tx)"
    by (rule wallet_main_result [OF assms(2, 3)])
  have dec: "decode_request P body = Ok stx" unfolding res(1, 2) by (rule decode_body [OF assms(2) res(3, 4) refl res(5)])
  have tx: "stx_transaction stx = tx" "stx_public_key stx = keypair_public_key P kp"
    by (simp_all add: res(1) signed_transaction_new_def Let_def)
  have "stx_verify P stx = Ok ()" if "keypair_address P kp = sender stx" "tx_wf tx"
    unfolding res(1) by (rule stx_verify_new [OF assms(1) that(2)]) (use that(1) in \<open>simp add: sender_def tx\<close>)
  moreover have "\<exists>e. stx_verify P stx = Err e" if "keypair_address P kp \<noteq> sender stx"
    using that stx_verify_iff [of P stx "()"] by (cases "stx_verify P stx") (auto simp: tx sender_def keypair_address_def)
  ultimately show ?thesis
    using dec by (auto simp: submit_transaction_def verify_and_submit_def tx split: prod.splits)
qed

text \<open>An account the wallet has stored is loaded by its address and password; so what it sends is its own.\<close>

lemma load_key_stored:
  assumes "aead_correct K" "json_correct K" "store_account P K salt n io fs dir kp pw = Ok (a, fs')"
  shows "load_key P K fs' dir a pw = Some (Ok kp) \<and> a = keypair_address P kp"
proof -
  obtain bs where bs: "keystore_encrypt K salt n kp pw = Ok bs" "fs' = hm_put (key_file P dir a) bs fs" "a = keypair_address P kp"
    using assms(3) by (auto simp: store_account_def save_to_file_def result_simps Let_def split: option.splits)
  then show ?thesis using keystore_encrypted [OF assms(1) bs(1) refl assms(2)]
    by (simp add: load_key_def load_from_file_def hm_contains_def Let_def)
qed

text \<open>An example: the key 7 stored in a directory sends a transfer on a chain with identifier 1.\<close>

lemma example_chain_crypto: "ed25519_correct example_chain_prims" "hex_correct example_chain_prims"
  by (simp_all add: example_chain_prims_def ed25519_correct_def hex_correct_def mem_prims_def example_block_prims_def example_tx_prims_def
      example_prims_def crypto_prims.defs tx_prims.defs block_prims.defs unhex_hex_bytes hex_bytes_digits length_hex_bytes)

definition example_cli :: cli_env where
  "example_cli = \<lparr>cl_files = hm_put (key_file example_chain_prims ''keys'' (keypair_address example_chain_prims example_kp)) [7] [],
     cl_dir = ''keys'', cl_chain_info = Ok JNull, cl_account = Ok JNull, cl_now = 1000\<rparr>"

lemma example_cli_load:
  "load_key example_chain_prims example_keystore_prims (cl_files example_cli) ''keys'' (keypair_address example_chain_prims example_kp) ''pw'' =
     Some (Ok example_kp)"
  using load_key_stored [of example_keystore_prims example_chain_prims 1 2 None "[]" "''keys''" example_kp "''pw''"]
    example_keystore_correct example_save(1) [of "[]" "''pw''"]
  by (simp add: store_account_def example_cli_def Let_def example_kp_def)

theorem wallet_request_faithful_witness:
  "\<exists>stx body. wallet_main example_chain_prims example_keystore_prims example_cli
       (CmdTransfer (address_to_hex example_chain_prims (keypair_address example_chain_prims example_kp)) (address_to_hex example_chain_prims 5) 600 ''pw'') =
     Some (Ok (example_kp, stx, body)) \<and> decode_request example_chain_prims body = Ok stx \<and> tx_value (stx_transaction stx) = 600"
proof -
  let ?P = example_chain_prims and ?K = example_keystore_prims
  let ?cmd = "CmdTransfer (address_to_hex ?P (keypair_address ?P example_kp)) (address_to_hex ?P 5) 600 ''pw''"
  have "address_from_hex ?P (address_to_hex ?P a) = Ok a" for a by (rule address_hex_roundtrip [OF example_chain_crypto(2)])
  then obtain stx body where run: "wallet_main ?P ?K example_cli ?cmd = Some (Ok (example_kp, stx, body))" "tx_value (stx_transaction stx) = 600"
    using example_cli_load by (simp add: send_transfer_def fetch_chain_id_def Let_def signed_transaction_new_def) (simp add: example_cli_def)
  then show ?thesis using wallet_request_faithful [OF example_chain_crypto run(1), of 0 undefined] by blast
qed

end
