(* ===== verification/Api_Wallet.thy ===== *)
theory Api_Wallet
  imports Wallet_Cli
begin

text \<open>
  The wallet routes of the HTTP interface (\<open>crates/api/src/routes/wallet.rs\<close>): accounts are created
  and imported, and transactions are signed on the server with the key of an encrypted key file the
  client sends along. A handler that panics gives \<open>None\<close> and leaves the engine alone.

  Shown: an account created here can be imported again from its phrase and can send, and two
  transactions sent before the next block carry the same nonce.
\<close>

section \<open>Requests and responses\<close>

record create_account_request =
  ca_password :: string
  ca_word_count :: "nat option"

record 'v create_account_response =
  cr_address :: string
  cr_mnemonic :: string
  cr_public_key :: string
  cr_keystore :: 'v

record import_mnemonic_request =
  im_mnemonic :: string
  im_password :: string

record import_private_key_request =
  ip_private_key :: string
  ip_password :: string

record 'v import_account_response =
  ir_address :: string
  ir_public_key :: string
  ir_keystore :: 'v

record 'v wallet_transfer_request =
  wt_keystore :: 'v
  wt_password :: string
  wt_to :: string
  wt_value :: string
  wt_gas_limit :: "u64 option"
  wt_gas_price :: "u64 option"

record 'v wallet_stake_request =
  ws_keystore :: 'v
  ws_password :: string
  ws_value :: string
  ws_gas_limit :: "u64 option"
  ws_gas_price :: "u64 option"

record 'v wallet_deploy_request =
  wd_keystore :: 'v
  wd_password :: string
  wd_bytecode :: string
  wd_gas_limit :: "u64 option"
  wd_gas_price :: "u64 option"

record 'v wallet_call_request =
  wc_keystore :: 'v
  wc_password :: string
  wc_contract :: string
  wc_function :: string
  wc_args :: "string option"
  wc_value :: "string option"
  wc_gas_limit :: "u64 option"
  wc_gas_price :: "u64 option"

record wallet_tx_response =
  wr_tx_hash :: string
  wr_from :: string
  wr_nonce :: u64

section \<open>Helpers\<close>

definition decrypt_keystore :: "('v, 'w, 'a) keystore_prims_scheme \<Rightarrow> 'v \<Rightarrow> string \<Rightarrow> (api_error + key_pair) option" where
  "decrypt_keystore K keystore_json password =
     and_then_o (Some (map_err (\<lambda>e. BadRequest (''Invalid keystore JSON: '' @ e)) (json_bytes K keystore_json))) (\<lambda>bs.
     map_option (map_err (bad_request ''Keystore decryption failed (wrong password?): '')) (keystore_decrypt K bs password))"

definition encrypt_keypair :: "('v, 'w, 'a) keystore_prims_scheme \<Rightarrow> 256 word \<Rightarrow> 96 word \<Rightarrow> key_pair \<Rightarrow> string \<Rightarrow> api_error + 'v" where
  "encrypt_keypair K salt n kp password =
     and_then (map_err (\<lambda>e. ApiInternal (''Keystore encryption failed: '' @ crypto_error_to_string e)) (keystore_encrypt K salt n kp password)) (\<lambda>encrypted.
     map_err (\<lambda>e. ApiInternal (''Keystore JSON parse failed: '' @ e)) (json_value K encrypted))"

definition wallet_get_nonce :: "('db, 'p) storage_prims_scheme \<Rightarrow> ('db, 'm) consensus_engine \<Rightarrow> address \<Rightarrow> api_error + u64" where
  "wallet_get_nonce P en a =
     map_ok (\<lambda>r. case r of Some acc \<Rightarrow> acc_nonce acc | None \<Rightarrow> 0) (map_err api_storage (get_account P (engine_storage en) a))"

definition get_chain_id :: "('db, 'p) storage_prims_scheme \<Rightarrow> ('db, 'm) consensus_engine \<Rightarrow> u64" where
  "get_chain_id P en = ci_chain_id (chain_info_of P en)"

definition sign_and_submit :: "('db, 'p) storage_prims_scheme \<Rightarrow> nat \<Rightarrow> ('db, 'm) consensus_engine \<Rightarrow> key_pair \<Rightarrow> transaction \<Rightarrow>
    (api_error + wallet_tx_response) \<times> ('db, 'm) consensus_engine" where
  "sign_and_submit P now en kp tx =
     (let stx = signed_transaction_new P tx kp in
      case verify_and_submit P now stx en of (r, en') \<Rightarrow>
        (map_ok (\<lambda>_. \<lparr>wr_tx_hash = hash_display P (stx_hash stx), wr_from = address_to_hex P (tx_from (stx_transaction stx)),
           wr_nonce = tx_nonce (stx_transaction stx)\<rparr>) r, en'))"

section \<open>Accounts\<close>

definition create_account_handler :: "'p crypto_prims_scheme \<Rightarrow> ('v, 'w, 'a) keystore_prims_scheme \<Rightarrow> (nat \<Rightarrow> bytes) \<Rightarrow> 256 word \<Rightarrow> 96 word \<Rightarrow>
    create_account_request \<Rightarrow> api_error + 'v create_account_response api_response" where
  "create_account_handler P K random salt n req =
     (let word_count = unwrap_or 12 (ca_word_count req) in
      if word_count \<noteq> 12 \<and> word_count \<noteq> 24 then Err (BadRequest ''word_count must be 12 or 24'')
      else if ca_password req = '''' then Err (BadRequest ''password is required'')
      else
        and_then (map_err (\<lambda>e. ApiInternal (''Mnemonic generation failed: '' @ crypto_error_to_string e)) (mnemonic_generate K random word_count)) (\<lambda>m.
        and_then (map_err (\<lambda>e. ApiInternal (''Key derivation failed: '' @ crypto_error_to_string e)) (to_keypair K m (ca_password req))) (\<lambda>kp.
        and_then (encrypt_keypair K salt n kp (ca_password req)) (\<lambda>ks.
        Ok (api_ok \<lparr>cr_address = address_to_hex P (keypair_address P kp), cr_mnemonic = phrase K m,
          cr_public_key = public_key_to_hex P (keypair_public_key P kp), cr_keystore = ks\<rparr>)))))"

definition import_response :: "'p crypto_prims_scheme \<Rightarrow> ('v, 'w, 'a) keystore_prims_scheme \<Rightarrow> 256 word \<Rightarrow> 96 word \<Rightarrow> key_pair \<Rightarrow> string \<Rightarrow>
    api_error + 'v import_account_response api_response" where
  "import_response P K salt n kp password =
     and_then (encrypt_keypair K salt n kp password) (\<lambda>ks.
     Ok (api_ok \<lparr>ir_address = address_to_hex P (keypair_address P kp),
       ir_public_key = public_key_to_hex P (keypair_public_key P kp), ir_keystore = ks\<rparr>))"

definition import_mnemonic :: "'p crypto_prims_scheme \<Rightarrow> ('v, 'w, 'a) keystore_prims_scheme \<Rightarrow> 256 word \<Rightarrow> 96 word \<Rightarrow>
    import_mnemonic_request \<Rightarrow> api_error + 'v import_account_response api_response" where
  "import_mnemonic P K salt n req =
     (if im_password req = '''' then Err (BadRequest ''password is required'')
      else
        and_then (map_err (bad_request ''Invalid mnemonic: '') (mnemonic_from_phrase K (im_mnemonic req))) (\<lambda>m.
        and_then (map_err (\<lambda>e. ApiInternal (''Key derivation failed: '' @ crypto_error_to_string e)) (to_keypair K m (im_password req))) (\<lambda>kp.
        import_response P K salt n kp (im_password req))))"

definition import_private_key :: "'p crypto_prims_scheme \<Rightarrow> ('v, 'w, 'a) keystore_prims_scheme \<Rightarrow> 256 word \<Rightarrow> 96 word \<Rightarrow>
    import_private_key_request \<Rightarrow> api_error + 'v import_account_response api_response" where
  "import_private_key P K salt n req =
     (if ip_password req = '''' then Err (BadRequest ''password is required'')
      else
        and_then (map_err (\<lambda>e. BadRequest (''Invalid hex private key: '' @ e)) (hex_decode P (strip_0x (ip_private_key req)))) (\<lambda>bs.
        if length bs \<noteq> 32 then Err (BadRequest ''Private key must be 32 bytes (64 hex chars)'')
        else and_then (map_err (bad_request ''Invalid private key: '') (keypair_from_bytes (from_be_bytes bs))) (\<lambda>kp.
          import_response P K salt n kp (ip_password req))))"

section \<open>Transactions\<close>

text \<open>What a handler has built is signed and submitted; an error or a panic before that changes nothing.\<close>

type_synonym ('db, 'm) wallet_result = "(api_error + wallet_tx_response api_response) option \<times> ('db, 'm) consensus_engine"

definition submit_built :: "('db, 'p) storage_prims_scheme \<Rightarrow> nat \<Rightarrow> ('db, 'm) consensus_engine \<Rightarrow> (api_error + key_pair \<times> transaction) option \<Rightarrow>
    ('db, 'm) wallet_result" where
  "submit_built P now en built =
     (case built of
        None \<Rightarrow> (None, en)
      | Some (Err e) \<Rightarrow> (Some (Err e), en)
      | Some (Ok (kp, tx)) \<Rightarrow> (case sign_and_submit P now en kp tx of (r, en') \<Rightarrow> (Some (map_ok api_ok r), en')))"

abbreviation wallet_address :: "'p crypto_prims_scheme \<Rightarrow> string \<Rightarrow> string \<Rightarrow> (api_error + address) option" where
  "wallet_address P m s \<equiv> Some (map_err (bad_request m) (address_from_hex P s))"

abbreviation wallet_value :: "string \<Rightarrow> (api_error + u128) option" where
  "wallet_value s \<equiv> Some (ok_or (BadRequest ''Invalid value'') (parse_uint s))"

definition send_transfer_handler :: "('db, 'p) storage_prims_scheme \<Rightarrow> ('v, 'w, 'a) keystore_prims_scheme \<Rightarrow> nat \<Rightarrow> u64 \<Rightarrow> ('db, 'm) consensus_engine \<Rightarrow>
    'v wallet_transfer_request \<Rightarrow> ('db, 'm) wallet_result" where
  "send_transfer_handler P K now ts en req = submit_built P now en (
     and_then_o (decrypt_keystore K (wt_keystore req) (wt_password req)) (\<lambda>kp.
     let from = keypair_address P kp in
     and_then_o (wallet_address P ''Invalid to address: '' (wt_to req)) (\<lambda>to.
     and_then_o (wallet_value (wt_value req)) (\<lambda>v.
     and_then_o (Some (wallet_get_nonce P en from)) (\<lambda>n.
       Some (Ok (kp, \<lparr>tx_chain_id = get_chain_id P en, tx_nonce = n, tx_from = from, tx_to = Some to, tx_value = v, tx_type = Transfer,
         tx_gas_limit = unwrap_or 21000 (wt_gas_limit req), tx_gas_price = unwrap_or 1 (wt_gas_price req), tx_data = [],
         tx_timestamp = ts\<rparr>)))))))"

text \<open>The requests to stake and to unstake have the same fields, and their handlers differ in the type of the transaction.\<close>

definition send_staking :: "tx_type \<Rightarrow> ('db, 'p) storage_prims_scheme \<Rightarrow> ('v, 'w, 'a) keystore_prims_scheme \<Rightarrow> nat \<Rightarrow> u64 \<Rightarrow> ('db, 'm) consensus_engine \<Rightarrow>
    'v wallet_stake_request \<Rightarrow> ('db, 'm) wallet_result" where
  "send_staking ty P K now ts en req = submit_built P now en (
     and_then_o (decrypt_keystore K (ws_keystore req) (ws_password req)) (\<lambda>kp.
     let from = keypair_address P kp in
     and_then_o (wallet_value (ws_value req)) (\<lambda>v.
     and_then_o (Some (wallet_get_nonce P en from)) (\<lambda>n.
       Some (Ok (kp, \<lparr>tx_chain_id = get_chain_id P en, tx_nonce = n, tx_from = from, tx_to = None, tx_value = v, tx_type = ty,
         tx_gas_limit = unwrap_or 50000 (ws_gas_limit req), tx_gas_price = unwrap_or 1 (ws_gas_price req), tx_data = [],
         tx_timestamp = ts\<rparr>))))))"

definition send_stake_handler :: "('db, 'p) storage_prims_scheme \<Rightarrow> ('v, 'w, 'a) keystore_prims_scheme \<Rightarrow> nat \<Rightarrow> u64 \<Rightarrow> ('db, 'm) consensus_engine \<Rightarrow>
    'v wallet_stake_request \<Rightarrow> ('db, 'm) wallet_result" where
  "send_stake_handler = send_staking Stake"

definition send_unstake_handler :: "('db, 'p) storage_prims_scheme \<Rightarrow> ('v, 'w, 'a) keystore_prims_scheme \<Rightarrow> nat \<Rightarrow> u64 \<Rightarrow> ('db, 'm) consensus_engine \<Rightarrow>
    'v wallet_stake_request \<Rightarrow> ('db, 'm) wallet_result" where
  "send_unstake_handler = send_staking Unstake"

definition deploy_contract_handler :: "('db, 'p) storage_prims_scheme \<Rightarrow> ('v, 'w, 'a) keystore_prims_scheme \<Rightarrow> nat \<Rightarrow> u64 \<Rightarrow> ('db, 'm) consensus_engine \<Rightarrow>
    'v wallet_deploy_request \<Rightarrow> ('db, 'm) wallet_result" where
  "deploy_contract_handler P K now ts en req = submit_built P now en (
     and_then_o (decrypt_keystore K (wd_keystore req) (wd_password req)) (\<lambda>kp.
     let from = keypair_address P kp in
     and_then_o (Some (map_err (\<lambda>e. BadRequest (''Invalid hex bytecode: '' @ e)) (hex_decode P (strip_0x (wd_bytecode req))))) (\<lambda>bytecode.
     if bytecode = [] then Some (Err (BadRequest ''Bytecode cannot be empty''))
     else and_then_o (Some (wallet_get_nonce P en from)) (\<lambda>n.
       Some (Ok (kp, \<lparr>tx_chain_id = get_chain_id P en, tx_nonce = n, tx_from = from, tx_to = None, tx_value = 0, tx_type = ContractDeploy,
         tx_gas_limit = unwrap_or 1000000 (wd_gas_limit req), tx_gas_price = unwrap_or 1 (wd_gas_price req), tx_data = bytecode,
         tx_timestamp = ts\<rparr>))))))"

definition call_contract_handler :: "('db, 'p) storage_prims_scheme \<Rightarrow> ('v, 'w, 'a) keystore_prims_scheme \<Rightarrow> nat \<Rightarrow> u64 \<Rightarrow> ('db, 'm) consensus_engine \<Rightarrow>
    'v wallet_call_request \<Rightarrow> ('db, 'm) wallet_result" where
  "call_contract_handler P K now ts en req = submit_built P now en (
     and_then_o (decrypt_keystore K (wc_keystore req) (wc_password req)) (\<lambda>kp.
     let from = keypair_address P kp in
     and_then_o (wallet_address P ''Invalid contract address: '' (wc_contract req)) (\<lambda>contract.
     and_then_o (wallet_value (unwrap_or ''0'' (wc_value req))) (\<lambda>v.
     let args_hex = strip_0x (unwrap_or '''' (wc_args req)) in
     and_then_o (if args_hex = '''' then Some (Ok [])
       else Some (map_err (\<lambda>e. BadRequest (''Invalid hex args: '' @ e)) (hex_decode P args_hex))) (\<lambda>args.
     and_then_o (Some (wallet_get_nonce P en from)) (\<lambda>n.
       Some (Ok (kp, \<lparr>tx_chain_id = get_chain_id P en, tx_nonce = n, tx_from = from, tx_to = Some contract, tx_value = v, tx_type = ContractCall,
         tx_gas_limit = unwrap_or 500000 (wc_gas_limit req), tx_gas_price = unwrap_or 1 (wc_gas_price req),
         tx_data = call_data (wc_function req) args, tx_timestamp = ts\<rparr>))))))))"

section \<open>What is created can be used\<close>

lemma created_keystore_opens:
  assumes "aead_correct K" "json_correct K" "encrypt_keypair K salt n kp pw = Ok ks"
  shows "decrypt_keystore K ks pw = Some (Ok kp)"
proof -
  obtain bs where bs: "keystore_encrypt K salt n kp pw = Ok bs" "json_value K bs = Ok ks"
    using assms(3) by (auto simp: encrypt_keypair_def result_simps)
  obtain doc where doc: "json_of_keystore K doc = Ok bs" using bs(1) by (auto simp: keystore_encrypt_def result_simps)
  obtain v bs' where "json_value K bs = Ok v" "json_bytes K v = Ok bs'" "keystore_of_json K bs' = Ok doc" "keystore_of_json K bs = Ok doc"
    using assms(2) doc unfolding json_correct_def by blast
  then show ?thesis using bs(2) keystore_encrypted [OF assms(1) bs(1) _ assms(2), of bs'] by (simp add: decrypt_keystore_def)
qed

text \<open>The transaction a transfer request stands for, and what becomes of it.\<close>

definition transfer_tx :: "('db, 'p) storage_prims_scheme \<Rightarrow> ('db, 'm) consensus_engine \<Rightarrow> u64 \<Rightarrow> key_pair \<Rightarrow> address \<Rightarrow> u128 \<Rightarrow> u64 \<Rightarrow>
    'v wallet_transfer_request \<Rightarrow> transaction" where
  "transfer_tx P en ts kp to v n req = \<lparr>tx_chain_id = get_chain_id P en, tx_nonce = n, tx_from = keypair_address P kp, tx_to = Some to,
     tx_value = v, tx_type = Transfer, tx_gas_limit = unwrap_or 21000 (wt_gas_limit req), tx_gas_price = unwrap_or 1 (wt_gas_price req),
     tx_data = [], tx_timestamp = ts\<rparr>"

lemma send_transfer_built:
  assumes "decrypt_keystore K (wt_keystore req) (wt_password req) = Some (Ok kp)" "address_from_hex P (wt_to req) = Ok to"
    "parse_uint (wt_value req) = Some v" "wallet_get_nonce P en (keypair_address P kp) = Ok n"
  shows "send_transfer_handler P K now ts en req = submit_built P now en (Some (Ok (kp, transfer_tx P en ts kp to v n req)))"
  using assms by (simp add: send_transfer_handler_def transfer_tx_def Let_def)

lemma submit_built_verified:
  assumes "ed25519_correct P" "tx_wf tx" "tx_from tx = keypair_address P kp" "stx = signed_transaction_new P tx kp"
  shows "submit_built P now en (Some (Ok (kp, tx))) = (case on_transaction_received P now stx en of (r, en') \<Rightarrow>
    (Some (map_ok (\<lambda>_. api_ok \<lparr>wr_tx_hash = hash_display P (stx_hash stx), wr_from = address_to_hex P (tx_from tx), wr_nonce = tx_nonce tx\<rparr>)
       (map_err api_consensus r)), en'))"
proof -
  have "stx_transaction stx = tx" by (simp add: assms(4) signed_transaction_new_def Let_def)
  moreover have "stx_verify P stx = Ok ()" unfolding assms(4) by (rule stx_verify_new [OF assms(1-3)])
  moreover have "map_ok f (map_ok g r) = map_ok (f \<circ> g) r" for f g and r :: "api_error + unit" by (cases r) auto
  ultimately show ?thesis
    by (auto simp: submit_built_def sign_and_submit_def verify_and_submit_def assms(4) [symmetric] Let_def comp_def split: prod.splits)
qed

text \<open>
  An account created through the API is usable. Its phrase, imported with the same password, gives
  the same address and public key again; and with the key file and the password the API signs
  transfers from the returned address, with the chain's identifier and the account's nonce, and hands
  them to the engine.
\<close>

theorem wallet_account_usable:
  assumes "ed25519_correct P" "aead_correct K" "json_correct K" "bip39_correct K"
    and "create_account_handler P K random salt n req = Ok resp"
  shows "\<exists>acct kp. resp = api_ok acct \<and> cr_address acct = address_to_hex P (keypair_address P kp) \<and>
    (\<forall>salt' n' resp'. import_mnemonic P K salt' n' \<lparr>im_mnemonic = cr_mnemonic acct, im_password = ca_password req\<rparr> = Ok resp' \<longrightarrow>
       (\<exists>i. resp' = api_ok i \<and> ir_address i = cr_address acct \<and> ir_public_key i = cr_public_key acct)) \<and>
    (\<forall>treq to v nonce now ts. wt_keystore treq = cr_keystore acct \<and> wt_password treq = ca_password req \<and>
       address_from_hex P (wt_to treq) = Ok to \<and> parse_uint (wt_value treq) = Some v \<and>
       wallet_get_nonce P en (keypair_address P kp) = Ok nonce \<and> tx_wf (transfer_tx P en ts kp to v nonce treq) \<longrightarrow>
       (let tx = transfer_tx P en ts kp to v nonce treq; stx = signed_transaction_new P tx kp in
        send_transfer_handler P K now ts en treq = (case on_transaction_received P now stx en of (r, en') \<Rightarrow>
          (Some (map_ok (\<lambda>_. api_ok \<lparr>wr_tx_hash = hash_display P (stx_hash stx), wr_from = cr_address acct, wr_nonce = nonce\<rparr>)
             (map_err api_consensus r)), en'))))"
proof -
  obtain m kp ks where c: "to_keypair K m (ca_password req) = Ok kp" "encrypt_keypair K salt n kp (ca_password req) = Ok ks"
      "ca_password req \<noteq> ''''" "resp = api_ok \<lparr>cr_address = address_to_hex P (keypair_address P kp), cr_mnemonic = phrase K m,
          cr_public_key = public_key_to_hex P (keypair_public_key P kp), cr_keystore = ks\<rparr>"
    using assms(5) by (auto simp: create_account_handler_def Let_def result_simps split: if_splits)
  note opens = created_keystore_opens [OF assms(2, 3) c(2)]
  have imp: "\<exists>i. resp' = api_ok i \<and> ir_address i = address_to_hex P (keypair_address P kp) \<and>
      ir_public_key i = public_key_to_hex P (keypair_public_key P kp)"
    if "import_mnemonic P K salt' n' \<lparr>im_mnemonic = phrase K m, im_password = ca_password req\<rparr> = Ok resp'" for salt' n' resp'
    using that assms(4) c(1) by (auto simp: import_mnemonic_def mnemonic_from_phrase_def bip39_correct_def phrase_def import_response_def
        result_simps split: if_splits)
  have send: "send_transfer_handler P K now ts en treq = (case on_transaction_received P now stx en of (r, en') \<Rightarrow>
          (Some (map_ok (\<lambda>_. api_ok \<lparr>wr_tx_hash = hash_display P (stx_hash stx), wr_from = address_to_hex P (keypair_address P kp), wr_nonce = nonce\<rparr>)
             (map_err api_consensus r)), en'))"
    if "wt_keystore treq = ks" "wt_password treq = ca_password req" "address_from_hex P (wt_to treq) = Ok to"
      "parse_uint (wt_value treq) = Some v" "wallet_get_nonce P en (keypair_address P kp) = Ok nonce"
      "tx_wf (transfer_tx P en ts kp to v nonce treq)" "stx = signed_transaction_new P (transfer_tx P en ts kp to v nonce treq) kp"
    for treq to v nonce now ts stx
    using send_transfer_built [of K treq kp P to v en nonce now ts] opens that
      submit_built_verified [OF assms(1) that(6) _ that(7), of now en] by (simp add: transfer_tx_def)
  show ?thesis
    by (intro exI [of _ "\<lparr>cr_address = address_to_hex P (keypair_address P kp), cr_mnemonic = phrase K m,
          cr_public_key = public_key_to_hex P (keypair_public_key P kp), cr_keystore = ks\<rparr>"] exI [of _ kp])
      (use c(4) imp send in \<open>auto simp: Let_def\<close>)
qed

lemma example_encrypt: "encrypt_keypair example_keystore_prims 1 2 example_kp pw = Ok [7]"
  using example_save(1) [of "[]" pw "[]"]
  by (auto simp: encrypt_keypair_def save_to_file_def result_simps example_kp_def example_keystore_prims_def)

theorem wallet_account_usable_witness:
  "\<exists>acct i. create_account_handler example_chain_prims example_keystore_prims (\<lambda>_. [65]) 1 2 \<lparr>ca_password = ''pw'', ca_word_count = None\<rparr> = Ok (api_ok acct) \<and>
     import_mnemonic example_chain_prims example_keystore_prims 1 2 \<lparr>im_mnemonic = cr_mnemonic acct, im_password = ''pw''\<rparr> = Ok (api_ok i) \<and>
     ir_address i = cr_address acct"
proof -
  let ?P = example_chain_prims and ?K = example_keystore_prims
  have key: "to_keypair ?K m pw = Ok example_kp" for m pw
    by (simp add: to_keypair_def example_keystore_prims_def keypair_from_bytes_def example_kp_def)
  have gen: "mnemonic_generate ?K (\<lambda>_. [65]) 12 = Ok [65]" by (simp add: mnemonic_generate_def example_keystore_prims_def)
  obtain resp where resp: "create_account_handler ?P ?K (\<lambda>_. [65]) 1 2 \<lparr>ca_password = ''pw'', ca_word_count = None\<rparr> = Ok resp"
    by (simp add: create_account_handler_def gen key example_encrypt)
  have parse: "mnemonic_from_phrase ?K ph = Ok (string_bytes ph)" for ph
    by (simp add: mnemonic_from_phrase_def example_keystore_prims_def)
  from wallet_account_usable [OF example_chain_crypto(1) example_keystore_correct resp, where en = "prod_engine pay_pool"] obtain acct where acct: "resp = api_ok acct"
    and imp: "\<forall>salt' n' resp'. import_mnemonic ?P ?K salt' n' \<lparr>im_mnemonic = cr_mnemonic acct, im_password = ''pw''\<rparr> = Ok resp' \<longrightarrow>
       (\<exists>i. resp' = api_ok i \<and> ir_address i = cr_address acct \<and> ir_public_key i = cr_public_key acct)"
    by (elim exE conjE, unfold create_account_request.simps) (rule that)
  obtain r where "import_mnemonic ?P ?K 1 2 \<lparr>im_mnemonic = cr_mnemonic acct, im_password = ''pw''\<rparr> = Ok r"
    by (simp add: import_mnemonic_def parse key import_response_def example_encrypt)
  with imp resp acct show ?thesis by blast
qed

section \<open>Two transactions in one block\<close>

lemma verify_and_submit_Ok:
  assumes "verify_and_submit P now stx en = (Ok (), en')"
  shows "engine_storage en' = engine_storage en" "hm_get (tp_pending (ce_tx_pool en)) h = Some p \<Longrightarrow> hm_get (tp_pending (ce_tx_pool en')) h = Some p"
    "pool_get (ce_tx_pool en') (stx_hash stx) = Some stx" "pool_get (ce_tx_pool en) (stx_hash stx) = None"
  using assms
  by (auto simp: verify_and_submit_def on_transaction_received_def pool_insert_def send_event_def result_simps pool_get_def Let_def hm_contains_def
      split: sum.splits if_splits)

lemma same_nonce_once:
  assumes "rocks_ok P" "list_all (\<lambda>stx. \<not> is_deploy stx) (bk_transactions b)" "i < j" "j < length (bk_transactions b)" "length (bk_transactions b) < 2 ^ 64"
    and "sender (bk_transactions b ! i) = sender (bk_transactions b ! j)"
    and "tx_nonce (stx_transaction (bk_transactions b ! i)) = tx_nonce (stx_transaction (bk_transactions b ! j))"
    and "admitted P (bk_transactions b ! i) (exec_prefix P W s b E i)"
  shows "\<not> admitted P (bk_transactions b ! j) (exec_prefix P W s b E j)"
proof -
  let ?a = "sender (bk_transactions b ! i)" and ?n = "tx_nonce (stx_transaction (bk_transactions b ! i))" and ?e = "enumerate 0 (bk_transactions b)"
  have n1: "nonce_at P (exec_prefix P W s b E (Suc i)) ?a = ?n + 1"
    using exec_tx_nonce [OF assms(1), of "bk_transactions b ! i" W b i "exec_prefix P W s b E i" ?a] assms(2-4, 8)
    by (auto simp: exec_prefix_Suc admitted_def nonce_at_def list_all_length)
  have split: "take j ?e = take (Suc i) ?e @ drop (Suc i) (take j ?e)" using assms(3) by (metis Suc_leI append_take_drop_id min.absorb1 take_take)
  have "list_all (\<lambda>(i, stx). \<not> is_deploy stx) (drop (Suc i) (take j ?e))"
    using assms(2) list_all_enumerate [of "\<lambda>stx. \<not> is_deploy stx" 0 "bk_transactions b"]
    unfolding list_all_iff by (meson in_set_dropD in_set_takeD)
  moreover have "exec_prefix P W s b E j = fold (exec_tx P W b) (drop (Suc i) (take j ?e)) (exec_prefix P W s b E (Suc i))"
    unfolding exec_prefix_def by (subst split) simp
  ultimately obtain k where k: "k \<le> j - Suc i" "nonce_at P (exec_prefix P W s b E j) ?a = ?n + 1 + of_nat k"
    using exec_fold_nonce [OF assms(1), of "drop (Suc i) (take j ?e)" W b "exec_prefix P W s b E (Suc i)" ?a] n1 assms(4) by auto
  have "Suc k < 2 ^ 64" using k(1) assms(3-5) by simp
  then have "unat (of_nat (Suc k) :: nonce) = Suc k" by (simp add: unat_of_nat del: of_nat_Suc)
  then have "of_nat (Suc k) \<noteq> (0 :: nonce)" by (metis unat_0 Zero_not_Suc)
  then show ?thesis using k(2) assms(6, 7) by (auto simp: admitted_def nonce_at_def algebra_simps)
qed

lemma send_transfer_Ok:
  assumes "send_transfer_handler P K now ts en req = (Some (Ok resp), en')"
  obtains kp to v n stx where "decrypt_keystore K (wt_keystore req) (wt_password req) = Some (Ok kp)"
    "wallet_get_nonce P en (keypair_address P kp) = Ok n" "stx = signed_transaction_new P (transfer_tx P en ts kp to v n req) kp"
    "verify_and_submit P now stx en = (Ok (), en')"
proof -
  let ?built = "and_then_o (decrypt_keystore K (wt_keystore req) (wt_password req)) (\<lambda>kp.
     and_then_o (wallet_address P ''Invalid to address: '' (wt_to req)) (\<lambda>to.
     and_then_o (wallet_value (wt_value req)) (\<lambda>v.
     and_then_o (Some (wallet_get_nonce P en (keypair_address P kp))) (\<lambda>n. Some (Ok (kp, transfer_tx P en ts kp to v n req))))))"
  have run: "submit_built P now en ?built = (Some (Ok resp), en')"
    using assms by (simp add: send_transfer_handler_def transfer_tx_def Let_def)
  then obtain kp tx where "?built = Some (Ok (kp, tx))" by (auto simp: submit_built_def split: option.splits sum.splits)
  then obtain to v n where b: "decrypt_keystore K (wt_keystore req) (wt_password req) = Some (Ok kp)"
      "wallet_get_nonce P en (keypair_address P kp) = Ok n" "tx = transfer_tx P en ts kp to v n req" "?built = Some (Ok (kp, tx))"
    by (auto simp: and_then_o_Ok)
  then show thesis using run that [of kp n "signed_transaction_new P tx kp" to v]
    by (auto simp: submit_built_def sign_and_submit_def Let_def map_ok_eq_Ok split: prod.splits)
qed

text \<open>
  C36 (transfers sent in a row collide). The nonce of a transfer is the one the account has in the
  database, whatever is waiting in the pool. So two transfers sent from one account before the next
  block are both accepted and pooled with the same nonce, and of the two a block executes at most one.
\<close>

theorem wallet_transfers_collide:
  assumes "send_transfer_handler P K now ts en req = (Some (Ok resp), en')"
    and "send_transfer_handler P K now' ts' en' req' = (Some (Ok resp'), en'')"
    and "wt_keystore req' = wt_keystore req" "wt_password req' = wt_password req"
  shows "\<exists>stx stx'. stx \<noteq> stx' \<and> pool_get (ce_tx_pool en'') (stx_hash stx) = Some stx \<and> pool_get (ce_tx_pool en'') (stx_hash stx') = Some stx' \<and>
    sender stx = sender stx' \<and> tx_nonce (stx_transaction stx) = tx_nonce (stx_transaction stx') \<and>
    (\<forall>W s b E i j. rocks_ok P \<and> list_all (\<lambda>x. \<not> is_deploy x) (bk_transactions b) \<and> length (bk_transactions b) < 2 ^ 64 \<and>
       i < length (bk_transactions b) \<and> j < length (bk_transactions b) \<and> bk_transactions b ! i = stx \<and> bk_transactions b ! j = stx' \<longrightarrow>
       \<not> (admitted P stx (exec_prefix P W s b E i) \<and> admitted P stx' (exec_prefix P W s b E j)))"
proof -
  obtain kp to v n stx where a: "decrypt_keystore K (wt_keystore req) (wt_password req) = Some (Ok kp)"
      "wallet_get_nonce P en (keypair_address P kp) = Ok n" "stx = signed_transaction_new P (transfer_tx P en ts kp to v n req) kp"
      "verify_and_submit P now stx en = (Ok (), en')" by (rule send_transfer_Ok [OF assms(1)])
  obtain kp' to' v' n' stx' where b: "decrypt_keystore K (wt_keystore req') (wt_password req') = Some (Ok kp')"
      "wallet_get_nonce P en' (keypair_address P kp') = Ok n'" "stx' = signed_transaction_new P (transfer_tx P en' ts' kp' to' v' n' req') kp'"
      "verify_and_submit P now' stx' en' = (Ok (), en'')" by (rule send_transfer_Ok [OF assms(2)])
  note pa = verify_and_submit_Ok [OF a(4)] and pb = verify_and_submit_Ok [OF b(4)]
  have same: "kp' = kp" "n' = n" using a(1, 2) b(1, 2) assms(3, 4) pa(1) by (auto simp: wallet_get_nonce_def)
  have who: "sender stx = sender stx'" "tx_nonce (stx_transaction stx) = tx_nonce (stx_transaction stx')"
    by (simp_all add: a(3) b(3) same signed_transaction_new_def transfer_tx_def sender_def Let_def)
  have pooled: "pool_get (ce_tx_pool en'') (stx_hash stx) = Some stx" "stx \<noteq> stx'"
    using pa(3) pb(2) pb(4) by (auto simp: pool_get_def split: option.splits)
  have "\<not> (admitted P stx (exec_prefix P W s b E i) \<and> admitted P stx' (exec_prefix P W s b E j))"
    if "rocks_ok P" "list_all (\<lambda>x. \<not> is_deploy x) (bk_transactions b)" "length (bk_transactions b) < 2 ^ 64"
      "i < length (bk_transactions b)" "j < length (bk_transactions b)" "bk_transactions b ! i = stx" "bk_transactions b ! j = stx'" for W s b E i j
    using same_nonce_once [of P b i j W s E] same_nonce_once [of P b j i W s E] that who pooled(2) by (cases i j rule: linorder_cases) auto
  then show ?thesis using pooled who pb(3) by blast
qed

text \<open>An example: two transfers in a row, on an empty database, with a serialization that shows the amount.\<close>

definition example_wallet_prims :: "mem_db storage_prims" where
  "example_wallet_prims = example_chain_prims\<lparr>blake3 := \<lambda>bs. ucast (from_le_bytes (take 16 bs) :: u128),
     ser_transaction := \<lambda>tx. to_le_bytes (tx_value tx)\<rparr>"

definition example_wallet_engine :: "(mem_db, unit) consensus_engine" where
  "example_wallet_engine = (prod_engine (pool_new 10 1))\<lparr>ce_chain_state := pay_state\<lparr>cs_storage := Map.empty\<rparr>\<rparr>"

definition example_transfer :: "u128 \<Rightarrow> bytes wallet_transfer_request" where
  "example_transfer v = \<lparr>wt_keystore = [7], wt_password = ''pw'', wt_to = address_to_hex example_wallet_prims 5, wt_value = show_word v,
     wt_gas_limit = None, wt_gas_price = None\<rparr>"

lemma example_wallet_hash: "stx_hash (signed_transaction_new example_wallet_prims tx kp) = ucast (tx_value tx)"
  by (simp add: signed_transaction_new_def hash_def example_wallet_prims_def Let_def le128.enc_width le128.dec_enc)

lemma example_wallet_send:
  assumes "engine_storage en = Map.empty" "length (tp_pending (ce_tx_pool en)) < tp_max_size (ce_tx_pool en)" "tp_min_gas_price (ce_tx_pool en) \<le> 1"
    "\<not> hm_contains (ucast v) (tp_pending (ce_tx_pool en))"
  shows "\<exists>resp en' p. send_transfer_handler example_wallet_prims example_keystore_prims now ts en (example_transfer v) = (Some (Ok resp), en') \<and>
    engine_storage en' = Map.empty \<and> tp_pending (ce_tx_pool en') = hm_put (ucast v) p (tp_pending (ce_tx_pool en)) \<and>
    tp_max_size (ce_tx_pool en') = tp_max_size (ce_tx_pool en) \<and> tp_min_gas_price (ce_tx_pool en') = tp_min_gas_price (ce_tx_pool en)"
proof -
  let ?P = example_wallet_prims and ?K = example_keystore_prims
  have crypto: "ed25519_correct ?P" "hex_correct ?P"
    using example_chain_crypto by (simp_all add: example_wallet_prims_def ed25519_correct_def hex_correct_def)
  have opens: "decrypt_keystore ?K [7] ''pw'' = Some (Ok example_kp)"
    by (rule created_keystore_opens [OF example_keystore_correct(1, 2) example_encrypt])
  have nonce: "wallet_get_nonce ?P en a = Ok 0" for a
    using assms(1) by (simp add: wallet_get_nonce_def get_account_def get_typed_def get_cf_def example_wallet_prims_def example_chain_prims_def mem_prims_def block_prims.defs)
  let ?tx = "transfer_tx ?P en ts example_kp 5 v 0 (example_transfer v)"
  let ?stx = "signed_transaction_new ?P ?tx example_kp"
  have wf: "tx_wf ?tx" by (simp add: tx_wf_def transfer_tx_def example_transfer_def)
  have ver: "stx_verify ?P ?stx = Ok ()" by (rule stx_verify_new [OF crypto(1) wf]) (simp add: transfer_tx_def)
  have stx: "stx_transaction ?stx = ?tx" "stx_hash ?stx = ucast v"
    by (simp_all add: example_wallet_hash transfer_tx_def) (simp add: signed_transaction_new_def Let_def)
  have "send_transfer_handler ?P ?K now ts en (example_transfer v) = submit_built ?P now en (Some (Ok (example_kp, ?tx)))"
    by (rule send_transfer_built) (simp_all add: example_transfer_def opens nonce address_hex_roundtrip [OF crypto(2)])
  also have "\<dots> = (case on_transaction_received ?P now ?stx en of (r, en') \<Rightarrow>
    (Some (map_ok (\<lambda>_. api_ok \<lparr>wr_tx_hash = hash_display ?P (stx_hash ?stx), wr_from = address_to_hex ?P (tx_from ?tx), wr_nonce = tx_nonce ?tx\<rparr>)
       (map_err api_consensus r)), en'))"
    by (rule submit_built_verified [OF crypto(1) wf _ refl]) (simp add: transfer_tx_def)
  finally have run: "send_transfer_handler ?P ?K now ts en (example_transfer v) = \<dots>" .
  have gas: "tx_gas_price ?tx = 1" by (simp add: transfer_tx_def example_transfer_def)
  show ?thesis unfolding run using assms
    by (simp add: on_transaction_received_def pool_insert_def ver stx gas Let_def send_event_def not_less [symmetric]) (rule exI, rule refl)
qed

theorem wallet_transfers_collide_witness:
  "\<exists>en' en'' :: (mem_db, unit) consensus_engine. \<exists>resp resp' stx stx'.
     send_transfer_handler example_wallet_prims example_keystore_prims 0 1 example_wallet_engine (example_transfer 3) = (Some (Ok resp), en') \<and>
     send_transfer_handler example_wallet_prims example_keystore_prims 0 2 en' (example_transfer 4) = (Some (Ok resp'), en'') \<and>
     stx \<noteq> stx' \<and> tx_nonce (stx_transaction stx) = tx_nonce (stx_transaction stx') \<and> pool_get (ce_tx_pool en'') (stx_hash stx) = Some stx"
proof -
  have en: "engine_storage example_wallet_engine = Map.empty" "ce_tx_pool example_wallet_engine = pool_new 10 1"
    by (simp_all add: example_wallet_engine_def prod_engine_def)
  obtain resp en' p where a: "send_transfer_handler example_wallet_prims example_keystore_prims 0 1 example_wallet_engine (example_transfer 3) = (Some (Ok resp), en')"
      "engine_storage en' = Map.empty" "tp_pending (ce_tx_pool en') = hm_put 3 p []" "tp_max_size (ce_tx_pool en') = 10" "tp_min_gas_price (ce_tx_pool en') = 1"
    using example_wallet_send [of example_wallet_engine 3 0 1] by (auto simp: en pool_new_def hm_contains_def)
  obtain resp' en'' where b: "send_transfer_handler example_wallet_prims example_keystore_prims 0 2 en' (example_transfer 4) = (Some (Ok resp'), en'')"
    using example_wallet_send [of en' 4 0 2] a(2-) by (auto simp: hm_contains_def)
  obtain stx stx' where "stx \<noteq> stx'" "tx_nonce (stx_transaction stx) = tx_nonce (stx_transaction stx')" "pool_get (ce_tx_pool en'') (stx_hash stx) = Some stx"
    using wallet_transfers_collide [OF a(1) b] by (auto simp: example_transfer_def)
  with a(1) b show ?thesis by blast
qed

end
