(* ===== verification/Api_Bridge.thy ===== *)
theory Api_Bridge
  imports Api Bridge Htlc
begin

text \<open>
  The bridge routes of the HTTP interface (\<open>crates/api/src/routes/bridge.rs\<close>). \<open>bridge_router\<close> makes
  the swap manager, the bridge state, the validators and the relayer that all requests share; a
  handler takes them and gives its response and what they are afterwards. The relayer's record holds
  the bridge state and the validators, which in the sources it shares with the routes.

  Shown: whatever is requested, the parts behind the routes only do what histories of the swap manager
  and of the relayer do, so what is proved of those holds of the running service; and no transfer
  requested here is ever confirmed, while the liquidity reported counts it as locked.
\<close>

section \<open>Display of bridge errors\<close>

fun bridge_error_to_string :: "bridge_error \<Rightarrow> string" where
  "bridge_error_to_string (UnsupportedChain s) = ''Unsupported chain: '' @ s"
| "bridge_error_to_string (InvalidAmount s) = ''Invalid amount: '' @ s"
| "bridge_error_to_string (HtlcNotFound s) = ''HTLC not found: '' @ s"
| "bridge_error_to_string (HtlcAlreadyExists s) = ''HTLC already exists: '' @ s"
| "bridge_error_to_string HtlcExpired = ''HTLC expired''"
| "bridge_error_to_string HtlcNotExpired = ''HTLC not expired yet''"
| "bridge_error_to_string HtlcAlreadyClaimed = ''HTLC already claimed''"
| "bridge_error_to_string HtlcAlreadyRefunded = ''HTLC already refunded''"
| "bridge_error_to_string InvalidPreimage = ''Invalid hash preimage''"
| "bridge_error_to_string (Unauthorized s) = ''Unauthorized: '' @ s"
| "bridge_error_to_string (TransferNotFound s) = ''Bridge transfer not found: '' @ s"
| "bridge_error_to_string TransferAlreadyProcessed = ''Bridge transfer already processed''"
| "bridge_error_to_string InsufficientLiquidity = ''Insufficient bridge liquidity''"
| "bridge_error_to_string (InsufficientSignatures needed got) =
     ''Insufficient validator signatures: need '' @ show_nat needed @ '', got '' @ show_nat got"
| "bridge_error_to_string BridgeInvalidSignature = ''Invalid validator signature''"
| "bridge_error_to_string (AdapterError s) = ''Chain adapter error: '' @ s"
| "bridge_error_to_string BridgePaused = ''Bridge paused''"
| "bridge_error_to_string (BelowMinimum lo got) = ''Amount below minimum: min '' @ show_word lo @ '', got '' @ show_word got"
| "bridge_error_to_string (AboveMaximum hi got) = ''Amount above maximum: max '' @ show_word hi @ '', got '' @ show_word got"
| "bridge_error_to_string (BridgeStorage s) = ''Storage error: '' @ s"
| "bridge_error_to_string (BridgeSerialization s) = ''Serialization error: '' @ s"

section \<open>Shared state, requests and responses\<close>

record bridge_app_state =
  bp_htlc :: htlc_manager
  bp_relayer :: bridge_relayer
  bp_registry :: chain_registry

record token_info =
  ti_symbol :: string
  ti_name :: string
  ti_decimals :: u8
  ti_enabled :: bool
  ti_min_amount :: string
  ti_max_amount :: string
  ti_fee_bps :: u16

record chain_info_response =
  cx_name :: string
  cx_symbol :: string
  cx_chain_id :: u64
  cx_is_evm :: bool
  cx_tokens :: "token_info list"

record supported_chains_response =
  sc_chains :: "chain_info_response list"

record create_htlc_request =
  ch_sender :: string
  ch_recipient :: string
  ch_amount :: string
  ch_hash_lock :: string
  ch_external_chain :: string
  ch_external_address :: string
  ch_external_amount :: string
  ch_timelock :: "u64 option"

record claim_htlc_request =
  cq_swap_id :: string
  cq_preimage :: string
  cq_claimer :: string

record refund_htlc_request =
  rq_swap_id :: string
  rq_refunder :: string

record initiate_transfer_request =
  iq_sender :: string
  iq_dest_chain :: string
  iq_recipient :: string
  iq_token_symbol :: string
  iq_amount :: string

record confirm_transfer_request =
  fq_transfer_id :: string
  fq_validator :: string

record bridge_stats_response =
  bq_total_transfers :: nat
  bq_pending_transfers :: nat
  bq_active_htlcs :: nat
  bq_supported_chains :: nat
  bq_bridge_validators :: nat
  bq_liquidity :: "bridge_liquidity list"

section \<open>Handlers that read\<close>

definition token_info_of :: "bridge_token \<Rightarrow> token_info" where
  "token_info_of t = \<lparr>ti_symbol = bt_symbol t, ti_name = bt_name t, ti_decimals = bt_decimals t, ti_enabled = bt_enabled t,
     ti_min_amount = show_word (bt_min_amount t), ti_max_amount = show_word (bt_max_amount t), ti_fee_bps = bt_fee_bps t\<rparr>"

definition list_chains_handler :: "bridge_app_state \<Rightarrow> supported_chains_response api_response" where
  "list_chains_handler st = api_ok \<lparr>sc_chains = map (\<lambda>c. \<lparr>cx_name = ec_name c, cx_symbol = ec_symbol c, cx_chain_id = ec_chain_id c,
     cx_is_evm = is_evm c, cx_tokens = map token_info_of (tokens_for_chain (bp_registry st) c)\<rparr>) ec_all\<rparr>"

definition bridge_stats_handler :: "bridge_app_state \<Rightarrow> bridge_stats_response api_response" where
  "bridge_stats_handler st = (let r = bp_relayer st in
     api_ok \<lparr>bq_total_transfers = total_transfers (rl_state r), bq_pending_transfers = pending_transfers (rl_state r),
       bq_active_htlcs = htlc_active_count (bp_htlc st), bq_supported_chains = length ec_all,
       bq_bridge_validators = bvs_active_count (rl_validators r), bq_liquidity = get_liquidity (rl_state r)\<rparr>)"

definition fee_schedule_handler :: "bridge_app_state \<Rightarrow> bridge_fee_schedule list api_response" where
  "fee_schedule_handler st = api_ok get_fee_schedule"

definition liquidity_handler :: "bridge_app_state \<Rightarrow> bridge_liquidity list api_response" where
  "liquidity_handler st = api_ok (get_liquidity (rl_state (bp_relayer st)))"

definition list_transfers_handler :: "bridge_app_state \<Rightarrow> bridge_transfer list api_response" where
  "list_transfers_handler st = api_ok (list_transfers (rl_state (bp_relayer st)) 100 0)"

definition get_transfer_handler :: "bridge_app_state \<Rightarrow> string \<Rightarrow> api_error + bridge_transfer api_response" where
  "get_transfer_handler st i =
     map_ok api_ok (ok_or (ApiNotFound (''Transfer '' @ i @ '' not found'')) (get_transfer (rl_state (bp_relayer st)) i))"

definition list_htlcs_handler :: "bridge_app_state \<Rightarrow> htlc_swap list api_response" where
  "list_htlcs_handler st = api_ok (list_swaps (bp_htlc st) 100 0)"

definition get_htlc_handler :: "bridge_app_state \<Rightarrow> string \<Rightarrow> api_error + htlc_swap api_response" where
  "get_htlc_handler st i = map_ok api_ok (ok_or (ApiNotFound (''HTLC '' @ i @ '' not found'')) (get_swap (bp_htlc st) i))"

definition bridge_validators_handler :: "bridge_app_state \<Rightarrow> bridge_validator list api_response" where
  "bridge_validators_handler st = api_ok (bvs_list_validators (rl_validators (bp_relayer st)))"

section \<open>Handlers that write\<close>

definition named_address :: "'p crypto_prims_scheme \<Rightarrow> string \<Rightarrow> string \<Rightarrow> api_error + address" where
  "named_address P what s = map_err (\<lambda>e. BadRequest (''Invalid '' @ what @ '': '' @ crypto_error_to_string e)) (address_from_hex P s)"

definition named_chain :: "string \<Rightarrow> api_error + external_chain" where
  "named_chain s = ok_or (BadRequest (''Unsupported chain: '' @ s)) (from_name s)"

definition parse_amount :: "string \<Rightarrow> api_error + u128" where
  "parse_amount s = ok_or (BadRequest ''Invalid amount'') (parse_uint s)"

text \<open>The response to a call that has returned, with the prefix its error gets.\<close>

definition respond :: "string \<Rightarrow> bridge_error + 'a \<Rightarrow> api_error + 'a api_response" where
  "respond what r = map_ok api_ok (map_err (\<lambda>e. BadRequest (what @ '': '' @ bridge_error_to_string e)) r)"

definition initiate_transfer_args :: "'p crypto_prims_scheme \<Rightarrow> initiate_transfer_request \<Rightarrow> api_error + (address \<times> external_chain \<times> u128)" where
  "initiate_transfer_args P req =
     and_then (named_address P ''sender'' (iq_sender req)) (\<lambda>s.
     and_then (named_chain (iq_dest_chain req)) (\<lambda>c.
     and_then (parse_amount (iq_amount req)) (\<lambda>a.
       if a = 0 then Err (BadRequest ''Amount must be > 0'') else Ok (s, c, a))))"

definition initiate_transfer_handler :: "'p crypto_prims_scheme \<Rightarrow> (nat \<Rightarrow> u64) \<Rightarrow> bridge_app_state \<Rightarrow> initiate_transfer_request \<Rightarrow>
    (api_error + bridge_transfer api_response) \<times> bridge_app_state" where
  "initiate_transfer_handler P clock st req =
     (case initiate_transfer_args P req of
        Err e \<Rightarrow> (Err e, st)
      | Ok (s, c, a) \<Rightarrow>
          (case process_outbound_request P clock (bp_relayer st) s c (iq_recipient req) (iq_token_symbol req) a of
             (res, r) \<Rightarrow> (respond ''Bridge error'' res, st\<lparr>bp_relayer := r\<rparr>)))"

definition confirm_transfer_handler :: "'p crypto_prims_scheme \<Rightarrow> u64 \<Rightarrow> bridge_app_state \<Rightarrow> confirm_transfer_request \<Rightarrow>
    (api_error + bridge_transfer api_response) \<times> bridge_app_state" where
  "confirm_transfer_handler P now st req =
     (case named_address P ''validator'' (fq_validator req) of
        Err e \<Rightarrow> (Err e, st)
      | Ok v \<Rightarrow>
          (case submit_confirmation now (bp_relayer st) (fq_transfer_id req) v of
             (res, r) \<Rightarrow> (respond ''Confirmation error'' res, st\<lparr>bp_relayer := r\<rparr>)))"

definition decode_hash_lock :: "'p crypto_prims_scheme \<Rightarrow> string \<Rightarrow> api_error + 256 word" where
  "decode_hash_lock P s =
     and_then (map_err (\<lambda>e. BadRequest (''Invalid hash_lock hex: '' @ e)) (hex_decode P (strip_0x s))) (\<lambda>bs.
       if length bs \<noteq> 32 then Err (BadRequest ''hash_lock must be 32 bytes (64 hex chars)'') else Ok (from_be_bytes bs))"

definition create_htlc_args :: "'p crypto_prims_scheme \<Rightarrow> create_htlc_request \<Rightarrow>
    api_error + (address \<times> address \<times> u128 \<times> 256 word \<times> external_chain)" where
  "create_htlc_args P req =
     and_then (named_address P ''sender'' (ch_sender req)) (\<lambda>s.
     and_then (named_address P ''recipient'' (ch_recipient req)) (\<lambda>r.
     and_then (parse_amount (ch_amount req)) (\<lambda>a.
     and_then (decode_hash_lock P (ch_hash_lock req)) (\<lambda>h.
     and_then (named_chain (ch_external_chain req)) (\<lambda>c. Ok (s, r, a, h, c))))))"

definition create_htlc_handler :: "'p htlc_prims_scheme \<Rightarrow> u64 \<Rightarrow> bridge_app_state \<Rightarrow> create_htlc_request \<Rightarrow>
    (api_error + htlc_swap api_response) \<times> bridge_app_state" where
  "create_htlc_handler P now st req =
     (case create_htlc_args P req of
        Err e \<Rightarrow> (Err e, st)
      | Ok (s, r, a, h, c) \<Rightarrow>
          (case create_swap P now (bp_htlc st) s r a h c (ch_external_address req) (ch_external_amount req) (ch_timelock req) of
             (res, m) \<Rightarrow> (respond ''HTLC error'' res, st\<lparr>bp_htlc := m\<rparr>)))"

definition claim_htlc_args :: "'p crypto_prims_scheme \<Rightarrow> claim_htlc_request \<Rightarrow> api_error + (address \<times> bytes)" where
  "claim_htlc_args P req =
     and_then (named_address P ''claimer'' (cq_claimer req)) (\<lambda>a.
     and_then (map_err (\<lambda>e. BadRequest (''Invalid preimage hex: '' @ e)) (hex_decode P (strip_0x (cq_preimage req)))) (\<lambda>p. Ok (a, p)))"

definition claim_htlc_handler :: "'p htlc_prims_scheme \<Rightarrow> u64 \<Rightarrow> bridge_app_state \<Rightarrow> claim_htlc_request \<Rightarrow>
    (api_error + htlc_swap api_response) \<times> bridge_app_state" where
  "claim_htlc_handler P now st req =
     (case claim_htlc_args P req of
        Err e \<Rightarrow> (Err e, st)
      | Ok (a, p) \<Rightarrow>
          (case claim_swap P now (bp_htlc st) (cq_swap_id req) p a of
             (res, m) \<Rightarrow> (respond ''Claim error'' res, st\<lparr>bp_htlc := m\<rparr>)))"

definition refund_htlc_handler :: "'p crypto_prims_scheme \<Rightarrow> u64 \<Rightarrow> bridge_app_state \<Rightarrow> refund_htlc_request \<Rightarrow>
    (api_error + htlc_swap api_response) \<times> bridge_app_state" where
  "refund_htlc_handler P now st req =
     (case named_address P ''refunder'' (rq_refunder req) of
        Err e \<Rightarrow> (Err e, st)
      | Ok a \<Rightarrow>
          (case refund_swap now (bp_htlc st) (rq_swap_id req) a of
             (res, m) \<Rightarrow> (respond ''Refund error'' res, st\<lparr>bp_htlc := m\<rparr>)))"

definition bridge_router :: bridge_app_state where
  "bridge_router = \<lparr>bp_htlc = htlc_manager_new 3600,
     bp_relayer = bridge_relayer_new (bridge_state_new bridge_config_default) (bvs_new 2), bp_registry = chain_registry_new\<rparr>"

section \<open>A running service\<close>

datatype bridge_request =
    PostTransfer initiate_transfer_request
  | PostConfirm confirm_transfer_request
  | PostCreate create_htlc_request
  | PostClaim claim_htlc_request
  | PostRefund refund_htlc_request

text \<open>The status code of the answer and the state afterwards; \<open>200\<close> is success.\<close>

definition status_of :: "(api_error + 'a) \<times> bridge_app_state \<Rightarrow> nat \<times> bridge_app_state" where
  "status_of x = (case x of (Err e, st) \<Rightarrow> (fst (into_response e), st) | (Ok _, st) \<Rightarrow> (200, st))"

fun serve_bridge :: "'p htlc_prims_scheme \<Rightarrow> (nat \<Rightarrow> u64) \<Rightarrow> bridge_request \<Rightarrow> bridge_app_state \<Rightarrow> nat \<times> bridge_app_state" where
  "serve_bridge P clock (PostTransfer req) st = status_of (initiate_transfer_handler P clock st req)"
| "serve_bridge P clock (PostConfirm req) st = status_of (confirm_transfer_handler P (clock 0) st req)"
| "serve_bridge P clock (PostCreate req) st = status_of (create_htlc_handler P (clock 0) st req)"
| "serve_bridge P clock (PostClaim req) st = status_of (claim_htlc_handler P (clock 0) st req)"
| "serve_bridge P clock (PostRefund req) st = status_of (refund_htlc_handler P (clock 0) st req)"

inductive bridge_service :: "'p htlc_prims_scheme \<Rightarrow> nat \<Rightarrow> bridge_app_state \<Rightarrow> bool" for P where
  start: "bridge_service P 0 bridge_router"
| serve: "bridge_service P k st \<Longrightarrow> serve_bridge P clock req st = (code, st') \<Longrightarrow> bridge_service P (Suc k) st'"

section \<open>The service and the histories of its parts\<close>

lemma status_of_respond [simp]:
  "status_of (respond w (Ok x), st) = (200, st)" "status_of (respond w (Err e), st) = (400, st)"
  by (simp_all add: status_of_def respond_def)

lemma snd_status_of: "status_of x = (code, st') \<Longrightarrow> snd x = st'"
  by (auto simp: status_of_def split: prod.splits sum.splits)

text \<open>A request that reaches one of the parts makes one call of it; any other leaves everything alone.\<close>

lemma serve_bridge_cases:
  assumes "serve_bridge P clock req st = (code, st')"
  obtains (none) "st' = st"
  | (swap) now c where "st' = st\<lparr>bp_htlc := snd (htlc_call_exec P now c (bp_htlc st))\<rparr>"
  | (outbound) s c rc tok a res r where "process_outbound_request P clock (bp_relayer st) s c rc tok a = (res, r)" "st' = st\<lparr>bp_relayer := r\<rparr>"
  | (confirm) i v res r where "submit_confirmation (clock 0) (bp_relayer st) i v = (res, r)" "st' = st\<lparr>bp_relayer := r\<rparr>"
proof (cases req)
  case (PostTransfer q)
  then have "st' = snd (initiate_transfer_handler P clock st q)" using snd_status_of assms by fastforce
  then have "st' = st \<or> (\<exists>s c rc tok a res r. process_outbound_request P clock (bp_relayer st) s c rc tok a = (res, r) \<and> st' = st\<lparr>bp_relayer := r\<rparr>)"
    by (cases "initiate_transfer_args P q") (auto simp: initiate_transfer_handler_def split: prod.splits; blast)+
  then show thesis using none outbound by blast
next
  case (PostConfirm q)
  then have "st' = snd (confirm_transfer_handler P (clock 0) st q)" using snd_status_of assms by fastforce
  then have "st' = st \<or> (\<exists>i v res r. submit_confirmation (clock 0) (bp_relayer st) i v = (res, r) \<and> st' = st\<lparr>bp_relayer := r\<rparr>)"
    by (cases "named_address P ''validator'' (fq_validator q)") (auto simp: confirm_transfer_handler_def split: prod.splits; blast)+
  then show thesis using none confirm by blast
next
  case (PostCreate q)
  then have "st' = snd (create_htlc_handler P (clock 0) st q)" using snd_status_of assms by fastforce
  then have "st' = st \<or> (\<exists>s r a h c ea eam lock. st' = st\<lparr>bp_htlc := snd (create_swap P (clock 0) (bp_htlc st) s r a h c ea eam lock)\<rparr>)"
    by (cases "create_htlc_args P q") (auto simp: create_htlc_handler_def split_beta; blast)+
  then show thesis using none swap [of "clock 0" "CreateSwap _ _ _ _ _ _ _ _"] by (auto simp: htlc_call_exec_snd simp del: htlc_call_exec.simps)
next
  case (PostClaim q)
  then have "st' = snd (claim_htlc_handler P (clock 0) st q)" using snd_status_of assms by fastforce
  then have "st' = st \<or> (\<exists>i p a. st' = st\<lparr>bp_htlc := snd (claim_swap P (clock 0) (bp_htlc st) i p a)\<rparr>)"
    by (cases "claim_htlc_args P q") (auto simp: claim_htlc_handler_def split_beta; blast)+
  then show thesis using none swap [of "clock 0" "ClaimSwap _ _ _"] by (auto simp: htlc_call_exec_snd simp del: htlc_call_exec.simps)
next
  case (PostRefund q)
  then have "st' = snd (refund_htlc_handler P (clock 0) st q)" using snd_status_of assms by fastforce
  then have "st' = st \<or> (\<exists>i a. st' = st\<lparr>bp_htlc := snd (refund_swap (clock 0) (bp_htlc st) i a)\<rparr>)"
    by (cases "named_address P ''refunder'' (rq_refunder q)") (auto simp: refund_htlc_handler_def split_beta; blast)+
  then show thesis using none swap [of "clock 0" "RefundSwap _ _"] by (auto simp: htlc_call_exec_snd simp del: htlc_call_exec.simps)
qed

text \<open>There are no validators, so nothing is ever confirmed and every transfer stays as it was requested.\<close>

definition idle :: "bridge_app_state \<Rightarrow> bool" where
  "idle st \<longleftrightarrow> (let r = bp_relayer st in bvs_validators (rl_validators r) = [] \<and> bs_paused (rl_state r) = False \<and>
     bs_config (rl_state r) = bridge_config_default \<and> bs_wrapped (rl_state r) = [] \<and>
     (\<forall>(i, t) \<in> set (bs_transfers (rl_state r)). tr_direction t = Outbound \<and> tr_status t = Pending \<and> tr_confirmations t = 0))"

lemma submit_confirmation_idle:
  "idle st \<Longrightarrow> submit_confirmation now (bp_relayer st) i v = (Err (Unauthorized ''Not a bridge validator''), bp_relayer st)"
  by (simp add: submit_confirmation_def bvs_is_validator_def idle_def Let_def)

lemma set_hm_put: "(i, t) \<in> set (AList.update k v m) \<Longrightarrow> i = k \<and> t = v \<or> (i, t) \<in> set m"
  by (induction m) (auto split: if_splits)

lemma process_outbound_request_idle:
  assumes "idle st" "process_outbound_request P clock (bp_relayer st) s c rc tok a = (res, r)"
  shows "idle (st\<lparr>bp_relayer := r\<rparr>)"
  using assms by (auto simp: process_outbound_request_def initiate_outbound_def next_id_def idle_def Let_def
      dest!: set_hm_put split: if_splits)

lemma bridge_service_history:
  assumes "bridge_service P k st"
  shows "idle st \<and> (\<exists>ps. htlc_history P ps (bp_htlc st)) \<and> (\<exists>k' \<le> k. relay_history P bridge_config_default k' [] (bp_relayer st))"
  using assms
proof (induction rule: bridge_service.induct)
  case start
  show ?case by (auto simp: bridge_router_def idle_def bridge_relayer_new_def bridge_state_new_def bvs_new_def
        intro: htlc_history.start relay_history.start [unfolded bridge_relayer_new_def bridge_state_new_def bvs_new_def])
next
  case (serve k st clock req code st')
  obtain k' ps where IH: "idle st" "htlc_history P ps (bp_htlc st)" "k' \<le> k" "relay_history P bridge_config_default k' [] (bp_relayer st)"
    using serve.IH by blast
  from serve.hyps(2) show ?case
  proof (cases rule: serve_bridge_cases)
    case none
    then show ?thesis using IH le_SucI by blast
  next
    case (swap now c)
    obtain qs m where m: "htlc_call_exec P now c (bp_htlc st) = (qs, m)" by fastforce
    then have "htlc_history P (ps @ qs) m" "idle st'" using IH(1, 2) swap htlc_history.call by (blast, simp add: idle_def)
    then show ?thesis using swap m IH(3, 4) by (auto intro: le_SucI)
  next
    case (outbound s c rc tok a res r)
    then have "relay_history P bridge_config_default (Suc k') ([] @ []) r"
      by (intro relay_history.call [OF IH(4), of clock "OutboundRequest s c rc tok a"]) simp
    then show ?thesis using IH process_outbound_request_idle [OF IH(1) outbound(1)] outbound(2) by auto
  next
    case (confirm i v res r)
    then have "st' = st" using submit_confirmation_idle [OF IH(1)] by simp
    then show ?thesis using IH le_SucI by blast
  qed
qed

lemma named_address_hex: "hex_correct P \<Longrightarrow> named_address P what (address_to_hex P a) = Ok a"
  by (simp add: named_address_def address_hex_roundtrip)

lemma from_name_symbol' [simp]: "named_chain (ec_symbol c) = Ok c"
  by (simp add: named_chain_def from_name_symbol)

lemma decode_hash_lock_hex: "hex_correct P \<Longrightarrow> decode_hash_lock P (hex_encode P (to_be_bytes h)) = Ok h"
  by (simp add: decode_hash_lock_def hex_correct_def strip_0x_hex hash32.enc_width hash32.dec_enc)

text \<open>
  C15 (the bridge service implements the swap manager and the relayer). Whatever requests arrive, the
  swap manager behind the routes is one that a sequence of its own calls leads to, and so is the
  relayer, none of whose calls has confirmed or finalized anything. Conversely the routes give every
  client every call of the manager, in the name of any address: the answer to a request is that of
  the call, whoever sent it.
\<close>

theorem bridge_service_refines:
  assumes "hex_correct P" "bridge_service P k st"
  shows "(\<exists>ps. htlc_history P ps (bp_htlc st)) \<and> (\<exists>k' \<le> k. relay_history P bridge_config_default k' [] (bp_relayer st)) \<and>
    (\<forall>now s r a h c ea eam lock. create_htlc_handler P now st \<lparr>ch_sender = address_to_hex P s, ch_recipient = address_to_hex P r,
         ch_amount = show_word a, ch_hash_lock = hex_encode P (to_be_bytes h), ch_external_chain = ec_symbol c,
         ch_external_address = ea, ch_external_amount = eam, ch_timelock = lock\<rparr> =
       (case create_swap P now (bp_htlc st) s r a h c ea eam lock of (res, m) \<Rightarrow> (respond ''HTLC error'' res, st\<lparr>bp_htlc := m\<rparr>))) \<and>
    (\<forall>now i p a. claim_htlc_handler P now st \<lparr>cq_swap_id = i, cq_preimage = hex_encode P p, cq_claimer = address_to_hex P a\<rparr> =
       (case claim_swap P now (bp_htlc st) i p a of (res, m) \<Rightarrow> (respond ''Claim error'' res, st\<lparr>bp_htlc := m\<rparr>))) \<and>
    (\<forall>now i a. refund_htlc_handler P now st \<lparr>rq_swap_id = i, rq_refunder = address_to_hex P a\<rparr> =
       (case refund_swap now (bp_htlc st) i a of (res, m) \<Rightarrow> (respond ''Refund error'' res, st\<lparr>bp_htlc := m\<rparr>)))"
proof -
  have "hex_decode P (strip_0x (hex_encode P p)) = Ok p" for p
    using assms(1) by (simp add: hex_correct_def strip_0x_hex)
  then show ?thesis using bridge_service_history [OF assms(2)] named_address_hex [OF assms(1)] decode_hash_lock_hex [OF assms(1)]
    by (simp add: create_htlc_handler_def create_htlc_args_def claim_htlc_handler_def claim_htlc_args_def refund_htlc_handler_def parse_amount_def)
qed

text \<open>
  C38 (transfers requested from the service stay pending). The routes create a bridge without
  validators and offer no way to add one. So a confirmation is always refused and changes nothing,
  and every transfer stays pending without a confirmation. Yet any request in the name of any address
  with an amount above 1 is accepted, without touching an account of the chain, and for each chain and
  token the amount on record as locked is the sum of the amounts requested, modulo \<open>2 ^ 128\<close>. Of these sums
  the liquidity report shows those of each chain's native token; transfers of other tokens are locked but not shown.
\<close>

theorem service_transfers_pending:
  assumes "bridge_service P k st" "k < 2 ^ 64"
  shows "(\<forall>clock req. serve_bridge P clock (PostConfirm req) st = (400, st)) \<and>
    (\<forall>i t. get_transfer (rl_state (bp_relayer st)) i = Some t \<longrightarrow> tr_status t = Pending \<and> tr_confirmations t = 0) \<and>
    (\<forall>clock req s c a. initiate_transfer_args P req = Ok (s, c, a) \<and> 1 < a \<longrightarrow>
       fst (serve_bridge P clock (PostTransfer req) st) = 200) \<and>
    (\<forall>c tok. locked_at (rl_state (bp_relayer st)) c tok = hm_total (outbound_amount c tok) (bs_transfers (rl_state (bp_relayer st)))) \<and>
    (\<forall>l \<in> set (get_liquidity (rl_state (bp_relayer st))). lq_wrapped_supply l = 0 \<and>
       lq_locked_amount l = hm_total (outbound_amount (lq_chain l) (ec_symbol (lq_chain l))) (bs_transfers (rl_state (bp_relayer st))))"
proof (intro conjI allI)
  obtain k' where hist: "idle st" "k' \<le> k" "relay_history P bridge_config_default k' [] (bp_relayer st)"
    using bridge_service_history [OF assms(1)] by blast
  show "serve_bridge P clock (PostConfirm req) st = (400, st)" for clock req
    using submit_confirmation_idle [OF hist(1)]
    by (cases "address_from_hex P (fq_validator req)")
       (auto simp: confirm_transfer_handler_def named_address_def status_of_def respond_def)
  show "get_transfer (rl_state (bp_relayer st)) i = Some t \<longrightarrow> tr_status t = Pending \<and> tr_confirmations t = 0" for i t
    using hist(1) by (auto simp: idle_def get_transfer_def Let_def dest: map_of_SomeD)
  show "initiate_transfer_args P req = Ok (s, c, a) \<and> 1 < a \<longrightarrow> fst (serve_bridge P clock (PostTransfer req) st) = 200" for clock req s c a
  proof
    assume "initiate_transfer_args P req = Ok (s, c, a) \<and> 1 < a"
    then have "\<not> a \<le> calculate_fee a c (iq_token_symbol req)"
      by (auto simp: calculate_fee_def max_def not_le word_less_nat_alt unat_div)
    then show "fst (serve_bridge P clock (PostTransfer req) st) = 200"
      using hist(1) \<open>_ \<and> 1 < a\<close> by (simp add: initiate_transfer_handler_def process_outbound_request_def initiate_outbound_def is_paused_def
          idle_def bridge_config_default_def next_id_def Let_def)
  qed
  have acc: "accounts_ok (rl_state (bp_relayer st))" using relay_history_accounts [OF hist(3)] hist(2) assms(2) by simp
  then show "locked_at (rl_state (bp_relayer st)) c tok = hm_total (outbound_amount c tok) (bs_transfers (rl_state (bp_relayer st)))" for c tok
    by (simp add: accounts_ok_def)
  note acc
  moreover have "bs_wrapped (rl_state (bp_relayer st)) = []" using hist(1) by (simp add: idle_def Let_def)
  ultimately show "\<forall>l \<in> set (get_liquidity (rl_state (bp_relayer st))). lq_wrapped_supply l = 0 \<and>
       lq_locked_amount l = hm_total (outbound_amount (lq_chain l) (ec_symbol (lq_chain l))) (bs_transfers (rl_state (bp_relayer st)))"
    by (auto simp: accounts_ok_def get_liquidity_def Let_def locked_at_def)
qed

definition example_transfer_request :: initiate_transfer_request where
  "example_transfer_request = \<lparr>iq_sender = address_to_hex example_htlc_prims 9, iq_dest_chain = ec_symbol Ethereum, iq_recipient = ''0xabc'',
     iq_token_symbol = ''ETH'', iq_amount = show_word (5000 :: u128)\<rparr>"

lemma example_htlc_hex: "hex_correct example_htlc_prims"
  using example_hex_correct by (simp add: hex_correct_def example_htlc_prims_def crypto_prims.defs)

lemma example_transfer_args: "initiate_transfer_args example_htlc_prims example_transfer_request = Ok (9, Ethereum, 5000)"
  using parse_show [of "5000 :: u128"]
  by (simp add: initiate_transfer_args_def example_transfer_request_def parse_amount_def named_address_hex [OF example_htlc_hex]
      del: parse_show ec_symbol.simps)

theorem bridge_service_refines_witness:
  "bridge_service example_htlc_prims 0 bridge_router \<and>
   fst (claim_htlc_handler example_htlc_prims 5 bridge_router \<lparr>cq_swap_id = ''none'', cq_preimage = hex_encode example_htlc_prims [1],
     cq_claimer = address_to_hex example_htlc_prims 9\<rparr>) = Err (BadRequest ''Claim error: HTLC not found: none'')"
proof
  show "bridge_service example_htlc_prims 0 bridge_router" by (rule bridge_service.start)
  from bridge_service_refines [OF example_htlc_hex this] show "fst (claim_htlc_handler example_htlc_prims 5 bridge_router
      \<lparr>cq_swap_id = ''none'', cq_preimage = hex_encode example_htlc_prims [1], cq_claimer = address_to_hex example_htlc_prims 9\<rparr>) =
    Err (BadRequest ''Claim error: HTLC not found: none'')"
    by (simp only:) (simp add: claim_swap_def bridge_router_def htlc_manager_new_def respond_def)
qed

theorem service_transfers_pending_witness:
  "\<exists>st. bridge_service example_htlc_prims 1 st \<and> serve_bridge example_htlc_prims (\<lambda>_. 8) (PostTransfer example_transfer_request) bridge_router = (200, st) \<and>
     (\<exists>t. get_transfer (rl_state (bp_relayer st)) (transfer_id 8 1) = Some t \<and> tr_amount t = 5000 \<and> tr_status t = Pending) \<and>
     serve_bridge example_htlc_prims (\<lambda>_. 9) (PostConfirm \<lparr>fq_transfer_id = transfer_id 8 1, fq_validator = address_to_hex example_htlc_prims 4\<rparr>) st = (400, st)"
proof -
  let ?P = example_htlc_prims
  have code: "fst (serve_bridge ?P (\<lambda>_. 8) (PostTransfer example_transfer_request) bridge_router) = 200"
    using service_transfers_pending [OF bridge_service.start, of ?P] example_transfer_args by fastforce
  obtain st where st: "serve_bridge ?P (\<lambda>_. 8) (PostTransfer example_transfer_request) bridge_router = (200, st)"
    using code by (metis prod.collapse)
  then have run: "bridge_service ?P 1 st" using bridge_service.serve [OF bridge_service.start] by fastforce
  have "\<exists>t. get_transfer (rl_state (bp_relayer st)) (transfer_id 8 1) = Some t \<and> tr_amount t = 5000"
    using st by (auto simp: initiate_transfer_handler_def example_transfer_args process_outbound_request_def calculate_fee_def initiate_outbound_def
        bridge_router_def bridge_relayer_new_def bridge_state_new_def is_paused_def bridge_config_default_def next_id_def get_transfer_def status_of_def respond_def Let_def)
  then show ?thesis using st run service_transfers_pending [OF run] by fastforce
qed

end
