(* ===== verification/Api_Server.thy ===== *)
theory Api_Server
  imports Api
begin

text \<open>
  What stands in front of the handlers of the HTTP interface: its configuration
  (\<open>crates/api/src/config.rs\<close>), the authentication and the rate limiter (\<open>middleware/\<close>), the router that
  composes them (\<open>server.rs\<close>) and the WebSocket connections (\<open>ws/handler.rs\<close>).

  JSON Web Tokens are a library and appear as the parameter \<open>J\<close>. An \<open>Instant\<close> is a number of
  nanoseconds. A request is what the middleware reads of it: its path, its headers and the address of
  the peer, if the server records that one.

  Shown: with role-based access a transaction is taken only with a token that was issued with the
  server's secret and has not expired, while the wallet and bridge routes never ask for one; from one
  address no more than twice the burst is let through in less than a second, but a client chooses the
  address it is counted under; and a WebSocket client is sent the events of the channels it has
  subscribed to, in their order.
\<close>

section \<open>Configuration\<close>

datatype ip_addr = IPv4 "32 word" | IPv6 "128 word"

record tls_config =
  tc_cert_path :: string
  tc_key_path :: string

record rate_limit_config =
  rl_requests_per_second :: u32
  rl_burst_size :: u32

definition rate_limit_config_default :: rate_limit_config where
  "rate_limit_config_default = \<lparr>rl_requests_per_second = 100, rl_burst_size = 200\<rparr>"

record auth_config =
  au_jwt_secret :: string
  au_jwt_expiration_secs :: u64
  au_enable_rbac :: bool
  au_admin_addresses :: "address list"

definition auth_config_default :: auth_config where
  "auth_config_default = \<lparr>au_jwt_secret = ''change-me-in-production'', au_jwt_expiration_secs = 3600,
     au_enable_rbac = False, au_admin_addresses = []\<rparr>"

record api_config =
  ac_bind_address :: "ip_addr \<times> u16"
  ac_tls :: "tls_config option"
  ac_cors_origins :: "string list"
  ac_max_request_body_size :: nat
  ac_rate_limit :: rate_limit_config
  ac_auth :: auth_config
  ac_ws_max_connections :: nat
  ac_metrics_enabled :: bool

definition loopback :: ip_addr where
  "loopback = IPv4 (from_be_bytes [127, 0, 0, 1])"

definition api_config_default :: api_config where
  "api_config_default = \<lparr>ac_bind_address = (loopback, 8080), ac_tls = None, ac_cors_origins = [''*''],
     ac_max_request_body_size = 2 * 1024 * 1024, ac_rate_limit = rate_limit_config_default, ac_auth = auth_config_default,
     ac_ws_max_connections = 1024, ac_metrics_enabled = True\<rparr>"

section \<open>Tokens\<close>

datatype role = Admin | ValidatorRole | User | ReadOnly

fun role_display :: "role \<Rightarrow> string" where
  "role_display Admin = ''admin''"
| "role_display ValidatorRole = ''validator''"
| "role_display User = ''user''"
| "role_display ReadOnly = ''readonly''"

record claims =
  cl_sub :: string
  cl_role :: role
  cl_exp :: u64
  cl_iat :: u64

text \<open>
  The token library: encoding under a secret with the default header, and decoding with the default
  validation at a time in seconds. \<open>jwt_signed\<close> says that a token carries the claims and a valid
  signature under the secret. Encoding is documented to give such a token, and decoding to accept
  exactly these until they expire, with a leeway of 60 seconds.
\<close>

record jwt_prims =
  jwt_signed :: "bytes \<Rightarrow> claims \<Rightarrow> string \<Rightarrow> bool"
  jwt_encode :: "bytes \<Rightarrow> claims \<Rightarrow> string + string"
  jwt_decode :: "nat \<Rightarrow> bytes \<Rightarrow> string \<Rightarrow> string + claims"

definition jwt_correct :: "'j jwt_prims_scheme \<Rightarrow> bool" where
  "jwt_correct J \<longleftrightarrow> (\<forall>secret c t. jwt_encode J secret c = Ok t \<longrightarrow> jwt_signed J secret c t) \<and>
     (\<forall>now secret c t. jwt_decode J now secret t = Ok c \<longleftrightarrow> jwt_signed J secret c t \<and> now \<le> unat (cl_exp c) + 60)"

definition generate_token :: "'j jwt_prims_scheme \<Rightarrow> u64 \<Rightarrow> auth_config \<Rightarrow> string \<Rightarrow> role \<Rightarrow> api_error + string" where
  "generate_token J now cfg subject r =
     map_err (\<lambda>e. ApiInternal (''Token generation failed: '' @ e))
       (jwt_encode J (string_bytes (au_jwt_secret cfg))
          \<lparr>cl_sub = subject, cl_role = r, cl_exp = now + au_jwt_expiration_secs cfg, cl_iat = now\<rparr>)"

definition validate_token :: "'j jwt_prims_scheme \<Rightarrow> nat \<Rightarrow> auth_config \<Rightarrow> string \<Rightarrow> api_error + claims" where
  "validate_token J now cfg token =
     map_err (\<lambda>e. ApiUnauthorized (''Invalid token: '' @ e)) (jwt_decode J now (string_bytes (au_jwt_secret cfg)) token)"

section \<open>Requests\<close>

record http_request =
  hr_path :: string
  hr_headers :: "(string \<times> string) list"
  hr_connect_info :: "ip_addr option"
  hr_claims :: "claims option"

text \<open>Header names are compared without case; \<open>to_str\<close> takes visible ASCII and tabs only.\<close>

definition visible :: "char \<Rightarrow> bool" where
  "visible c \<longleftrightarrow> (let n = of_char c :: nat in 32 \<le> n \<and> n < 127 \<or> n = 9)"

definition to_str :: "string \<Rightarrow> string option" where
  "to_str s = (if list_all visible s then Some s else None)"

definition header :: "http_request \<Rightarrow> string \<Rightarrow> string option" where
  "header req name = Option.bind (map_option snd (find (\<lambda>(k, v). to_lowercase k = to_lowercase name) (hr_headers req))) to_str"

definition strip_prefix :: "string \<Rightarrow> string \<Rightarrow> string option" where
  "strip_prefix p s = (if take (length p) s = p then Some (drop (length p) s) else None)"

text \<open>A handler behind a layer of middleware is its argument \<open>next\<close>.\<close>

definition auth_middleware :: "'j jwt_prims_scheme \<Rightarrow> nat \<Rightarrow> auth_config \<Rightarrow> http_request \<Rightarrow> (http_request \<Rightarrow> 'a) \<Rightarrow> api_error + 'a" where
  "auth_middleware J now cfg req next =
     and_then (ok_or (ApiUnauthorized ''Missing Authorization header'') (header req ''Authorization'')) (\<lambda>h.
     and_then (ok_or (ApiUnauthorized ''Invalid Authorization header format'') (strip_prefix ''Bearer '' h)) (\<lambda>token.
     map_ok (\<lambda>c. next (req\<lparr>hr_claims := Some c\<rparr>)) (validate_token J now cfg token)))"

fun authorized :: "role \<Rightarrow> role \<Rightarrow> bool" where
  "authorized ReadOnly r = True"
| "authorized User r = (r \<in> {User, ValidatorRole, Admin})"
| "authorized ValidatorRole r = (r \<in> {ValidatorRole, Admin})"
| "authorized Admin r = (r = Admin)"

definition require_role :: "role \<Rightarrow> http_request \<Rightarrow> (http_request \<Rightarrow> 'a) \<Rightarrow> api_error + 'a" where
  "require_role required req next =
     and_then (ok_or (ApiUnauthorized ''No authentication claims found'') (hr_claims req)) (\<lambda>c.
       if \<not> authorized required (cl_role c)
       then Err (Forbidden (''Role '' @ [CHR 0x27] @ role_display required @ [CHR 0x27] @ '' required, but user has role '' @
              [CHR 0x27] @ role_display (cl_role c) @ [CHR 0x27]))
       else Ok (next req))"

section \<open>Addresses of clients\<close>

text \<open>
  \<open>IpAddr::from_str\<close> of the standard library. IPv4: four decimal numbers below 256 without leading
  zeros. IPv6: eight groups of up to four hexadecimal digits, of which one run of zero groups may be
  written as \<open>::\<close> and the last two as an IPv4 address.
\<close>

fun split_on :: "char \<Rightarrow> string \<Rightarrow> string list" where
  "split_on d [] = [[]]"
| "split_on d (c # s) = (if c = d then [] # split_on d s else (case split_on d s of [] \<Rightarrow> [[c]] | w # ws \<Rightarrow> (c # w) # ws))"

fun all_some :: "'a option list \<Rightarrow> 'a list option" where
  "all_some [] = Some []"
| "all_some (x # xs) = Option.bind x (\<lambda>y. map_option ((#) y) (all_some xs))"

definition parse_octet :: "string \<Rightarrow> u8 option" where
  "parse_octet s = (if s \<noteq> [] \<and> length s \<le> 3 \<and> list_all is_digit s \<and> (hd s = CHR ''0'' \<longrightarrow> length s = 1) then parse_uint s else None)"

definition parse_ipv4 :: "string \<Rightarrow> u8 list option" where
  "parse_ipv4 s = (let parts = split_on CHR ''.'' s in if length parts = 4 then all_some (map parse_octet parts) else None)"

definition hex_value :: "char \<Rightarrow> nat option" where
  "hex_value c = (let n = of_char c :: nat in
     if 48 \<le> n \<and> n \<le> 57 then Some (n - 48) else if 97 \<le> n \<and> n \<le> 102 then Some (n - 87)
     else if 65 \<le> n \<and> n \<le> 70 then Some (n - 55) else None)"

definition parse_group :: "string \<Rightarrow> u8 list option" where
  "parse_group s = (if s = [] \<or> 4 < length s then None
     else map_option (\<lambda>ds. let n = foldl (\<lambda>n d. 16 * n + d) 0 ds in [of_nat (n div 256), of_nat (n mod 256)]) (all_some (map hex_value s)))"

text \<open>Groups separated by single colons; in the last place an IPv4 address may stand for two.\<close>

definition parse_groups :: "bool \<Rightarrow> string \<Rightarrow> u8 list option" where
  "parse_groups v4 s = (if s = [] then Some [] else
     let parts = split_on CHR '':'' s; tail = (case parse_ipv4 (last parts) of Some bs \<Rightarrow> if v4 then Some bs else None | None \<Rightarrow> parse_group (last parts)) in
     map_option concat (all_some (map parse_group (butlast parts) @ [tail])))"

fun split_double_colon :: "string \<Rightarrow> (string \<times> string) option" where
  "split_double_colon (a # b # s) =
     (if a = CHR '':'' \<and> b = CHR '':'' then Some ([], s) else map_option (\<lambda>(h, t). (a # h, t)) (split_double_colon (b # s)))"
| "split_double_colon _ = None"

definition parse_ipv6 :: "string \<Rightarrow> u8 list option" where
  "parse_ipv6 s = (case split_double_colon s of
     None \<Rightarrow> Option.bind (parse_groups True s) (\<lambda>bs. if length bs = 16 then Some bs else None)
   | Some (h, t) \<Rightarrow> Option.bind (parse_groups False h) (\<lambda>hs. Option.bind (parse_groups True t) (\<lambda>ts.
       if length hs + length ts \<le> 14 then Some (hs @ replicate (16 - length hs - length ts) 0 @ ts) else None)))"

definition parse_ip :: "string \<Rightarrow> ip_addr option" where
  "parse_ip s = (case parse_ipv4 s of Some bs \<Rightarrow> Some (IPv4 (from_be_bytes bs)) | None \<Rightarrow> map_option (IPv6 \<circ> from_be_bytes) (parse_ipv6 s))"

text \<open>Of visible characters \<open>trim\<close> removes blanks and tabs.\<close>

definition trim :: "string \<Rightarrow> string" where
  "trim s = (let blank = (\<lambda>c. c \<in> {CHR '' '', CHR 0x09}) in rev (dropWhile blank (rev (dropWhile blank s))))"

definition client_ip :: "http_request \<Rightarrow> ip_addr" where
  "client_ip req = (case hr_connect_info req of
     Some ip \<Rightarrow> ip
   | None \<Rightarrow> unwrap_or loopback (Option.bind (header req ''X-Forwarded-For'') (\<lambda>s. parse_ip (trim (hd (split_on CHR '','' s))))))"

section \<open>The rate limiter\<close>

record rate_entry =
  re_count :: u32
  re_last_reset :: nat

record rate_limiter =
  rt_config :: rate_limit_config
  rt_buckets :: "(ip_addr, rate_entry) hmap"

definition rate_limiter_new :: "rate_limit_config \<Rightarrow> rate_limiter" where
  "rate_limiter_new cfg = \<lparr>rt_config = cfg, rt_buckets = []\<rparr>"

definition NANOS :: nat where
  "NANOS = 1000000000"

definition rate_step :: "u32 \<Rightarrow> nat \<Rightarrow> rate_entry \<Rightarrow> bool \<times> rate_entry" where
  "rate_step burst now e =
     (if 1 \<le> (now - re_last_reset e) div NANOS then (True, \<lparr>re_count = 1, re_last_reset = now\<rparr>)
      else let n = re_count e + 1 in (n \<le> burst, e\<lparr>re_count := n\<rparr>))"

definition check :: "nat \<Rightarrow> ip_addr \<Rightarrow> rate_limiter \<Rightarrow> bool \<times> rate_limiter" where
  "check now ip l =
     (let e = unwrap_or \<lparr>re_count = 0, re_last_reset = now\<rparr> (hm_get (rt_buckets l) ip);
          (allowed, e') = rate_step (rl_burst_size (rt_config l)) now e in
      (allowed, l\<lparr>rt_buckets := hm_put ip e' (rt_buckets l)\<rparr>))"

definition rate_limit_middleware :: "nat \<Rightarrow> rate_limiter \<Rightarrow> http_request \<Rightarrow> (http_request \<Rightarrow> 'a) \<Rightarrow> (api_error + 'a) \<times> rate_limiter" where
  "rate_limit_middleware now l req next =
     (case check now (client_ip req) l of (allowed, l') \<Rightarrow> (if \<not> allowed then Err RateLimit else Ok (next req), l'))"

text \<open>The answers the limiter gives to requests that arrive at the given times from the given addresses.\<close>

fun rate_run :: "rate_limiter \<Rightarrow> (nat \<times> ip_addr) list \<Rightarrow> bool list \<times> rate_limiter" where
  "rate_run l [] = ([], l)"
| "rate_run l ((now, ip) # rs) = (case check now ip l of (b, l') \<Rightarrow> map_prod ((#) b) id (rate_run l' rs))"

definition admitted_from :: "ip_addr \<Rightarrow> (nat \<times> ip_addr) list \<Rightarrow> bool list \<Rightarrow> nat" where
  "admitted_from ip rs bs = length (filter (\<lambda>((t, a), b). a = ip \<and> b) (zip rs bs))"

lemma rate_run_append: "rate_run l (xs @ ys) = (case rate_run l xs of (bs, l') \<Rightarrow> map_prod ((@) bs) id (rate_run l' ys))"
  by (induction xs arbitrary: l) (auto simp: map_prod_def split: prod.splits)

lemma length_rate_run: "length (fst (rate_run l rs)) = length rs"
  by (induction l rs rule: rate_run.induct) (auto simp: map_prod_def split: prod.splits)

lemma check_burst [simp]: "rt_config (snd (check now ip l)) = rt_config l"
  by (simp add: check_def Let_def split_beta)

lemma rate_run_config: "rt_config (snd (rate_run l rs)) = rt_config l"
  by (induction rs arbitrary: l) (auto simp: split_beta)

lemma check_other: "a \<noteq> ip \<Longrightarrow> hm_get (rt_buckets (snd (check now a l))) ip = hm_get (rt_buckets l) ip"
  by (simp add: check_def Let_def split_beta)

lemma admitted_from_Cons:
  "admitted_from ip ((t, a) # rs) (b # bs) = (if a = ip \<and> b then 1 else 0) + admitted_from ip rs bs"
  by (simp add: admitted_from_def)

lemma rate_run_Cons: "fst (rate_run l ((t, a) # rs)) = fst (check t a l) # fst (rate_run (snd (check t a l)) rs)"
  by (simp add: split_beta)

text \<open>An entry counts no more requests than there were, so its counter does not wrap.\<close>

lemma rate_run_count:
  "(\<And>e. hm_get (rt_buckets l) ip = Some e \<Longrightarrow> unat (re_count e) \<le> n) \<Longrightarrow> n + length rs < 2 ^ 32 \<Longrightarrow>
   hm_get (rt_buckets (snd (rate_run l rs))) ip = Some e \<Longrightarrow> unat (re_count e) \<le> n + length rs"
proof (induction l rs arbitrary: n rule: rate_run.induct)
  case (2 l now a rs)
  have "unat (re_count e') \<le> Suc n" if "hm_get (rt_buckets (snd (check now a l))) ip = Some e'" for e'
  proof (cases "a = ip")
    case True
    let ?e = "unwrap_or \<lparr>re_count = 0, re_last_reset = now\<rparr> (hm_get (rt_buckets l) ip)"
    have "unat (re_count ?e) \<le> n" using "2.prems"(1) by (cases "hm_get (rt_buckets l) ip") auto
    then have "unat (re_count ?e + 1) \<le> Suc n" using "2.prems"(2) by (simp add: unat_word_ariths)
    then show ?thesis using that True by (auto simp: check_def rate_step_def Let_def split_beta split: if_splits)
  next
    case False
    then show ?thesis using that "2.prems"(1) by (force simp: check_other)
  qed
  then show ?case using "2.IH" [of "fst (check now a l)" "snd (check now a l)" "Suc n"] "2.prems"(2, 3) by (simp add: split_beta)
qed auto

text \<open>Within a second of the last reset an address gets at most what is left of its burst.\<close>

lemma rate_run_window:
  assumes "\<forall>(t, a) \<in> set rs. t < re_last_reset e + NANOS"
    and "hm_get (rt_buckets l) ip = Some e" "unat (re_count e) + length rs < 2 ^ 32"
  shows "admitted_from ip rs (fst (rate_run l rs)) \<le> unat (rl_burst_size (rt_config l)) - unat (re_count e)"
  using assms
proof (induction rs arbitrary: l e)
  case (Cons r rs)
  obtain t a where r: "r = (t, a)" by (cases r)
  let ?l = "snd (check t a l)" and ?b = "rl_burst_size (rt_config l)"
  show ?case
  proof (cases "a = ip")
    case True
    have "t < re_last_reset e + NANOS" using Cons.prems(1) r by auto
    then have elapsed: "(t - re_last_reset e) div NANOS = 0" by (simp add: NANOS_def)
    have up: "unat (re_count e + 1) = Suc (unat (re_count e))" using Cons.prems(3) by (simp add: unat_word_ariths)
    have "hm_get (rt_buckets ?l) ip = Some (e\<lparr>re_count := re_count e + 1\<rparr>)" "fst (check t a l) = (re_count e + 1 \<le> ?b)"
      using elapsed Cons.prems(2) True by (simp_all add: check_def rate_step_def Let_def split_beta)
    moreover have "admitted_from ip rs (fst (rate_run ?l rs)) \<le> unat ?b - Suc (unat (re_count e))"
      using Cons.IH [OF _ calculation(1)] Cons.prems up by auto
    ultimately show ?thesis using r True up by (simp only: rate_run_Cons admitted_from_Cons) (auto simp: word_le_nat_alt)
  next
    case False
    then have "admitted_from ip rs (fst (rate_run ?l rs)) \<le> unat ?b - unat (re_count e)"
      using Cons.IH [of e ?l] Cons.prems by (auto simp: check_other)
    then show ?thesis using r False by (simp only: rate_run_Cons admitted_from_Cons) simp
  qed
qed (simp add: admitted_from_def)

definition burst_left :: "ip_addr \<Rightarrow> rate_limiter \<Rightarrow> nat" where
  "burst_left ip l = unat (rl_burst_size (rt_config l)) - (case hm_get (rt_buckets l) ip of None \<Rightarrow> 0 | Some e \<Rightarrow> unat (re_count e))"

lemma rate_run_second:
  assumes "\<forall>(t, a) \<in> set rs. lo \<le> t \<and> t < lo + NANOS"
    and "\<And>e. hm_get (rt_buckets l) ip = Some e \<Longrightarrow> unat (re_count e) + length rs < 2 ^ 32" "length rs < 2 ^ 32"
  shows "admitted_from ip rs (fst (rate_run l rs)) \<le> burst_left ip l + max (unat (rl_burst_size (rt_config l))) 1"
  using assms
proof (induction rs arbitrary: l)
  case (Cons r rs)
  obtain t a where r: "r = (t, a)" by (cases r)
  let ?l = "snd (check t a l)" and ?b = "rl_burst_size (rt_config l)"
  have t: "lo \<le> t" and rs: "\<forall>(t', a) \<in> set rs. t' < t + NANOS" using Cons.prems(1) r by auto
  show ?case
  proof (cases "a = ip")
    case True
    let ?e = "unwrap_or \<lparr>re_count = 0, re_last_reset = t\<rparr> (hm_get (rt_buckets l) ip)"
    obtain b e' where step: "rate_step ?b t ?e = (b, e')" by force
    have left: "burst_left ip l = unat ?b - unat (re_count ?e)" by (cases "hm_get (rt_buckets l) ip") (simp_all add: burst_left_def)
    have l': "fst (check t a l) = b" "hm_get (rt_buckets ?l) ip = Some e'" using step True by (simp_all add: check_def Let_def)
    have "unat (re_count ?e) + length rs + 1 < 2 ^ 32" using Cons.prems(2, 3) by (cases "hm_get (rt_buckets l) ip") auto
    then have up: "unat (re_count ?e + 1) = Suc (unat (re_count ?e))" by (simp add: unat_word_ariths)
    show ?thesis
    proof (cases "1 \<le> (t - re_last_reset ?e) div NANOS")
      case True
      then have e': "e' = \<lparr>re_count = 1, re_last_reset = t\<rparr>" using step by (simp add: rate_step_def)
      have "admitted_from ip rs (fst (rate_run ?l rs)) \<le> unat ?b - 1"
        using rate_run_window [OF _ l'(2)] rs Cons.prems(3) e' by auto
      then show ?thesis using r by (simp only: rate_run_Cons admitted_from_Cons) auto
    next
      case False
      then have e': "e' = ?e\<lparr>re_count := re_count ?e + 1\<rparr>" "b = (re_count ?e + 1 \<le> ?b)" using step by (auto simp: rate_step_def Let_def)
      have "burst_left ip ?l = unat ?b - Suc (unat (re_count ?e))" using l'(2) e'(1) up by (simp add: burst_left_def)
      moreover have "unat (re_count e') + length rs < 2 ^ 32" using \<open>_ + 1 < 2 ^ 32\<close> up e'(1) by simp
      ultimately have "admitted_from ip rs (fst (rate_run ?l rs)) \<le> (unat ?b - Suc (unat (re_count ?e))) + max (unat ?b) 1"
        using Cons.IH [of ?l] Cons.prems(1, 3) l'(2) by simp
      then show ?thesis using r l'(1) e'(2) up left by (simp only: rate_run_Cons admitted_from_Cons) (auto simp: word_le_nat_alt)
    qed
  next
    case False
    then have "burst_left ip ?l = burst_left ip l" by (simp add: burst_left_def check_other)
    moreover have "unat (re_count e) + length rs < 2 ^ 32" if "hm_get (rt_buckets ?l) ip = Some e" for e
      using Cons.prems(2) [of e] that False by (simp add: check_other)
    ultimately have "admitted_from ip rs (fst (rate_run ?l rs)) \<le> burst_left ip l + max (unat ?b) 1"
      using Cons.IH [of ?l] Cons.prems(1, 3) by simp
    then show ?thesis using r False by (simp only: rate_run_Cons admitted_from_Cons) simp
  qed
qed (simp add: admitted_from_def)

text \<open>
  C39 (the rate limit). From one address at most \<open>burst_size\<close> and once more \<open>burst_size\<close> requests (or
  one, if that is 0) are let through within any second, whatever other addresses send, in any run
  of fewer than \<open>2 ^ 32\<close> requests. The sustained rate of the configuration has no part in it.
\<close>

theorem rate_limited:
  assumes "length (pre @ rs) < 2 ^ 32" "\<forall>(t, a) \<in> set rs. lo \<le> t \<and> t < lo + NANOS"
    and "rate_run (rate_limiter_new cfg) (pre @ rs) = (bs, l)"
  shows "admitted_from ip rs (drop (length pre) bs) \<le> unat (rl_burst_size cfg) + max (unat (rl_burst_size cfg)) 1"
proof -
  obtain bs0 l0 where pre: "rate_run (rate_limiter_new cfg) pre = (bs0, l0)" by force
  have bs: "drop (length pre) bs = fst (rate_run l0 rs)"
    using assms(3) pre length_rate_run [of "rate_limiter_new cfg" pre] by (auto simp: rate_run_append map_prod_def split: prod.splits)
  have count: "unat (re_count e) + length rs < 2 ^ 32" if "hm_get (rt_buckets l0) ip = Some e" for e
    using rate_run_count [of "rate_limiter_new cfg" ip 0 pre e] that pre assms(1) by (simp add: rate_limiter_new_def)
  have "rt_config l0 = cfg" using rate_run_config [of "rate_limiter_new cfg" pre] pre by (simp add: rate_limiter_new_def)
  then have "burst_left ip l0 \<le> unat (rl_burst_size cfg)" "rl_burst_size (rt_config l0) = rl_burst_size cfg" by (simp_all add: burst_left_def)
  then show ?thesis using rate_run_second [OF assms(2), of l0 ip] count assms(1) by (simp add: bs)
qed

theorem rate_limited_witness:
  "\<exists>l. rate_run (rate_limiter_new \<lparr>rl_requests_per_second = 100, rl_burst_size = 1\<rparr>) ([] @ [(5, loopback), (7, loopback)]) = ([True, False], l) \<and>
     admitted_from loopback [(5, loopback), (7, loopback)] (drop (length []) [True, False]) \<le> 2"
proof -
  obtain l where run: "rate_run (rate_limiter_new \<lparr>rl_requests_per_second = 100, rl_burst_size = 1\<rparr>) ([] @ [(5, loopback), (7, loopback)]) = ([True, False], l)"
    by (simp add: check_def rate_step_def rate_limiter_new_def NANOS_def word_le_nat_alt)
  then show ?thesis using rate_limited [OF _ _ run, of 5 loopback] by (simp add: NANOS_def)
qed

section \<open>The router\<close>

text \<open>
  \<open>serve\<close> passes the plain router to the HTTP server, which then records no peer address; so a request
  arrives without one, and without claims. The limiter is the outermost layer, and the authentication
  lies around the transaction routes alone. Limits on the size of bodies, CORS and tracing are layers
  of libraries. The handlers behind the layers are the argument.
\<close>

definition incoming :: "string \<Rightarrow> (string \<times> string) list \<Rightarrow> http_request" where
  "incoming path hs = \<lparr>hr_path = path, hr_headers = hs, hr_connect_info = None, hr_claims = None\<rparr>"

definition first_segment :: "string \<Rightarrow> string" where
  "first_segment path = takeWhile (\<lambda>c. c \<noteq> CHR ''/'') (drop 1 path)"

definition router :: "'j jwt_prims_scheme \<Rightarrow> nat \<Rightarrow> nat \<Rightarrow> api_config \<Rightarrow> rate_limiter \<Rightarrow> http_request \<Rightarrow> (http_request \<Rightarrow> 'a) \<Rightarrow>
    (api_error + 'a) \<times> rate_limiter" where
  "router J secs instant cfg l req handlers =
     (case rate_limit_middleware instant l req (\<lambda>req.
        if first_segment (hr_path req) = ''tx'' \<and> au_enable_rbac (ac_auth cfg) then auth_middleware J secs (ac_auth cfg) req handlers
        else Ok (handlers req)) of
      (r, l') \<Rightarrow> (and_then r id, l'))"

lemma strip_prefix_Some: "strip_prefix p s = Some t \<longleftrightarrow> s = p @ t"
  unfolding strip_prefix_def by (metis append_eq_conv_conj append_take_drop_id option.distinct(1) option.inject)

text \<open>
  C25 (transactions need a token). With role-based access enabled, a request for the transaction routes
  reaches its handler exactly when the limiter lets it through and it has a bearer token that was
  signed with the server's secret and expired no more than a minute ago; the handler gets the
  claims of the token. A token issued by \<open>generate_token\<close> is one for as long as the configuration says,
  while the clock does not overflow. Requests for all other routes, those that spend from key files
  or act on the bridge among them, are passed on exactly when the limiter lets them through, whatever
  their headers say. A request that the limiter refuses is answered as over the limit on every route,
  and every request, passed on or not, is counted.
\<close>

theorem tx_requires_token:
  assumes "jwt_correct J" "au_enable_rbac (ac_auth cfg)" "check instant (client_ip (incoming path hs)) l = (allowed, l')"
  shows "(first_segment path = ''tx'' \<longrightarrow>
      (\<forall>r. fst (router J secs instant cfg l (incoming path hs) handlers) = Ok r \<longleftrightarrow> allowed \<and>
        (\<exists>c t. header (incoming path hs) ''Authorization'' = Some (''Bearer '' @ t) \<and>
           jwt_signed J (string_bytes (au_jwt_secret (ac_auth cfg))) c t \<and> secs \<le> unat (cl_exp c) + 60 \<and>
           r = handlers ((incoming path hs)\<lparr>hr_claims := Some c\<rparr>)))) \<and>
    (\<forall>now subject ro t. generate_token J now (ac_auth cfg) subject ro = Ok t \<and>
       unat now + unat (au_jwt_expiration_secs (ac_auth cfg)) < 2 ^ 64 \<and>
       unat now \<le> secs \<and> secs \<le> unat now + unat (au_jwt_expiration_secs (ac_auth cfg)) \<longrightarrow>
       (\<exists>c. validate_token J secs (ac_auth cfg) t = Ok c \<and> cl_sub c = subject \<and> cl_role c = ro)) \<and>
    (first_segment path \<noteq> ''tx'' \<longrightarrow>
      (\<forall>r. fst (router J secs instant cfg l (incoming path hs) handlers) = Ok r \<longleftrightarrow> allowed \<and> r = handlers (incoming path hs))) \<and>
    (\<not> allowed \<longrightarrow> fst (router J secs instant cfg l (incoming path hs) handlers) = Err RateLimit) \<and>
    snd (router J secs instant cfg l (incoming path hs) handlers) = l'"
proof (intro conjI impI allI)
  let ?req = "incoming path hs" and ?secret = "string_bytes (au_jwt_secret (ac_auth cfg))"
  have dec: "jwt_decode J secs ?secret t = Ok c \<longleftrightarrow> jwt_signed J ?secret c t \<and> secs \<le> unat (cl_exp c) + 60" for c t
    using assms(1) by (simp add: jwt_correct_def)
  have path: "hr_path ?req = path" by (simp add: incoming_def)
  show "snd (router J secs instant cfg l ?req handlers) = l'"
    using assms(3) by (simp add: router_def rate_limit_middleware_def)
  {
    assume "\<not> allowed"
    then show "fst (router J secs instant cfg l ?req handlers) = Err RateLimit"
      using assms(3) by (simp add: router_def rate_limit_middleware_def)
  }
  fix r
  {
    assume tx: "first_segment path = ''tx''"
    have route: "fst (router J secs instant cfg l ?req handlers) =
        (if allowed then auth_middleware J secs (ac_auth cfg) ?req handlers else Err RateLimit)"
      using tx assms(2, 3) path by (cases "auth_middleware J secs (ac_auth cfg) ?req handlers") (simp_all add: router_def rate_limit_middleware_def)
    have "auth_middleware J secs (ac_auth cfg) ?req handlers = Ok r \<longleftrightarrow> (\<exists>h t c. header ?req ''Authorization'' = Some h \<and> strip_prefix ''Bearer '' h = Some t \<and>
        jwt_decode J secs ?secret t = Ok c \<and> r = handlers (?req\<lparr>hr_claims := Some c\<rparr>))"
      by (auto simp: auth_middleware_def validate_token_def result_simps)
    then show "fst (router J secs instant cfg l ?req handlers) = Ok r \<longleftrightarrow> allowed \<and>
        (\<exists>c t. header ?req ''Authorization'' = Some (''Bearer '' @ t) \<and> jwt_signed J ?secret c t \<and> secs \<le> unat (cl_exp c) + 60 \<and>
           r = handlers (?req\<lparr>hr_claims := Some c\<rparr>))"
      unfolding route dec strip_prefix_Some by auto
  next
    assume "first_segment path \<noteq> ''tx''"
    then show "fst (router J secs instant cfg l ?req handlers) = Ok r \<longleftrightarrow> allowed \<and> r = handlers ?req"
      using assms(3) path by (auto simp: router_def rate_limit_middleware_def)
  }
next
  fix now subject ro t
  assume t: "generate_token J now (ac_auth cfg) subject ro = Ok t \<and> unat now + unat (au_jwt_expiration_secs (ac_auth cfg)) < 2 ^ 64 \<and>
    unat now \<le> secs \<and> secs \<le> unat now + unat (au_jwt_expiration_secs (ac_auth cfg))"
  let ?c = "\<lparr>cl_sub = subject, cl_role = ro, cl_exp = now + au_jwt_expiration_secs (ac_auth cfg), cl_iat = now\<rparr>"
  have "jwt_signed J (string_bytes (au_jwt_secret (ac_auth cfg))) ?c t" "secs \<le> unat (cl_exp ?c) + 60"
    using t assms(1) by (auto simp: generate_token_def jwt_correct_def result_simps unat_word_ariths)
  then have "validate_token J secs (ac_auth cfg) t = Ok ?c" using assms(1) by (simp add: jwt_correct_def validate_token_def result_simps)
  then show "\<exists>c. validate_token J secs (ac_auth cfg) t = Ok c \<and> cl_sub c = subject \<and> cl_role c = ro" by force
qed

definition example_claims :: claims where
  "example_claims = \<lparr>cl_sub = ''alice'', cl_role = User, cl_exp = 1000, cl_iat = 400\<rparr>"

definition example_jwt :: jwt_prims where
  "example_jwt = \<lparr>jwt_signed = \<lambda>secret c t. c = example_claims \<and> t = ''token'',
     jwt_encode = \<lambda>secret c. if c = example_claims then Ok ''token'' else Err ''unsupported'',
     jwt_decode = \<lambda>now secret t. if t = ''token'' \<and> now \<le> 1060 then Ok example_claims else Err ''invalid''\<rparr>"

definition example_api_config :: api_config where
  "example_api_config = api_config_default\<lparr>ac_auth := auth_config_default\<lparr>au_enable_rbac := True, au_jwt_expiration_secs := 600\<rparr>\<rparr>"

lemma example_jwt_correct: "jwt_correct example_jwt"
  by (auto simp: jwt_correct_def example_jwt_def example_claims_def)

theorem tx_requires_token_witness:
  "fst (router example_jwt 900 5 example_api_config (rate_limiter_new rate_limit_config_default)
      (incoming ''/tx'' [(''authorization'', ''Bearer token'')]) hr_claims) = Ok (Some example_claims) \<and>
   fst (router example_jwt 900 5 example_api_config (rate_limiter_new rate_limit_config_default)
      (incoming ''/wallet/transfer'' []) hr_claims) = Ok None \<and>
   fst (router example_jwt 900 5 example_api_config (rate_limiter_new (rate_limit_config_default\<lparr>rl_burst_size := 0\<rparr>))
      (incoming ''/tx'' [(''authorization'', ''Bearer token'')]) hr_claims) = Err RateLimit"
proof -
  let ?l = "rate_limiter_new rate_limit_config_default" and ?none = "rate_limiter_new (rate_limit_config_default\<lparr>rl_burst_size := 0\<rparr>)"
  let ?hs = "[(''authorization'', ''Bearer token'')]"
  have check: "\<exists>l'. check 5 ip ?l = (True, l')" "\<exists>l'. check 5 ip ?none = (False, l')" for ip
    by (simp_all add: check_def rate_step_def rate_limiter_new_def rate_limit_config_default_def NANOS_def)
  have hdr: "header (incoming ''/tx'' ?hs) ''Authorization'' = Some (''Bearer '' @ ''token'')" by code_simp
  have cfg: "au_enable_rbac (ac_auth example_api_config)" by (simp add: example_api_config_def)
  have "\<exists>c t. ''Bearer '' @ ''token'' = ''Bearer '' @ t \<and> jwt_signed example_jwt s c t \<and> 900 \<le> unat (cl_exp c) + 60 \<and> Some example_claims = Some c" for s
    by (simp add: example_jwt_def example_claims_def)
  moreover have seg: "first_segment ''/tx'' = ''tx''" "first_segment ''/wallet/transfer'' \<noteq> ''tx''" by code_simp+
  moreover obtain l1 l2 l3 where l: "check 5 (client_ip (incoming ''/tx'' ?hs)) ?l = (True, l1)"
    "check 5 (client_ip (incoming ''/wallet/transfer'' [])) ?l = (True, l2)" "check 5 (client_ip (incoming ''/tx'' ?hs)) ?none = (False, l3)"
    using check by blast
  ultimately have "fst (router example_jwt 900 5 example_api_config ?l (incoming ''/tx'' ?hs) hr_claims) = Ok (Some example_claims)"
    using tx_requires_token [OF example_jwt_correct cfg l(1), of 900 hr_claims] unfolding hdr by (simp add: incoming_def)
  moreover have "fst (router example_jwt 900 5 example_api_config ?l (incoming ''/wallet/transfer'' []) hr_claims) = Ok None"
    using tx_requires_token [OF example_jwt_correct cfg l(2), of 900 hr_claims] seg by (simp add: incoming_def)
  moreover have "fst (router example_jwt 900 5 example_api_config ?none (incoming ''/tx'' ?hs) hr_claims) = Err RateLimit"
    using tx_requires_token [OF example_jwt_correct cfg l(3), of 900 hr_claims] by blast
  ultimately show ?thesis by blast
qed

text \<open>
  The rate limit can be avoided. The server records no peer address, so a client is counted under
  the address it writes into a header, and requests under distinct addresses are all let through; a
  client that sends no header is counted under the loopback address, together with all others.
\<close>

theorem rate_limit_avoided:
  assumes "distinct (map (\<lambda>s. parse_ip (trim (hd (split_on CHR '','' s)))) forwarded)" "rl_burst_size cfg \<noteq> 0"
    and "\<forall>s \<in> set forwarded. to_str s = Some s \<and> parse_ip (trim (hd (split_on CHR '','' s))) \<noteq> None"
  shows "list_all id (fst (rate_run (rate_limiter_new cfg)
      (map (\<lambda>s. (now s, client_ip (incoming path ((''X-Forwarded-For'', s) # hs)))) forwarded))) \<and>
    client_ip (incoming path []) = loopback"
proof -
  let ?ip = "\<lambda>s. client_ip (incoming path ((''X-Forwarded-For'', s) # hs))"
  have ip: "Some (?ip s) = parse_ip (trim (hd (split_on CHR '','' s)))" if "s \<in> set forwarded" for s
    using assms(3) that by (auto simp: client_ip_def incoming_def header_def)
  have "list_all id (fst (rate_run l (map (\<lambda>s. (now s, ?ip s)) ss)))"
    if "distinct (map ?ip ss)" "\<forall>s \<in> set ss. hm_get (rt_buckets l) (?ip s) = None" "rl_burst_size (rt_config l) \<noteq> 0" for l ss
    using that
  proof (induction ss arbitrary: l)
    case (Cons s ss)
    have "fst (check (now s) (?ip s) l)"
      using Cons.prems(2, 3) by (simp add: check_def rate_step_def Let_def word_le_nat_alt NANOS_def) (metis Suc_leI gr_zeroI unat_0 unat_eq_zero)
    moreover have "hm_get (rt_buckets (snd (check (now s) (?ip s) l))) (?ip s') = None" if "s' \<in> set ss" for s'
      using Cons.prems(1, 2) that check_other [of "?ip s" "?ip s'"] by (auto simp: image_iff)
    ultimately show ?case using Cons.IH [of "snd (check (now s) (?ip s) l)"] Cons.prems by (simp add: split_beta)
  qed simp
  moreover have "distinct (map ?ip forwarded)"
    using assms(1) ip by (simp add: distinct_map inj_on_def) (metis option.inject)
  ultimately show ?thesis using assms(2) by (simp add: rate_limiter_new_def) (simp add: client_ip_def incoming_def header_def)
qed

theorem rate_limit_avoided_witness:
  "list_all id (fst (rate_run (rate_limiter_new \<lparr>rl_requests_per_second = 1, rl_burst_size = 1\<rparr>)
     (map (\<lambda>s. (7, client_ip (incoming ''/blocks'' [(''X-Forwarded-For'', s)]))) [''10.0.0.2, proxy'', ''::1''])))"
proof -
  have v4: "trim (hd (split_on CHR '','' ''10.0.0.2, proxy'')) = ''10.0.0.2''" "parse_ipv4 ''10.0.0.2'' = Some [10, 0, 0, 2]" by code_simp+
  have v6: "trim (hd (split_on CHR '','' ''::1'')) = ''::1''" "parse_ipv4 ''::1'' = None" by code_simp+
  have "parse_ipv6 ''::1'' = Some (replicate 14 0 @ [0, 1])" by code_simp
  then have "parse_ip (trim (hd (split_on CHR '','' ''10.0.0.2, proxy''))) = Some (IPv4 (from_be_bytes [10, 0, 0, 2]))"
    "\<exists>w. parse_ip (trim (hd (split_on CHR '','' ''::1''))) = Some (IPv6 w)"
    unfolding v4 v6 parse_ip_def by auto
  moreover have "to_str ''10.0.0.2, proxy'' = Some ''10.0.0.2, proxy''" "to_str ''::1'' = Some ''::1''" by code_simp+
  ultimately show ?thesis
    using rate_limit_avoided [of "[''10.0.0.2, proxy'', ''::1'']" "\<lparr>rl_requests_per_second = 1, rl_burst_size = 1\<rparr>" "\<lambda>_. 7" "''/blocks''" "[]"]
    by fastforce
qed

section \<open>WebSocket connections\<close>

datatype subscription_channel = NewBlocks | NewTransactions | FinalityChannel

datatype ws_client_message = Subscribe subscription_channel | Unsubscribe subscription_channel | WsPing

datatype ws_server_message =
    WsNewBlock block_dto
  | WsTransactionPooled string
  | WsBlockFinalized u64
  | Pong
  | WsError string

record ws_state =
  sub_blocks :: bool
  sub_txs :: bool
  sub_finality :: bool

definition ws_init :: ws_state where
  "ws_init = \<lparr>sub_blocks = False, sub_txs = False, sub_finality = False\<rparr>"

fun set_subscription :: "subscription_channel \<Rightarrow> bool \<Rightarrow> ws_state \<Rightarrow> ws_state" where
  "set_subscription NewBlocks b st = st\<lparr>sub_blocks := b\<rparr>"
| "set_subscription NewTransactions b st = st\<lparr>sub_txs := b\<rparr>"
| "set_subscription FinalityChannel b st = st\<lparr>sub_finality := b\<rparr>"

text \<open>What the two branches of the loop wait for: frames of the client, and events of the engine.\<close>

datatype ws_input =
    ClientText "string + ws_client_message"
  | ClientIgnored
  | ClientGone
  | EngineEvent consensus_event
  | Lagged nat
  | EventsClosed

text \<open>One turn of the loop: the message to send, if any, and the subscriptions; \<open>None\<close> ends the connection.\<close>

fun ws_step :: "'p block_prims_scheme \<Rightarrow> ws_input \<Rightarrow> ws_state \<Rightarrow> (ws_server_message option \<times> ws_state) option" where
  "ws_step P (ClientText (Ok (Subscribe ch))) st = Some (None, set_subscription ch True st)"
| "ws_step P (ClientText (Ok (Unsubscribe ch))) st = Some (None, set_subscription ch False st)"
| "ws_step P (ClientText (Ok WsPing)) st = Some (Some Pong, st)"
| "ws_step P (ClientText (Err e)) st = Some (Some (WsError (''Invalid message: '' @ e)), st)"
| "ws_step P ClientIgnored st = Some (None, st)"
| "ws_step P ClientGone st = None"
| "ws_step P (EngineEvent (NewBlock b)) st = Some (if sub_blocks st then Some (WsNewBlock (block_dto_from P b)) else None, st)"
| "ws_step P (EngineEvent (TransactionPooled h)) st = Some (if sub_txs st then Some (WsTransactionPooled (hash_display P h)) else None, st)"
| "ws_step P (EngineEvent (BlockFinalized n)) st = Some (if sub_finality st then Some (WsBlockFinalized n) else None, st)"
| "ws_step P (EngineEvent (EpochChanged ep)) st = Some (None, st)"
| "ws_step P (Lagged n) st = Some (Some (WsError (''Lagged behind by '' @ show_nat n @ '' events'')), st)"
| "ws_step P EventsClosed st = None"

text \<open>The loop of \<open>handle_socket\<close>: with every input comes whether a message sent in that turn gets through.\<close>

fun handle_socket :: "'p block_prims_scheme \<Rightarrow> (ws_input \<times> bool) list \<Rightarrow> ws_state \<Rightarrow> ws_server_message list" where
  "handle_socket P [] st = []"
| "handle_socket P ((i, sent) # rest) st =
     (case ws_step P i st of
        None \<Rightarrow> []
      | Some (None, st') \<Rightarrow> handle_socket P rest st'
      | Some (Some m, st') \<Rightarrow> if sent then m # handle_socket P rest st' else [])"

text \<open>
  What a client should get, said without the loop's state: it is subscribed to a channel if its last
  message about the channel subscribes to it; a turn answers with what the history up to it asks for.
\<close>

fun subscribed :: "subscription_channel \<Rightarrow> ws_input list \<Rightarrow> bool" where
  "subscribed ch [] = False"
| "subscribed ch (i # newer_first) =
     (if i = ClientText (Ok (Subscribe ch)) then True
      else if i = ClientText (Ok (Unsubscribe ch)) then False else subscribed ch newer_first)"

definition answer :: "'p block_prims_scheme \<Rightarrow> ws_input list \<Rightarrow> ws_input \<Rightarrow> ws_server_message option" where
  "answer P history i = (case i of
     EngineEvent (NewBlock b) \<Rightarrow> if subscribed NewBlocks history then Some (WsNewBlock (block_dto_from P b)) else None
   | EngineEvent (TransactionPooled h) \<Rightarrow> if subscribed NewTransactions history then Some (WsTransactionPooled (hash_display P h)) else None
   | EngineEvent (BlockFinalized n) \<Rightarrow> if subscribed FinalityChannel history then Some (WsBlockFinalized n) else None
   | Lagged n \<Rightarrow> Some (WsError (''Lagged behind by '' @ show_nat n @ '' events''))
   | ClientText (Ok WsPing) \<Rightarrow> Some Pong
   | ClientText (Err e) \<Rightarrow> Some (WsError (''Invalid message: '' @ e))
   | _ \<Rightarrow> None)"

definition ends :: "ws_input \<Rightarrow> bool" where
  "ends i \<longleftrightarrow> i \<in> {ClientGone, EventsClosed}"

definition subscriptions :: "ws_input list \<Rightarrow> ws_state" where
  "subscriptions history = \<lparr>sub_blocks = subscribed NewBlocks history, sub_txs = subscribed NewTransactions history,
     sub_finality = subscribed FinalityChannel history\<rparr>"

lemma set_subscription_subscriptions [simp]:
  "set_subscription ch True (subscriptions history) = subscriptions (ClientText (Ok (Subscribe ch)) # history)"
  "set_subscription ch False (subscriptions history) = subscriptions (ClientText (Ok (Unsubscribe ch)) # history)"
  by (cases ch; simp add: subscriptions_def)+

lemma subscriptions_simps [simp]:
  "sub_blocks (subscriptions h) = subscribed NewBlocks h" "sub_txs (subscriptions h) = subscribed NewTransactions h"
  "sub_finality (subscriptions h) = subscribed FinalityChannel h" "subscriptions (ClientText (Ok WsPing) # h) = subscriptions h"
  "subscriptions (ClientText (Err e) # h) = subscriptions h" "subscriptions (ClientIgnored # h) = subscriptions h"
  "subscriptions (EngineEvent ev # h) = subscriptions h" "subscriptions (Lagged n # h) = subscriptions h"
  by (simp_all add: subscriptions_def)

lemma ws_step_subscriptions:
  "ws_step P i (subscriptions history) = (if ends i then None else Some (answer P history i, subscriptions (i # history)))"
  by (cases "(P, i, subscriptions history)" rule: ws_step.cases) (auto simp: answer_def ends_def)

lemma map_filter_upt_Suc:
  "List.map_filter f [0..<Suc n] = (case f 0 of None \<Rightarrow> [] | Some y \<Rightarrow> [y]) @ List.map_filter (\<lambda>k. f (Suc k)) [0..<n]"
proof -
  have "[0..<Suc n] = 0 # map Suc [0..<n]" by (simp add: map_Suc_upt upt_conv_Cons del: upt_Suc)
  then show ?thesis by (simp add: List.map_filter_def filter_map comp_def del: upt_Suc split: option.split)
qed

lemma handle_socket_history:
  "handle_socket P (map (\<lambda>i. (i, True)) is) (subscriptions history) =
   List.map_filter (\<lambda>k. answer P (rev (take k is) @ history) (is ! k)) [0..<length (takeWhile (Not \<circ> ends) is)]"
proof (induction "is" arbitrary: history)
  case (Cons i "is")
  show ?case
  proof (cases "ends i")
    case False
    then show ?thesis using Cons.IH [of "i # history"]
      by (simp add: ws_step_subscriptions map_filter_upt_Suc del: upt_Suc split: option.split)
  qed (simp add: ws_step_subscriptions List.map_filter_simps)
qed (simp add: List.map_filter_simps)

text \<open>
  What a WebSocket client is sent. On a connection whose messages get through, a client gets for
  every turn of the loop, in their order and up to the one that ends the connection, exactly the
  message due to it: events of a channel while its last word on the channel is to subscribe, a pong
  for a ping, an error for a message that cannot be read or for events it was too slow for.
\<close>

theorem ws_delivers_subscriptions:
  "handle_socket P (map (\<lambda>i. (i, True)) is) ws_init =
   List.map_filter (\<lambda>k. answer P (rev (take k is)) (is ! k)) [0..<length (takeWhile (Not \<circ> ends) is)]"
  using handle_socket_history [of P "is" "[]"] by (simp add: ws_init_def subscriptions_def)

end
