(* ===== verification/Network.thy ===== *)
theory Network
  imports Engine
begin

text \<open>
  The peer-to-peer service (\<open>crates/network\<close>): its messages, configuration and event loop, and how a
  node ties it to the consensus engine (\<open>crates/node/src/app.rs\<close>). The swarm is a library: the loop
  takes its events and gives the calls it makes on it. The encoding of messages is the parameter \<open>N\<close>;
  a peer identifier is of any type, and a random one is an argument.

  A network is any number of nodes with the same genesis, each with its engine and service, and the
  messages in the air. What a node announces may get lost; what is in the air may be delivered to
  any node, at any time and repeatedly; and outsiders may put anything into the air.

  Shown: every node of such a network keeps the invariant of its engine, whatever outsiders send; what
  a node broadcasts arrives as what was sent; and, in a network left to itself, transactions and
  finality votes never leave the node they come from, so a transaction given to a node that does not
  produce blocks gets into no block, and no block becomes final unless one validator has a quorum alone.
\<close>

section \<open>Messages and configuration\<close>

record peer_status =
  ps_chain_id :: chain_id
  ps_best_block :: block_number
  ps_best_hash :: blake3hash
  ps_genesis_hash :: blake3hash
  ps_protocol_version :: u32

definition peer_status_default :: peer_status where
  "peer_status_default = \<lparr>ps_chain_id = 0, ps_best_block = 0, ps_best_hash = 0, ps_genesis_hash = 0, ps_protocol_version = 0\<rparr>"

datatype network_message =
    MsgNewBlock block
  | MsgNewTransaction signed_transaction
  | MsgFinalityVote finality_vote
  | BlockRequest block_number u32
  | BlockResponse "block list"
  | StatusRequest
  | StatusResponse peer_status

record network_config =
  nc_listen_addresses :: "string list"
  nc_external_addresses :: "string list"
  nc_bootnodes :: "string list"
  nc_max_peers :: nat
  nc_min_peers :: nat
  nc_enable_mdns :: bool
  nc_enable_kademlia :: bool
  nc_node_key_path :: "string option"
  nc_request_timeout_secs :: u64
  nc_connection_timeout_secs :: u64
  nc_max_message_size :: nat

definition network_config_default :: network_config where
  "network_config_default = \<lparr>nc_listen_addresses = [''/ip4/0.0.0.0/tcp/30303''], nc_external_addresses = [], nc_bootnodes = [],
     nc_max_peers = 50, nc_min_peers = 5, nc_enable_mdns = True, nc_enable_kademlia = True, nc_node_key_path = None,
     nc_request_timeout_secs = 30, nc_connection_timeout_secs = 10, nc_max_message_size = 4 * 1024 * 1024\<rparr>"

definition NEW_BLOCKS :: string where
  "NEW_BLOCKS = ''/rustchain/blocks/1.0.0''"

definition NEW_TRANSACTIONS :: string where
  "NEW_TRANSACTIONS = ''/rustchain/transactions/1.0.0''"

definition FINALITY_VOTES :: string where
  "FINALITY_VOTES = ''/rustchain/finality/1.0.0''"

datatype 'peer network_event =
    BlockReceived block 'peer
  | TransactionReceived signed_transaction 'peer
  | VoteReceived finality_vote 'peer
  | PeerConnected 'peer
  | PeerDisconnected 'peer
  | SyncRequired 'peer block_number

datatype 'peer network_command =
    BroadcastBlock block
  | BroadcastTransaction signed_transaction
  | BroadcastVote finality_vote
  | RequestBlocks 'peer block_number u32
  | BanPeer 'peer
  | Shutdown

section \<open>The service\<close>

record 'peer network_service =
  nw_config :: network_config
  nw_local_peer_id :: 'peer
  nw_connected_peers :: "('peer, peer_status) hmap"

definition network_service_new :: "network_config \<Rightarrow> 'peer \<Rightarrow> 'peer network_service" where
  "network_service_new cfg random = \<lparr>nw_config = cfg, nw_local_peer_id = random, nw_connected_peers = []\<rparr>"

definition connected_peer_count :: "'peer network_service \<Rightarrow> nat" where
  "connected_peer_count s = length (nw_connected_peers s)"

text \<open>bincode: it may refuse to encode, and reads back what it has encoded.\<close>

record net_prims =
  ser_message :: "network_message \<Rightarrow> bytes option"
  de_message :: "bytes \<Rightarrow> network_message option"

definition message_codec :: "net_prims \<Rightarrow> bool" where
  "message_codec N \<longleftrightarrow> (\<forall>m d. ser_message N m = Some d \<longrightarrow> de_message N d = Some m)"

datatype 'peer swarm_call = Publish string bytes | BlacklistPeer 'peer | DisconnectPeer 'peer

datatype 'peer swarm_event =
    GossipMessage bytes "'peer option"
  | NewListenAddr string
  | ConnectionEstablished 'peer
  | ConnectionClosed 'peer
  | OtherSwarmEvent

definition publish :: "net_prims \<Rightarrow> string \<Rightarrow> network_message \<Rightarrow> 'peer swarm_call list" where
  "publish N topic m = (case ser_message N m of None \<Rightarrow> [] | Some d \<Rightarrow> [Publish topic d])"

text \<open>The branch of the loop for commands; \<open>None\<close> leaves the loop.\<close>

fun service_command :: "net_prims \<Rightarrow> 'peer network_command option \<Rightarrow> 'peer network_service \<Rightarrow>
    ('peer swarm_call list \<times> 'peer network_service) option" where
  "service_command N (Some (BroadcastBlock b)) s = Some (publish N NEW_BLOCKS (MsgNewBlock b), s)"
| "service_command N (Some (BroadcastTransaction tx)) s = Some (publish N NEW_TRANSACTIONS (MsgNewTransaction tx), s)"
| "service_command N (Some (BroadcastVote v)) s = Some (publish N FINALITY_VOTES (MsgFinalityVote v), s)"
| "service_command N (Some (RequestBlocks peer first cnt)) s = Some ([], s)"
| "service_command N (Some (BanPeer peer)) s =
     Some ([BlacklistPeer peer, DisconnectPeer peer], s\<lparr>nw_connected_peers := hm_remove peer (nw_connected_peers s)\<rparr>)"
| "service_command N (Some Shutdown) s = None"
| "service_command N None s = None"

definition gossip_event :: "'peer \<Rightarrow> network_message \<Rightarrow> 'peer network_event list" where
  "gossip_event peer m = (case m of
     MsgNewBlock b \<Rightarrow> [BlockReceived b peer] | MsgNewTransaction tx \<Rightarrow> [TransactionReceived tx peer]
   | MsgFinalityVote v \<Rightarrow> [VoteReceived v peer] | _ \<Rightarrow> [])"

text \<open>The branch for events of the swarm: what is sent to the node.\<close>

fun service_event :: "net_prims \<Rightarrow> 'peer \<Rightarrow> 'peer swarm_event \<Rightarrow> 'peer network_service \<Rightarrow>
    'peer network_event list \<times> 'peer network_service" where
  "service_event N random (GossipMessage d source) s =
     (case de_message N d of None \<Rightarrow> ([], s) | Some m \<Rightarrow> (gossip_event (unwrap_or random source) m, s))"
| "service_event N random (NewListenAddr a) s = ([], s)"
| "service_event N random (ConnectionEstablished peer) s =
     ([PeerConnected peer], s\<lparr>nw_connected_peers := hm_put peer peer_status_default (nw_connected_peers s)\<rparr>)"
| "service_event N random (ConnectionClosed peer) s =
     ([PeerDisconnected peer], s\<lparr>nw_connected_peers := hm_remove peer (nw_connected_peers s)\<rparr>)"
| "service_event N random OtherSwarmEvent s = ([], s)"

datatype 'peer service_input = Cancelled | CommandInput "'peer network_command option" | SwarmInput 'peer "'peer swarm_event"

datatype 'peer service_output = Call "'peer swarm_call" | Emit "'peer network_event"

fun service_loop :: "net_prims \<Rightarrow> 'peer service_input list \<Rightarrow> 'peer network_service \<Rightarrow> 'peer service_output list \<times> 'peer network_service" where
  "service_loop N [] s = ([], s)"
| "service_loop N (Cancelled # is) s = ([], s)"
| "service_loop N (CommandInput c # is) s =
     (case service_command N c s of None \<Rightarrow> ([], s) | Some (calls, s') \<Rightarrow> map_prod ((@) (map Call calls)) id (service_loop N is s'))"
| "service_loop N (SwarmInput random ev # is) s =
     (case service_event N random ev s of (evs, s') \<Rightarrow> map_prod ((@) (map Emit evs)) id (service_loop N is s'))"

section \<open>A node\<close>

text \<open>The task that forwards events of the engine to the network, and the one that forwards back.\<close>

fun broadcast_command :: "consensus_event \<Rightarrow> 'peer network_command option" where
  "broadcast_command (NewBlock b) = Some (BroadcastBlock b)"
| "broadcast_command (TransactionPooled h) = None"
| "broadcast_command (BlockFinalized n) = None"
| "broadcast_command (EpochChanged ep) = None"

fun on_network_event :: "('db, 'p) storage_prims_scheme \<Rightarrow> ('m, 'i) wasmtime \<Rightarrow> rng \<Rightarrow> (nat \<Rightarrow> timestamp) \<Rightarrow> nat \<Rightarrow>
    'peer network_event \<Rightarrow> ('db, 'm) consensus_engine \<Rightarrow> ('db, 'm) consensus_engine" where
  "on_network_event P W gen_range clock now (BlockReceived b peer) en = snd (on_block_received P W gen_range clock b en)"
| "on_network_event P W gen_range clock now (TransactionReceived tx peer) en = snd (on_transaction_received P now tx en)"
| "on_network_event P W gen_range clock now (VoteReceived v peer) en = snd (on_vote_received P v en)"
| "on_network_event P W gen_range clock now _ en = en"

definition announcements :: "net_prims \<Rightarrow> 'peer network_service \<Rightarrow> consensus_event list \<Rightarrow> (string \<times> bytes) set" where
  "announcements N s evs = {(topic, d). \<exists>e \<in> set evs. \<exists>c calls s'. broadcast_command e = Some c \<and>
     service_command N (Some c) s = Some (calls, s') \<and> Publish topic d \<in> set calls}"

section \<open>Networks of nodes\<close>

text \<open>
  Of each node the engine and the service; the topics and data in the air. For what is shown below it
  is also recorded which transactions clients have given to which node, and which validator sets the
  finality engine of a node has had.
\<close>

record ('n, 'peer, 'db, 'm) network =
  nt_engine :: "'n \<Rightarrow> ('db, 'm) consensus_engine"
  nt_service :: "'n \<Rightarrow> 'peer network_service"
  nt_air :: "(string \<times> bytes) set"
  nt_submitted :: "'n \<Rightarrow> signed_transaction set"
  nt_sets :: "'n \<Rightarrow> validator_set set"

text \<open>One node goes on: its engine and what of its new events reaches the air.\<close>

definition advance :: "net_prims \<Rightarrow> (string \<times> bytes) set \<Rightarrow> 'n \<Rightarrow> ('db, 'm) consensus_engine \<Rightarrow>
    ('n, 'peer, 'db, 'm) network \<Rightarrow> ('n, 'peer, 'db, 'm) network" where
  "advance N lost n en' net = (let en = nt_engine net n in
     net\<lparr>nt_engine := (nt_engine net)(n := en'),
       nt_air := nt_air net \<union> (announcements N (nt_service net n) (drop (length (ce_events en)) (ce_events en')) - lost),
       nt_sets := (nt_sets net)(n := insert (fe_validator_set (ce_finality en')) (nt_sets net n))\<rparr>)"

inductive network_run :: "('db, 'p) storage_prims_scheme \<Rightarrow> ('m, 'i) wasmtime \<Rightarrow> rng \<Rightarrow> net_prims \<Rightarrow> genesis_config \<Rightarrow>
    (string \<times> bytes) set \<Rightarrow> ('n, 'peer, 'db, 'm) network \<Rightarrow> bool"
  for P W gen_range N g outside where
  created: "(\<And>n. get_genesis_hash P (db n) = Ok None) \<Longrightarrow> (\<And>n a. get_account P (db n) a = Ok None) \<Longrightarrow>
    (\<And>n. consensus_engine_new P (cfg n) g (db n) (vm n) (kp n) = Some (Ok (en n))) \<Longrightarrow>
    network_run P W gen_range N g outside
      \<lparr>nt_engine = en, nt_service = \<lambda>n. network_service_new (nc n) (peer n), nt_air = {}, nt_submitted = \<lambda>_. {},
       nt_sets = \<lambda>n. {fe_validator_set (ce_finality (en n))}\<rparr>"
| tick: "network_run P W gen_range N g outside net \<Longrightarrow> cc_enable_block_production (ce_config (nt_engine net n)) \<Longrightarrow>
    ce_keypair (nt_engine net n) = Some kp \<Longrightarrow> cs_height (ce_chain_state (nt_engine net n)) \<noteq> - 1 \<Longrightarrow>
    network_run P W gen_range N g outside (advance N lost n (snd (try_produce_block P W gen_range clock kp (nt_engine net n))) net)"
| deliver: "network_run P W gen_range N g outside net \<Longrightarrow> (topic, d) \<in> nt_air net \<union> outside \<Longrightarrow>
    cs_height (ce_chain_state (nt_engine net n)) \<noteq> - 1 \<Longrightarrow>
    service_event N random (GossipMessage d source) (nt_service net n) = (evs, s) \<Longrightarrow>
    network_run P W gen_range N g outside (advance N lost n (fold (on_network_event P W gen_range clock now) evs (nt_engine net n)) net)"
| submit: "network_run P W gen_range N g outside net \<Longrightarrow>
    network_run P W gen_range N g outside (advance N lost n (snd (on_transaction_received P now stx (nt_engine net n)))
      (net\<lparr>nt_submitted := (nt_submitted net)(n := insert stx (nt_submitted net n))\<rparr>))"
| connect: "network_run P W gen_range N g outside net \<Longrightarrow> service_event N random ev (nt_service net n) = (evs, s) \<Longrightarrow>
    (\<And>d source. ev \<noteq> GossipMessage d source) \<Longrightarrow>
    network_run P W gen_range N g outside (net\<lparr>nt_service := (nt_service net)(n := s)\<rparr>)"

section \<open>Every node keeps its invariant\<close>

lemma gossip_cases:
  assumes "service_event N random (GossipMessage d source) s = (evs, s')"
  obtains (none) "evs = []"
  | (block) b peer where "de_message N d = Some (MsgNewBlock b)" "evs = [BlockReceived b peer]"
  | (transaction) tx peer where "de_message N d = Some (MsgNewTransaction tx)" "evs = [TransactionReceived tx peer]"
  | (vote) v peer where "de_message N d = Some (MsgFinalityVote v)" "evs = [VoteReceived v peer]"
  using assms by (auto simp: gossip_event_def split: option.splits network_message.splits)

lemma advance_simps [simp]:
  "nt_engine (advance N lost n en net) m = (if m = n then en else nt_engine net m)"
  "nt_submitted (advance N lost n en net) = nt_submitted net" "nt_service (advance N lost n en net) = nt_service net"
  by (simp_all add: advance_def Let_def)

lemma network_reachable:
  "network_run P W gen_range N g outside net \<Longrightarrow> engine_reachable P W gen_range g (nt_engine net n)"
proof (induction rule: network_run.induct)
  case (created db cfg vm kp en nc peer)
  then show ?case using engine_reachable.created [of P "db n" "cfg n" g "vm n" "kp n" "en n"] by simp
next
  case (tick net k kp lost clock)
  then show ?case by (auto intro: engine_reachable.produced [OF _ _ prod.collapse [symmetric]])
next
  case (deliver net topic d k random source evs s lost clock now)
  from deliver.hyps(4) show ?case
  proof (cases rule: gossip_cases)
    case (block b peer)
    then show ?thesis using deliver by (auto intro: engine_reachable.received [OF _ _ prod.collapse [symmetric]])
  next
    case (transaction tx peer)
    then show ?thesis using deliver by (auto intro: engine_reachable.pooled [OF _ prod.collapse [symmetric]])
  next
    case (vote v peer)
    then show ?thesis using deliver by (auto intro: engine_reachable.voted [OF _ prod.collapse [symmetric]])
  qed (use deliver.IH in auto)
next
  case (submit net lost k now stx)
  then show ?case by (auto intro: engine_reachable.pooled [OF _ prod.collapse [symmetric]])
qed simp

text \<open>
  C5 (nodes of a network). In a network of any number of nodes, whatever outsiders send and whatever gets
  lost, repeated or reordered, the database of every node holds an unbroken chain from the common
  genesis block to the head that the node reports, and its pool holds verified transactions only,
  no more than configured.
\<close>

theorem network_nodes_consistent:
  assumes "storage_ok P" "network_run P W gen_range N g outside net" "en = nt_engine net n"
  shows "chain_inv P g (ce_chain_state en) \<and>
    (\<forall>k < ci_height (chain_info_of P en). linked P (cs_storage (ce_chain_state en)) k) \<and>
    get_chain_height P (cs_storage (ce_chain_state en)) = Ok (Some (ci_height (chain_info_of P en))) \<and>
    pending_count (ce_tx_pool en) \<le> cc_mempool_size (ce_config en) \<and>
    (\<forall>h stx. pool_get (ce_tx_pool en) h = Some stx \<longrightarrow> stx_hash stx = h \<and> stx_verify P stx = Ok ())"
proof -
  have inv: "chain_inv P g (ce_chain_state en)" "pool_inv P (ce_tx_pool en)"
    "tp_max_size (ce_tx_pool en) = cc_mempool_size (ce_config en)"
    using engine_reachable_inv [OF assms(1) network_reachable [OF assms(2)]] assms(3) by (simp_all add: engine_inv_def)
  then have "pending_count (ce_tx_pool en) \<le> cc_mempool_size (ce_config en)"
    "\<forall>h stx. pool_get (ce_tx_pool en) h = Some stx \<longrightarrow> stx_hash stx = h \<and> stx_verify P stx = Ok ()"
    by (auto simp: pool_inv_def pending_count_def pool_get_def entry_ok_def)
  then show ?thesis using inv(1) unfolding chain_inv_def chain_info_of_def Let_def by auto
qed

section \<open>What goes from node to node\<close>

text \<open>The transactions a pool holds.\<close>

definition pool_txs :: "transaction_pool \<Rightarrow> signed_transaction set" where
  "pool_txs pool = {stx. \<exists>h. pool_get pool h = Some stx}"

lemma pool_txs_remove: "pool_txs (snd (pool_remove pool h)) \<subseteq> pool_txs pool"
  by (auto simp: pool_txs_def pool_get_def pool_remove_def delete_conv' Let_def split: option.splits if_splits)

lemma pool_txs_prune: "pool_txs (prune_committed pool hs) \<subseteq> pool_txs pool"
  unfolding prune_committed_def remove_all_def
proof (induction hs arbitrary: pool)
  case (Cons h hs)
  then show ?case using pool_txs_remove [of pool h] by (simp, blast)
qed simp

lemma pool_txs_insert: "pool_insert P now pool stx = Ok pool' \<Longrightarrow> pool_txs pool' \<subseteq> insert stx (pool_txs pool)"
  by (auto simp: pool_insert_def pool_txs_def pool_get_def Let_def result_simps split: if_splits; blast)

lemma select_transactions_pool: "set (select_transactions pool gl mx) \<subseteq> pool_txs pool"
  using select_loop_mem [of _ "tp_pending pool" gl mx "candidates pool" "[]" 0]
  by (fastforce simp: select_transactions_def pool_txs_def pool_get_def)

text \<open>
  What a handler may change of an engine besides the chain: it adds events, blocks among them only of a given set of
  transactions, its pool grows only by given transactions, and configuration and key stay.
\<close>

definition engine_step :: "signed_transaction set \<Rightarrow> block set \<Rightarrow> ('db, 'm) consensus_engine \<Rightarrow> ('db, 'm) consensus_engine \<Rightarrow> bool" where
  "engine_step txs bs en en' \<longleftrightarrow> ce_config en' = ce_config en \<and> ce_keypair en' = ce_keypair en \<and>
     pool_txs (ce_tx_pool en') \<subseteq> pool_txs (ce_tx_pool en) \<union> txs \<and>
     (\<exists>es. ce_events en' = ce_events en @ es \<and> (\<forall>b. NewBlock b \<in> set es \<longrightarrow> b \<in> bs))"

lemma engine_step_trans: "engine_step t b x y \<Longrightarrow> engine_step t b y z \<Longrightarrow> engine_step t b x z"
  unfolding engine_step_def by (auto simp: Un_iff) 

lemma engine_step_mono: "engine_step t b x y \<Longrightarrow> t \<subseteq> t' \<Longrightarrow> b \<subseteq> b' \<Longrightarrow> engine_step t' b' x y"
  unfolding engine_step_def by blast

lemma engine_step_updates [simp]:
  "engine_step t bs en en" "engine_step t bs en (en\<lparr>ce_chain_state := cs\<rparr>)"
  "engine_step t bs en (en\<lparr>ce_chain_state := cs, ce_vm_engine := vm\<rparr>)" "engine_step t bs en (en\<lparr>ce_finality := fe\<rparr>)"
  "engine_step t bs en (en\<lparr>ce_seen_blocks := m\<rparr>)" "b \<in> bs \<Longrightarrow> engine_step t bs en (send_event (NewBlock b) en)"
  by (auto simp: engine_step_def send_event_def)

lemma after_apply_step:
  assumes "after_apply P now hs en = (r, en')"
  shows "engine_step {} {} en en'" "fe_votes (ce_finality en') = fe_votes (ce_finality en)"
    "fe_finalized_height (ce_finality en') = fe_finalized_height (ce_finality en)"
proof -
  obtain q cs where m: "maybe_advance_epoch P now (ce_chain_state en) (cc_consensus_params (ce_config en)) = (q, cs)" by force
  show "engine_step {} {} en en'"
    using assms m pool_txs_prune [of "ce_tx_pool en" hs]
    by (auto simp: after_apply_def engine_step_def send_event_def Let_def split: sum.splits option.splits)
  show "fe_votes (ce_finality en') = fe_votes (ce_finality en)" "fe_finalized_height (ce_finality en') = fe_finalized_height (ce_finality en)"
    using assms m by (auto simp: after_apply_def send_event_def update_validator_set_def Let_def split: sum.splits option.splits)
qed

lemma on_transaction_received_step: "engine_step {stx} {} en (snd (on_transaction_received P now stx en))"
  using pool_txs_insert [of P now "ce_tx_pool en" stx]
  by (auto simp: on_transaction_received_def engine_step_def send_event_def split: sum.split)

text \<open>A step without new transactions and without a change to the votes; it adds at most one block to the chain.\<close>

definition quiet_step :: "block set \<Rightarrow> ('db, 'm) consensus_engine \<Rightarrow> ('db, 'm) consensus_engine \<Rightarrow> bool" where
  "quiet_step bs en en' \<longleftrightarrow> engine_step {} bs en en' \<and> fe_votes (ce_finality en') = fe_votes (ce_finality en) \<and>
     fe_finalized_height (ce_finality en') = fe_finalized_height (ce_finality en) \<and>
     cs_height (ce_chain_state en') \<in> {cs_height (ce_chain_state en), cs_height (ce_chain_state en) + 1}"

lemma quiet_step_refl [simp]: "quiet_step bs en en"
  by (simp add: quiet_step_def)

lemma apply_block_height: "apply_block P W s b E = (r, s', E') \<Longrightarrow> cs_height s' \<in> {cs_height s, cs_height s + 1}"
  by (cases rule: apply_block_cases) auto

lemma accept_block_step [simp]: "quiet_step {b} en (snd (accept_block P W now b en))"
proof -
  obtain q cs vm where a: "apply_block P W (ce_chain_state en) b (ce_vm_engine en) = (q, cs, vm)" by (rule prod_cases3)
  let ?en = "en\<lparr>ce_chain_state := cs, ce_vm_engine := vm\<rparr>"
  obtain q2 en2 where p: "after_apply P now (map stx_hash (bk_transactions b)) ?en = (q2, en2)" by force
  have "engine_step {} {b} en en2"
    using engine_step_trans [of "{}" "{b}" en ?en en2] engine_step_mono [OF after_apply_step(1) [OF p]] by simp
  then have "engine_step {} {b} en (send_event (NewBlock b) en2)" by (rule engine_step_trans) simp
  with \<open>engine_step {} {b} en en2\<close> after_apply_step(2, 3) [OF p] after_apply_parts(3) [OF p] show ?thesis
    using a p apply_block_height [OF a] by (auto simp: quiet_step_def accept_block_def split: sum.split)
qed

lemma on_block_received_step: "quiet_step {b} en (snd (on_block_received P W gen_range clock b en))"
proof -
  have slash: "quiet_step {b} en (slash_double_sign P now ev v en)" for now ev v
    by (auto simp: quiet_step_def slash_double_sign_def Let_def split: option.split)
  have fresh: "quiet_step {b} en (snd (accept_block P W now b (en\<lparr>ce_seen_blocks := m\<rparr>)))" for now m
    using accept_block_step [of b "en\<lparr>ce_seen_blocks := m\<rparr>" P W now] by (simp add: quiet_step_def engine_step_def)
  show ?thesis unfolding on_block_received_def Let_def by (simp add: slash fresh split: sum.split option.split)
qed

text \<open>A block a node produces holds transactions of its pool; its vote is the only one added.\<close>

lemma try_produce_block_step:
  fixes en :: "('db, 'm) consensus_engine"
  assumes "en' = snd (try_produce_block P W gen_range clock kp en)"
  obtains (idle) "quiet_step {} en en'"
  | (produced) fe v where "engine_step {} {b. set (bk_transactions b) \<subseteq> pool_txs (ce_tx_pool en)} en en'"
      "fe_votes fe = fe_votes (ce_finality en)" "fe_finalized_height fe = fe_finalized_height (ce_finality en)"
      "fv_validator v = keypair_address P kp" "fv_block_number v = bh_number (bk_header (cs_head (ce_chain_state en))) + 1"
      "cs_height (ce_chain_state en') = bh_number (bk_header (cs_head (ce_chain_state en))) + 1"
      "ce_finality en' = (case add_vote P fe v of Ok (_, fe') \<Rightarrow> fe' | Err _ \<Rightarrow> fe)"
proof -
  let ?txs = "select_transactions (ce_tx_pool en) (cc_gas_limit_per_block (ce_config en)) (cc_max_transactions_per_block (ce_config en))"
  let ?b = "proposal P (ce_config en) (cs_head (ce_chain_state en)) (cs_current_epoch (ce_chain_state en)) kp ?txs (clock 0)"
  let ?own = "{b. set (bk_transactions b) \<subseteq> pool_txs (ce_tx_pool en)}"
  obtain q cs vm where a: "apply_block P W (ce_chain_state en) ?b (ce_vm_engine en) = (q, cs, vm)" by (rule prod_cases3)
  let ?en = "en\<lparr>ce_chain_state := cs, ce_vm_engine := vm\<rparr>"
  obtain q2 en2 where p: "after_apply P (clock 1) (map stx_hash ?txs) ?en = (q2, en2)" by force
  have step: "engine_step {} {} en en2" using engine_step_trans [OF _ after_apply_step(1) [OF p], of en] by simp
  let ?v = "\<lambda>rs. finality_vote_new P (bh_number (bk_header (cs_head (ce_chain_state en))) + 1) (block_hash P (seal P kp rs ?b)) kp (clock 2)"
  let ?out = "\<lambda>rs v. send_event (NewBlock (seal P kp rs ?b)) (en2\<lparr>ce_finality := (case add_vote P (ce_finality en2) v of Ok (_, fe') \<Rightarrow> fe' | Err _ \<Rightarrow> ce_finality en2)\<rparr>)"
  have "en' = en \<or> en' = (case q of Err _ \<Rightarrow> ?en | Ok rs \<Rightarrow> (case q2 of Err _ \<Rightarrow> en2 | Ok _ \<Rightarrow> ?out rs (?v rs)))"
    unfolding assms try_produce_block_def Let_def a p by (cases q; cases q2) (simp_all add: p split: sum.split del: One_nat_def)
  then consider "en' = en" | "en' = ?en" | "en' = en2" | rs v where "q = Ok rs" "en' = ?out rs v" "v = ?v rs"
    by (cases q; cases q2) auto
  then show thesis
  proof cases
    case (4 rs v)
    have "set (bk_transactions (seal P kp rs ?b)) \<subseteq> pool_txs (ce_tx_pool en)"
      using select_transactions_pool by (simp add: seal_def proposal_def)
    then have "engine_step {} ?own en2 en'" using 4(2) by (auto simp: engine_step_def send_event_def)
    then have s: "engine_step {} ?own en en'" using engine_step_trans [OF engine_step_mono [OF step]] by blast
    have "cs_height cs = bh_number (bk_header (cs_head (ce_chain_state en))) + 1"
      using a unfolding 4(1) by (cases rule: apply_block_cases) (simp_all add: proposal_def)
    then show thesis using produced [OF s after_apply_step(2, 3) [OF p, simplified], of v] 4(2, 3) after_apply_parts(3) [OF p]
      by (simp add: finality_vote_new_def)
  qed (use idle step after_apply_step(2, 3) [OF p] after_apply_parts(3) [OF p] apply_block_height [OF a] in \<open>simp_all add: quiet_step_def\<close>)
qed

lemma on_vote_received_step: "engine_step {} {} en (snd (on_vote_received P v en))"
  by (auto simp: on_vote_received_def engine_step_def send_event_def Let_def split: sum.split)

text \<open>The transactions of a block that were given to nodes which produce blocks.\<close>

definition block_local :: "('n, 'peer, 'db, 'm) network \<Rightarrow> block \<Rightarrow> bool" where
  "block_local net b \<longleftrightarrow> (\<forall>stx \<in> set (bk_transactions b). \<exists>m. cc_enable_block_production (ce_config (nt_engine net m)) \<and> stx \<in> nt_submitted net m)"

definition closed_inv :: "net_prims \<Rightarrow> ('n, 'peer, 'db, 'm) network \<Rightarrow> bool" where
  "closed_inv N net \<longleftrightarrow> (\<forall>n. pool_txs (ce_tx_pool (nt_engine net n)) \<subseteq> nt_submitted net n) \<and>
     (\<forall>n b. NewBlock b \<in> set (ce_events (nt_engine net n)) \<longrightarrow> block_local net b) \<and>
     (\<forall>(topic, d) \<in> nt_air net. \<exists>b. de_message N d = Some (MsgNewBlock b) \<and> block_local net b)"

lemma announcements_blocks:
  assumes "message_codec N" "(topic, d) \<in> announcements N s evs"
  shows "\<exists>b. NewBlock b \<in> set evs \<and> de_message N d = Some (MsgNewBlock b)"
proof -
  obtain e c calls s' where e: "e \<in> set evs" "broadcast_command e = Some c" "service_command N (Some c) s = Some (calls, s')" "Publish topic d \<in> set calls"
    using assms(2) by (auto simp: announcements_def)
  then show ?thesis using assms(1) by (cases e rule: consensus_event.exhaust) (auto simp: publish_def message_codec_def split: option.splits)
qed

lemma closed_step:
  assumes "message_codec N" "closed_inv N net" "engine_step txs bs (nt_engine net n) en'"
    and "txs \<subseteq> nt_submitted net n" "\<forall>b \<in> bs. block_local net b"
  shows "closed_inv N (advance N lost n en' net)"
proof -
  obtain es where es: "ce_events en' = ce_events (nt_engine net n) @ es" "\<forall>b. NewBlock b \<in> set es \<longrightarrow> b \<in> bs"
    and pool: "pool_txs (ce_tx_pool en') \<subseteq> pool_txs (ce_tx_pool (nt_engine net n)) \<union> txs" and cfg: "ce_config en' = ce_config (nt_engine net n)"
    using assms(3) by (auto simp: engine_step_def)
  have loc: "block_local (advance N lost n en' net) b = block_local net b" for b
    using cfg by (auto simp: block_local_def)
  have "\<exists>b. de_message N d = Some (MsgNewBlock b) \<and> block_local net b" if "(topic, d) \<in> nt_air (advance N lost n en' net)" for topic d
    using that assms(2, 5) es announcements_blocks [OF assms(1), of topic d "nt_service net n" es]
    by (auto simp: advance_def closed_inv_def Let_def)
  moreover have "block_local net b" if "NewBlock b \<in> set (ce_events (nt_engine (advance N lost n en' net) k))" for k b
    using that es assms(2, 5) by (auto simp: closed_inv_def split: if_splits)
  moreover have "pool_txs (ce_tx_pool (nt_engine (advance N lost n en' net) k)) \<subseteq> nt_submitted net k" for k
    using pool assms(2, 4) by (auto simp: closed_inv_def)
  ultimately show ?thesis unfolding closed_inv_def loc by auto
qed

lemma closed_submit:
  assumes "closed_inv N net"
  shows "closed_inv N (net\<lparr>nt_submitted := (nt_submitted net)(n := insert stx (nt_submitted net n))\<rparr>)"
proof -
  have "block_local (net\<lparr>nt_submitted := (nt_submitted net)(n := insert stx (nt_submitted net n))\<rparr>) b" if "block_local net b" for b
    using that by (fastforce simp: block_local_def)
  then show ?thesis using assms by (fastforce simp: closed_inv_def)
qed

lemma network_closed:
  assumes "message_codec N" "network_run P W gen_range N g {} net"
  shows "closed_inv N net"
  using assms(2)
proof (induction rule: network_run.induct)
  case (created db cfg vm kp en nc peer)
  have "pool_txs (ce_tx_pool (en n)) = {}" "ce_events (en n) = []" for n
    using created(3) [of n] by (auto simp: consensus_engine_new_def map_ok_eq_Ok pool_txs_def pool_get_def pool_new_def)
  then show ?case by (simp add: closed_inv_def)
next
  case (tick net n kp lost clock)
  have local: "block_local net b" if "set (bk_transactions b) \<subseteq> pool_txs (ce_tx_pool (nt_engine net n))" for b
    using that tick.IH tick.hyps(2) by (fastforce simp: block_local_def closed_inv_def)
  show ?case
    by (rule try_produce_block_step [OF refl, where P = P and W = W and gen_range = gen_range and clock = clock and kp = kp and en = "nt_engine net n"]; rule closed_step [OF assms(1) tick.IH])
      (use local in \<open>auto simp: quiet_step_def\<close>)
next
  case (deliver net topic d n random source evs s lost clock now)
  then obtain b where b: "de_message N d = Some (MsgNewBlock b)" "block_local net b" by (auto simp: closed_inv_def)
  from deliver.hyps(4) show ?case
  proof (cases rule: gossip_cases)
    case (block b' peer)
    have "engine_step {} {b} (nt_engine net n) (snd (on_block_received P W gen_range clock b (nt_engine net n)))"
      using on_block_received_step [of b "nt_engine net n" P W gen_range clock] by (simp add: quiet_step_def)
    then show ?thesis using closed_step [OF assms(1) deliver.IH, of "{}" "{b}"] b block by simp
  qed (use b closed_step [OF assms(1) deliver.IH, of "{}" "{}"] in auto)
next
  case (submit net lost n now stx)
  show ?case by (rule closed_step [OF assms(1) closed_submit [OF submit.IH]]) (use on_transaction_received_step in auto)
next
  case (connect net random ev n evs s)
  then show ?case by (simp add: closed_inv_def block_local_def)
qed

text \<open>
  C29 (transactions stay where they were given). Nothing sends a transaction to the network. In a network
  without outside messages a node's pool holds only transactions that were given to this very node, and
  every transaction in a block that a node announces or accepts was given to a node that produces
  blocks: one given only to other nodes gets into no block.
\<close>

theorem transactions_stay_local:
  assumes "message_codec N" "network_run P W gen_range N g {} net"
  shows "(\<forall>h stx. pool_get (ce_tx_pool (nt_engine net n)) h = Some stx \<longrightarrow> stx \<in> nt_submitted net n) \<and>
    (\<forall>b stx. NewBlock b \<in> set (ce_events (nt_engine net n)) \<and> stx \<in> set (bk_transactions b) \<longrightarrow>
       (\<exists>m. cc_enable_block_production (ce_config (nt_engine net m)) \<and> stx \<in> nt_submitted net m))"
  using network_closed [OF assms] by (auto simp: closed_inv_def block_local_def pool_txs_def)

section \<open>Votes\<close>

definition own_votes :: "'p crypto_prims_scheme \<Rightarrow> ('db, 'm) consensus_engine \<Rightarrow> bool" where
  "own_votes P en \<longleftrightarrow> fe_finalized_height (ce_finality en) = 0 \<and>
     (\<forall>k vs. hm_get (fe_votes (ce_finality en)) k = Some vs \<longrightarrow> k \<le> cs_height (ce_chain_state en) \<and>
        (\<forall>v \<in> set vs. \<exists>kp. ce_keypair en = Some kp \<and> fv_validator v = keypair_address P kp))"

text \<open>The validator with a node's key does not make a quorum alone.\<close>

definition not_alone :: "'p crypto_prims_scheme \<Rightarrow> key_pair option \<Rightarrow> validator_set \<Rightarrow> bool" where
  "not_alone P key vs \<longleftrightarrow> (\<forall>kp w. key = Some kp \<and> get_validator vs (keypair_address P kp) = Some w \<longrightarrow> vi_stake w < quorum_threshold vs)"

lemma le_succ: "(h :: 'a::len word) \<noteq> - 1 \<Longrightarrow> h \<le> h + 1"
  using unatSuc [of h] by (simp add: word_le_nat_alt add.commute eq_neg_iff_add_eq_0)

lemma quiet_own_votes:
  assumes "own_votes P en" "quiet_step bs en en'" "cs_height (ce_chain_state en) \<noteq> - 1"
  shows "own_votes P en'"
proof -
  have "cs_height (ce_chain_state en) \<le> cs_height (ce_chain_state en')"
    using assms(2) le_succ [OF assms(3)] by (auto simp: quiet_step_def)
  moreover have "ce_keypair en' = ce_keypair en" using assms(2) by (simp add: quiet_step_def engine_step_def)
  ultimately show ?thesis using assms(1, 2) order_trans by (fastforce simp: own_votes_def quiet_step_def)
qed

lemma is_validator_get: "is_validator vs a \<Longrightarrow> get_validator vs a \<noteq> None"
  by (auto simp: is_validator_def get_validator_def find_None_iff list_ex_iff active_validators_def)

lemma check_quorum_single:
  assumes "hm_get (fe_votes fe) k = Some [v]" "get_validator (fe_validator_set fe) (fv_validator v) = Some w" "vi_stake w < quorum_threshold (fe_validator_set fe)"
  shows "snd (check_quorum fe k) = fe"
  using assms by (simp add: check_quorum_def voted_stake_def List.map_filter_simps Let_def)

lemma check_quorum_set: "fe_validator_set (snd (check_quorum fe k)) = fe_validator_set fe"
  by (simp add: check_quorum_def Let_def split: option.split)

lemma produced_own_votes:
  fixes en en' :: "('db, 'm) consensus_engine"
  assumes own: "own_votes P en" and h: "cs_height (ce_chain_state en) \<noteq> - 1" "bh_number (bk_header (cs_head (ce_chain_state en))) = cs_height (ce_chain_state en)"
    and kp: "ce_keypair en = Some kp" and en': "en' = snd (try_produce_block P W gen_range clock kp en)"
    and set: "not_alone P (Some kp) (fe_validator_set (ce_finality en'))"
  shows "own_votes P en'"
  using en'
proof (cases rule: try_produce_block_step)
  case idle
  then show ?thesis using quiet_own_votes [OF own _ h(1)] by blast
next
  case (produced fe v)
  let ?n = "cs_height (ce_chain_state en) + 1"
  have key: "ce_keypair en' = Some kp" using produced(1) kp by (simp add: engine_step_def)
  have fe: "fe_finalized_height fe = 0" "\<And>k vs. hm_get (fe_votes fe) k = Some vs \<Longrightarrow> k \<le> cs_height (ce_chain_state en) \<and> (\<forall>v \<in> set vs. fv_validator v = keypair_address P kp)"
    using own produced(2, 3) kp by (auto simp: own_votes_def)
  have n: "cs_height (ce_chain_state en) < ?n" "fv_block_number v = ?n" "cs_height (ce_chain_state en') = ?n"
    using h le_succ [OF h(1)] produced(5, 6) by (simp_all add: order_less_le)
  then have new: "hm_get (fe_votes fe) ?n = None" using fe(2) [of ?n] by (cases "hm_get (fe_votes fe) ?n") (auto simp: not_le)
  have all: "\<And>k vs. hm_get (fe_votes fe) k = Some vs \<Longrightarrow> k \<le> ?n \<and> (\<forall>v \<in> set vs. fv_validator v = keypair_address P kp)"
    using fe(2) n(1) by fastforce
  show ?thesis
  proof (cases "add_vote P fe v")
    case (Inl e)
    then show ?thesis using produced(7) fe(1) all key n(3) by (auto simp: own_votes_def)
  next
    case (Inr r)
    then obtain st fe' where r: "add_vote P fe v = Ok (st, fe')" by (cases r) auto
    let ?fe = "fe\<lparr>fe_votes := hm_put ?n [v] (fe_votes fe)\<rparr>"
    have q: "fe' = snd (check_quorum ?fe ?n)" and val: "is_validator (fe_validator_set fe) (fv_validator v)"
      using add_vote_cases [OF r] n(1, 2) new fe(1) by (auto simp: recorded_votes_def prod_eq_iff)
    have "fe_validator_set fe' = fe_validator_set fe" using q check_quorum_set [of ?fe] by simp
    then have "not_alone P (Some kp) (fe_validator_set fe)" using set produced(7) r by simp
    then have "fe' = ?fe" using q check_quorum_single [of ?fe ?n v] is_validator_get [OF val] produced(4) by (fastforce simp: not_alone_def)
    then show ?thesis using produced(4, 7) r fe(1) all key n(3) by (auto simp: own_votes_def split: if_splits)
  qed
qed

lemma network_own_votes:
  assumes "storage_ok P" "message_codec N" "network_run P W gen_range N g {} net"
    and "\<forall>vs \<in> nt_sets net n. not_alone P (ce_keypair (nt_engine net n)) vs"
  shows "own_votes P (nt_engine net n)"
  using assms(3, 4)
proof (induction rule: network_run.induct)
  case (created db cfg vm kp en nc peer)
  show ?case using created(3) [of n] by (auto simp: consensus_engine_new_def map_ok_eq_Ok own_votes_def finality_engine_new_def)
next
  case (tick net k kp lost clock)
  show ?case
  proof (cases "k = n")
    case True
    let ?en' = "snd (try_produce_block P W gen_range clock kp (nt_engine net n))"
    have key: "ce_keypair ?en' = Some kp"
      by (rule try_produce_block_step [OF refl, where P = P and W = W and gen_range = gen_range and clock = clock and kp = kp and en = "nt_engine net n"])
        (use tick.hyps(3) True in \<open>auto simp: quiet_step_def engine_step_def\<close>)
    have prems: "not_alone P (Some kp) (fe_validator_set (ce_finality ?en'))" "\<forall>vs \<in> nt_sets net n. not_alone P (Some kp) vs"
      using tick.prems True key by (simp_all add: advance_def Let_def)
    have "bh_number (bk_header (cs_head (ce_chain_state (nt_engine net n)))) = cs_height (ce_chain_state (nt_engine net n))"
      using engine_reachable_inv [OF assms(1) network_reachable [OF tick.hyps(1)], of n] by (simp add: engine_inv_def chain_inv_def)
    then show ?thesis
      using produced_own_votes [OF tick.IH _ _ _ refl prems(1)] tick.hyps(3, 4) prems(2) True by simp
  qed (use tick in \<open>simp add: advance_def Let_def\<close>)
next
  case (deliver net topic d k random source evs s lost clock now)
  show ?case
  proof (cases "k = n")
    case True
    obtain b where b: "de_message N d = Some (MsgNewBlock b)"
      using network_closed [OF assms(2) deliver.hyps(1)] deliver.hyps(2) by (auto simp: closed_inv_def)
    let ?en' = "fold (on_network_event P W gen_range clock now) evs (nt_engine net n)"
    have "quiet_step {b} (nt_engine net n) ?en'"
      using deliver.hyps(4) by (cases rule: gossip_cases) (use b on_block_received_step [of b "nt_engine net n" P W gen_range clock] in auto)
    moreover from this have "ce_keypair ?en' = ce_keypair (nt_engine net n)" by (simp add: quiet_step_def engine_step_def)
    ultimately show ?thesis using quiet_own_votes [OF deliver.IH] deliver.hyps(3) deliver.prems True by (simp add: advance_def Let_def)
  qed (use deliver in \<open>simp add: advance_def Let_def\<close>)
next
  case (submit net lost k now stx)
  have "own_votes P (snd (on_transaction_received P now stx (nt_engine net n))) = own_votes P (nt_engine net n)"
    "ce_keypair (snd (on_transaction_received P now stx (nt_engine net n))) = ce_keypair (nt_engine net n)"
    by (simp_all add: on_transaction_received_def own_votes_def send_event_def split: sum.split)
  then show ?case using submit by (simp add: advance_def Let_def split: if_splits)
qed simp

text \<open>
  C28 (votes stay where they were cast). A node that produces a block votes for it, but nothing sends the
  vote to the network. In a network without outside messages every vote a node has counted is its own,
  and as long as in none of the validator sets it has had its own stake makes a quorum alone, nothing
  beyond the genesis block ever becomes final for it.
\<close>

theorem votes_stay_local:
  assumes "storage_ok P" "message_codec N" "network_run P W gen_range N g {} net"
    and "\<forall>vs \<in> nt_sets net n. not_alone P (ce_keypair (nt_engine net n)) vs"
  shows "ci_finalized_height (chain_info_of P (nt_engine net n)) = 0 \<and>
    (\<forall>k vs v. hm_get (fe_votes (ce_finality (nt_engine net n))) k = Some vs \<and> v \<in> set vs \<longrightarrow>
       (\<exists>kp. ce_keypair (nt_engine net n) = Some kp \<and> fv_validator v = keypair_address P kp))"
  using network_own_votes [OF assms] by (auto simp: own_votes_def chain_info_of_def Let_def)

text \<open>What a node broadcasts reaches another node as the event for it.\<close>

lemma broadcast_arrives:
  assumes "message_codec N" "service_command N (Some c) s = Some (calls, s')" "Publish topic d \<in> set calls"
  shows "\<exists>m. service_event N random (GossipMessage d (Some peer)) t = (gossip_event peer m, t) \<and>
    (case c of BroadcastBlock b \<Rightarrow> m = MsgNewBlock b | BroadcastTransaction tx \<Rightarrow> m = MsgNewTransaction tx
     | BroadcastVote v \<Rightarrow> m = MsgFinalityVote v | _ \<Rightarrow> False)"
  using assms by (cases c) (auto simp: publish_def message_codec_def split: option.splits)

text \<open>An example: two nodes without keys, the first of which is given a transaction.\<close>

definition example_net_tx :: signed_transaction where
  "example_net_tx = signed_transaction_new example_chain_prims
     \<lparr>tx_chain_id = 1, tx_nonce = 0, tx_from = keypair_address example_chain_prims example_kp, tx_to = Some 7, tx_value = 5,
      tx_type = Transfer, tx_gas_limit = 30000, tx_gas_price = 1, tx_data = [], tx_timestamp = 1\<rparr> example_kp"

definition example_net_prims :: net_prims where
  "example_net_prims = \<lparr>ser_message = \<lambda>m. if m = MsgNewBlock example_block0 then Some [1] else None,
     de_message = \<lambda>d. if d = [1] then Some (MsgNewBlock example_block0) else None\<rparr>"

lemma example_net_codec: "message_codec example_net_prims"
  by (simp add: message_codec_def example_net_prims_def)

lemma example_network:
  obtains net :: "(bool, nat, mem_db, unit) network"
  where "network_run example_chain_prims sending_module example_rng example_net_prims example_genesis {} net"
    "pool_get (ce_tx_pool (nt_engine net True)) (stx_hash example_net_tx) = Some example_net_tx" "\<And>n. ce_keypair (nt_engine net n) = None"
proof -
  let ?P = example_chain_prims
  obtain s where s: "from_genesis ?P example_genesis Map.empty = Some (Ok s)" using example_start by blast
  then obtain en :: "(mem_db, unit) consensus_engine" where en: "consensus_engine_new ?P consensus_config_default example_genesis
      Map.empty (wasm_engine_new vm_config_default) None = Some (Ok en)" "ce_tx_pool en = pool_new 10000 1" "ce_keypair en = None"
    by (simp add: consensus_engine_new_def consensus_config_default_def)
  have new: "network_run ?P sending_module example_rng example_net_prims example_genesis {}
     \<lparr>nt_engine = \<lambda>n :: bool. en, nt_service = \<lambda>n. network_service_new network_config_default (0 :: nat), nt_air = {}, nt_submitted = \<lambda>_. {},
      nt_sets = \<lambda>n. {fe_validator_set (ce_finality en)}\<rparr>"
    by (rule network_run.created [of ?P "\<lambda>_. Map.empty" "\<lambda>_. consensus_config_default" _ "\<lambda>_. wasm_engine_new vm_config_default" "\<lambda>_. None" "\<lambda>_. en"])
      (use en in \<open>simp_all add: get_genesis_hash_def get_account_def get_typed_def get_cf_def example_chain_prims_def\<close>)
  have ed: "ed25519_correct ?P"
    by (simp add: example_chain_prims_def ed25519_correct_def mem_prims_def example_block_prims_def example_tx_prims_def example_prims_def
        storage_prims.defs block_prims.defs tx_prims.defs crypto_prims.defs)
  have "stx_verify ?P example_net_tx = Ok ()" unfolding example_net_tx_def by (rule stx_verify_new [OF ed]) (simp_all add: tx_wf_def)
  moreover have "tx_gas_price (stx_transaction example_net_tx) = 1" by (simp add: example_net_tx_def signed_transaction_new_def Let_def)
  ultimately have "pool_get (ce_tx_pool (snd (on_transaction_received ?P 0 example_net_tx en))) (stx_hash example_net_tx) = Some example_net_tx"
    "ce_keypair (snd (on_transaction_received ?P 0 example_net_tx en)) = None"
    using en(2, 3) by (simp_all add: on_transaction_received_def pool_insert_def pool_new_def hm_contains_def pool_get_def send_event_def Let_def)
  then show thesis using that network_run.submit [OF new, of "{}" True 0 example_net_tx] en(3) by simp
qed

theorem network_nodes_consistent_witness:
  "\<exists>net :: (bool, nat, mem_db, unit) network. network_run example_chain_prims sending_module example_rng example_net_prims example_genesis {} net \<and>
     stx_verify example_chain_prims example_net_tx = Ok () \<and> chain_inv example_chain_prims example_genesis (ce_chain_state (nt_engine net False))"
proof -
  obtain net :: "(bool, nat, mem_db, unit) network" where
    net: "network_run example_chain_prims sending_module example_rng example_net_prims example_genesis {} net"
      "pool_get (ce_tx_pool (nt_engine net True)) (stx_hash example_net_tx) = Some example_net_tx" by (rule example_network)
  then show ?thesis using network_nodes_consistent [OF example_chain_ok net(1) refl] by blast
qed

theorem transactions_stay_local_witness:
  "\<exists>net :: (bool, nat, mem_db, unit) network. network_run example_chain_prims sending_module example_rng example_net_prims example_genesis {} net \<and>
     example_net_tx \<in> nt_submitted net True"
proof -
  obtain net :: "(bool, nat, mem_db, unit) network" where
    net: "network_run example_chain_prims sending_module example_rng example_net_prims example_genesis {} net"
      "pool_get (ce_tx_pool (nt_engine net True)) (stx_hash example_net_tx) = Some example_net_tx" by (rule example_network)
  then show ?thesis using transactions_stay_local [OF example_net_codec net(1)] by blast
qed

theorem votes_stay_local_witness:
  "\<exists>net :: (bool, nat, mem_db, unit) network. network_run example_chain_prims sending_module example_rng example_net_prims example_genesis {} net \<and>
     ci_finalized_height (chain_info_of example_chain_prims (nt_engine net True)) = 0"
proof -
  obtain net :: "(bool, nat, mem_db, unit) network" where
    net: "network_run example_chain_prims sending_module example_rng example_net_prims example_genesis {} net"
      "\<And>n. ce_keypair (nt_engine net n) = None" by (rule example_network) blast
  then show ?thesis using votes_stay_local [OF example_chain_ok example_net_codec net(1), of True] by (auto simp: not_alone_def)
qed

end
