(* ===== verification/Node.thy ===== *)
theory Node
  imports Network Api_Server Keystore
begin

text \<open>
  The node program: its configuration (\<open>crates/node/src/config.rs\<close>), its commands (\<open>main.rs\<close>) and the
  start of the application (\<open>app.rs\<close>; the tasks it then runs are in the theory on the network). Files
  read, generated keys, the clock and the opened database are arguments; logging and the command
  line parser are left out.

  Shown: a development node proposes every block of its first epoch itself; a validator started with
  a key file signs with a fresh key instead, and never proposes.
\<close>

section \<open>Configuration\<close>

record logging_config =
  lg_level :: string
  lg_format :: string
  lg_file :: "string option"

definition logging_config_default :: logging_config where
  "logging_config_default = \<lparr>lg_level = ''info'', lg_format = ''pretty'', lg_file = None\<rparr>"

record storage_config =
  sg_path :: string
  sg_cache_size_mb :: nat
  sg_max_open_files :: int
  sg_write_buffer_size_mb :: nat
  sg_enable_statistics :: bool

definition storage_config_default :: storage_config where
  "storage_config_default = \<lparr>sg_path = ''./data/chaindb'', sg_cache_size_mb = 256, sg_max_open_files = 512,
     sg_write_buffer_size_mb = 64, sg_enable_statistics = False\<rparr>"

record node_config =
  nd_genesis :: genesis_config
  nd_storage :: storage_config
  nd_network :: network_config
  nd_consensus :: consensus_config
  nd_api :: api_config
  nd_vm :: vm_config
  nd_logging :: logging_config

text \<open>\<open>NodeConfig::load\<close>: the contents of the file and the TOML reader are arguments.\<close>

definition load_config :: "(string \<Rightarrow> string + node_config) \<Rightarrow> string + string \<Rightarrow> string + node_config" where
  "load_config toml file = and_then file toml"

definition node_devnet :: "'p crypto_prims_scheme \<Rightarrow> key_pair \<Rightarrow> timestamp \<Rightarrow> node_config \<times> key_pair" where
  "node_devnet P kp now = (let g = devnet_default P kp now in
     (\<lparr>nd_genesis = g, nd_storage = storage_config_default, nd_network = network_config_default,
       nd_consensus = consensus_config_default\<lparr>cc_chain_id := gc_chain_id g, cc_block_time_ms := cp_block_time_ms (gc_consensus_params g),
         cc_consensus_params := gc_consensus_params g, cc_gas_limit_per_block := gc_gas_limit g, cc_enable_block_production := True\<rparr>,
       nd_api = api_config_default, nd_vm = vm_config_default, nd_logging = logging_config_default\<rparr>, kp))"

section \<open>Commands\<close>

definition set_production :: "bool \<Rightarrow> string \<Rightarrow> node_config \<Rightarrow> node_config" where
  "set_production b path cfg = cfg\<lparr>nd_consensus := (nd_consensus cfg)\<lparr>cc_enable_block_production := b\<rparr>,
     nd_storage := (nd_storage cfg)\<lparr>sg_path := path\<rparr>\<rparr>"

text \<open>\<open>Commands::Run\<close>: the configuration and the key that the application is given.\<close>

definition run_setup :: "'p crypto_prims_scheme \<Rightarrow> string + node_config \<Rightarrow> key_pair \<Rightarrow> timestamp \<Rightarrow> string \<Rightarrow> bool \<Rightarrow> string option \<Rightarrow> bool \<Rightarrow>
    string + (node_config \<times> key_pair option)" where
  "run_setup P loaded generated now path validator keyfile devnet =
     (if devnet then (case node_devnet P generated now of (cfg, kp) \<Rightarrow> Ok (set_production True path cfg, Some kp))
      else map_ok (\<lambda>cfg. (set_production validator path cfg, None)) loaded)"

text \<open>\<open>Commands::Init\<close>: the genesis is loaded, checked and written; \<open>None\<close> is a panic.\<close>

definition init_chain :: "('db, 'p) storage_prims_scheme \<Rightarrow> string + genesis_config \<Rightarrow> 'db \<Rightarrow> (string + 'db chain_state) option" where
  "init_chain P loaded db =
     (case and_then loaded (\<lambda>g. map_ok (\<lambda>_. g) (map_err core_error_to_string (genesis_validate P g))) of
        Err e \<Rightarrow> Some (Err e)
      | Ok g \<Rightarrow> map_option (map_err consensus_error_to_string) (from_genesis P g db))"

text \<open>\<open>Commands::Keygen\<close>: a generated key goes to an encrypted file; address and public key are printed.\<close>

definition keygen :: "'p crypto_prims_scheme \<Rightarrow> ('v, 'w, 'a) keystore_prims_scheme \<Rightarrow> 256 word \<Rightarrow> 96 word \<Rightarrow> string option \<Rightarrow>
    (string, bytes) hmap \<Rightarrow> key_pair \<Rightarrow> string \<Rightarrow> string \<Rightarrow> crypto_error + (address \<times> public_key \<times> (string, bytes) hmap)" where
  "keygen P K salt nonce io fs generated password output =
     map_ok (\<lambda>fs'. (keypair_address P generated, keypair_public_key P generated, fs')) (save_to_file K salt nonce io fs generated password output)"

section \<open>The application\<close>

text \<open>The key the engine gets: the given one or else a generated one, and none without block production.\<close>

definition application_key :: "node_config \<Rightarrow> key_pair option \<Rightarrow> key_pair \<Rightarrow> key_pair option" where
  "application_key cfg keypair generated =
     (if cc_enable_block_production (nd_consensus cfg) then Some (unwrap_or generated keypair) else None)"

definition application_engine :: "('db, 'p) storage_prims_scheme \<Rightarrow> node_config \<Rightarrow> key_pair option \<Rightarrow> key_pair \<Rightarrow> 'db \<Rightarrow>
    (consensus_error + ('db, 'm) consensus_engine) option" where
  "application_engine P cfg keypair generated db =
     consensus_engine_new P (nd_consensus cfg) (nd_genesis cfg) db (wasm_engine_new (nd_vm cfg)) (application_key cfg keypair generated)"

section \<open>Who proposes\<close>

lemma pick_loop_mem: "pick_loop vs t c = Some a \<Longrightarrow> a \<in> vi_address ` set vs"
  by (induction vs t c rule: pick_loop.induct) (auto split: if_splits)

lemma select_proposer_mem: "select_proposer P gen_range avs parent n = Ok a \<Longrightarrow> a \<in> vi_address ` set avs"
proof -
  assume a: "select_proposer P gen_range avs parent n = Ok a"
  then have "avs \<noteq> []" by (auto simp: select_proposer_def)
  then have "vi_address (hd avs) \<in> vi_address ` set avs" "vi_address (last avs) \<in> vi_address ` set avs" by simp_all
  moreover have "unwrap_or d (pick_loop avs t c) \<in> insert d (vi_address ` set avs)" for d t c
    using pick_loop_mem [of avs t c] by (cases "pick_loop avs t c") auto
  ultimately show ?thesis using a by (fastforce simp: select_proposer_def Let_def split: if_splits)
qed

text \<open>
  C37 (a validator's key file is not read). A node started as a validator outside development mode gets a
  generated key, whatever key file it is told to use. Unless that key happens to belong to an active
  validator of the epoch, every attempt to produce a block leaves the engine as it is: as long as no
  block arrives, the node never proposes.
\<close>

theorem validator_key_ignored:
  assumes "run_setup P loaded gk now path True keyfile False = Ok (cfg, key)"
    and "application_engine P cfg key generated db = Some (Ok en)"
  shows "ce_keypair en = Some generated \<and>
    (\<forall>keyfile'. run_setup P loaded gk now path True keyfile' False = Ok (cfg, key)) \<and>
    (keypair_address P generated \<notin> vi_address ` set (active_validators (ep_validator_set (cs_current_epoch (ce_chain_state en)))) \<longrightarrow>
      (\<forall>ticks. snd (start P W gen_range ticks en) = en))"
proof -
  have cfg: "key = None" "cc_enable_block_production (nd_consensus cfg)"
    using assms(1) by (auto simp: run_setup_def set_production_def result_simps)
  then have en: "ce_keypair en = Some generated" "cc_enable_block_production (ce_config en)"
    using assms(2) by (auto simp: application_engine_def application_key_def consensus_engine_new_def result_simps)
  have "snd (start P W gen_range ticks en) = en"
    if "keypair_address P generated \<notin> vi_address ` set (active_validators (ep_validator_set (cs_current_epoch (ce_chain_state en))))" for ticks
  proof -
    have stay: "snd (try_produce_block P W gen_range clock generated en) = en" for clock
      using that select_proposer_mem by (fastforce simp: try_produce_block_def Let_def split: sum.split)
    have "fold (\<lambda>clock en. snd (try_produce_block P W gen_range clock generated en)) ticks en = en"
      by (induction ticks) (simp_all add: stay)
    then show ?thesis using en by (simp add: start_def)
  qed
  then show ?thesis using en(1) assms(1) by (simp add: run_setup_def)
qed

text \<open>The first epoch of a new chain has the validators of the genesis.\<close>

lemma from_genesis_epoch:
  assumes "from_genesis P g db = Some (Ok s)" "get_genesis_hash P db = Ok None"
  shows "cs_current_epoch s = epoch_of g 0 0 (cp_epoch_length (gc_consensus_params g) - 1)"
  using assms by (auto simp: from_genesis_def init_genesis_def Let_def result_simps split: sum.splits option.splits)

text \<open>
  A development node is the only validator of its genesis, and so the proposer of every block of its first epoch.
\<close>

lemma devnet_proposes:
  assumes "run_setup P loaded gk now path validator keyfile True = Ok (cfg, key)" "get_genesis_hash P db = Ok None"
    and "application_engine P cfg key generated db = Some (Ok en)"
  shows "ce_keypair en = Some gk \<and> select_proposer P gen_range
    (active_validators (ep_validator_set (cs_current_epoch (ce_chain_state en)))) parent n = Ok (keypair_address P gk)"
proof -
  have cfg: "nd_genesis cfg = devnet_default P gk now" "key = Some gk" "cc_enable_block_production (nd_consensus cfg)"
    using assms(1) by (auto simp: run_setup_def node_devnet_def set_production_def Let_def)
  obtain s where s: "from_genesis P (devnet_default P gk now) db = Some (Ok s)" "ce_chain_state en = s" "ce_keypair en = Some gk"
    using assms(3) cfg by (auto simp: application_engine_def application_key_def consensus_engine_new_def result_simps)
  show ?thesis using s(2, 3) from_genesis_epoch [OF s(1) assms(2)]
    by (simp add: epoch_of_def to_validator_infos_def devnet_default_def active_validators_def validator_info_new_def validator_set_new_def
        select_proposer_def Let_def)
qed

text \<open>An example: a configuration file with the example genesis, and a key file that is named but not read.\<close>

definition example_node_config :: node_config where
  "example_node_config = \<lparr>nd_genesis = example_genesis, nd_storage = storage_config_default, nd_network = network_config_default,
     nd_consensus = consensus_config_default, nd_api = api_config_default, nd_vm = vm_config_default, nd_logging = logging_config_default\<rparr>"

lemma example_kp_address: "keypair_address example_chain_prims example_kp \<noteq> 1"
proof -
  have "keypair_address example_chain_prims example_kp = keypair_address example_prims example_kp"
    by (simp add: keypair_address_def keypair_public_key_def to_address_def hash_def example_chain_prims_def mem_prims_def example_block_prims_def
        example_tx_prims_def example_prims_def storage_prims.defs block_prims.defs tx_prims.defs crypto_prims.defs)
  also have "\<dots> = from_be_bytes (take 20 (to_be_bytes (checksum (to_be_bytes (7 :: 256 word)))))"
    by (simp add: keypair_address_def keypair_public_key_def to_address_def hash_def example_prims_def example_kp_def)
  also have "to_be_bytes (7 :: 256 word) = [0,0,0,0,0,0,0,0,0,0,0,0,0,0,0,0,0,0,0,0,0,0,0,0,0,0,0,0,0,0,0,7]"
    by (simp add: to_be_bytes_def to_le_bytes_def)
  also have "checksum \<dots> = 512412813528524548402602737513489686558838033886303561891871305160502407207"
    by (simp add: checksum_def)
  also have "take 20 (to_be_bytes \<dots>) = [1, 34, 3, 239, 152, 167, 206, 14, 249, 191, 60, 4, 3, 133, 131, 246, 178, 171, 77, 39]"
    by (simp add: to_be_bytes_def to_le_bytes_def)
  also have "from_be_bytes \<dots> \<noteq> (1 :: address)"
    by (simp add: from_be_bytes_def from_le_bytes_def)
  finally show ?thesis .
qed

lemma example_not_validator:
  "keypair_address example_chain_prims example_kp \<notin> vi_address ` set (active_validators (ep_validator_set (epoch_of example_genesis 0 0 e)))"
  using example_kp_address by (auto simp: epoch_of_def to_validator_infos_def example_genesis_def active_validators_def validator_info_new_def
      validator_set_new_def)

theorem validator_key_ignored_witness:
  "\<exists>cfg (en :: (mem_db, unit) consensus_engine).
     run_setup example_chain_prims (Ok example_node_config) example_kp 0 ''./data/chaindb'' True (Some ''v.key'') False = Ok (cfg, None) \<and>
     application_engine example_chain_prims cfg None example_kp Map.empty = Some (Ok en) \<and>
     snd (start example_chain_prims sending_module example_rng [\<lambda>_. 1, \<lambda>_. 2] en) = en"
proof -
  let ?P = example_chain_prims
  let ?cfg = "set_production True ''./data/chaindb'' example_node_config"
  have run: "run_setup ?P (Ok example_node_config) example_kp 0 ''./data/chaindb'' True (Some ''v.key'') False = Ok (?cfg, None)"
    by (simp add: run_setup_def)
  obtain s where s: "from_genesis ?P example_genesis Map.empty = Some (Ok s)" using example_start by blast
  then obtain en :: "(mem_db, unit) consensus_engine" where en: "application_engine ?P ?cfg None example_kp Map.empty = Some (Ok en)" "ce_chain_state en = s"
    by (simp add: application_engine_def consensus_engine_new_def set_production_def example_node_config_def)
  have "get_genesis_hash ?P Map.empty = Ok None"
    by (simp add: get_genesis_hash_def get_cf_def example_chain_prims_def)
  then have "keypair_address ?P example_kp \<notin> vi_address ` set (active_validators (ep_validator_set (cs_current_epoch (ce_chain_state en))))"
    using from_genesis_epoch [OF s] en(2) example_not_validator by simp
  then show ?thesis using validator_key_ignored [OF run en(1)] run en(1) by blast
qed

end
