(* ===== verification/Spec2Isabelle.thy ===== *)
theory Spec2Isabelle
  imports Engine Htlc Bridge Token Bridge_Contract Api_Wallet Api_Bridge Api_Server Network Node
begin

text \<open>
  A verification development for the blockchain node of this repository, a Rust workspace under
  \<open>src/\<close>: a proof-of-stake chain with WASM contracts, a bridge to other chains, an HTTP interface and a
  wallet. It models the code of the crates and of the contracts and proves what makes them correct;
  where the code does not do what it means to, the failure is proved instead.

  \<^bold>\<open>How the parts interact.\<close> A node (\<open>crates/node\<close>) runs a consensus engine, a network service and an API
  server. The engine (\<open>crates/consensus\<close>) keeps a pool of signed transactions (\<open>crates/core\<close>,
  \<open>crates/crypto\<close>), proposes blocks when the draw by stake selects it, checks the blocks others propose,
  executes them (contracts on \<open>crates/vm\<close>) and commits accounts, receipts and the block in one batch to
  the database (\<open>crates/storage\<close>); votes of the validators finalize blocks. The network service
  (\<open>crates/network\<close>) carries blocks between nodes. The API (\<open>crates/api\<close>) reads the chain, takes signed
  transactions, signs on behalf of wallets, and serves the bridge (\<open>crates/bridge\<close>): swaps under hash time
  locks and transfers that validators confirm. \<open>crates/wallet\<close> is the command line client. The
  contracts (\<open>contracts/\<close>) are a token and the on-chain side of the bridge, written on an SDK.

  \<^bold>\<open>Conventions.\<close> Machine integers are words and wrap, as the release profile has it; a \<open>Result\<close> is a
  sum with \<open>Err\<close> and \<open>Ok\<close>; a panic is \<open>None\<close>; a hash map is a list of entries with distinct keys; a byte
  array of fixed length is a word; a string is its bytes, and lower-casing changes ASCII letters only. A method that changes its object returns the result and the object
  afterwards, also when it fails. Readings of the clock, random bytes, files and answers of other
  machines are arguments. Third-party code is a parameter: \<open>P\<close> holds Blake3, Ed25519, hex, bincode,
  RocksDB and, for swaps, SHA-256; \<open>W\<close> is wasmtime, \<open>gen_range\<close> the random generator, \<open>K\<close> the cipher, key
  derivation, JSON and BIP39, \<open>J\<close> the token library and \<open>N\<close> the encoding of network messages. What is relied
  on of them is named: \<open>ed25519_correct\<close>, \<open>hex_correct\<close>, \<open>rocks_ok\<close>, \<open>serde_ok\<close>, \<open>wasm_ok\<close>, \<open>jwt_correct\<close>,
  \<open>message_codec\<close>; freedom of hash collisions is assumed for the inputs at hand only.

  \<^bold>\<open>Chain.\<close>
  \<^item> \<open>Rust_Prelude\<close>: integers, results, byte encodings (locale \<open>fixed_codec\<close>), hash maps, sorting, parsing and
    printing of numbers, key-value stores (locales \<open>slot_map\<close>, \<open>slot_store\<close>).
  \<^item> \<open>Crypto\<close> (\<open>crypto/src/hash.rs\<close>, \<open>address.rs\<close>, \<open>keypair.rs\<close>, \<open>error.rs\<close>), \<open>Merkle\<close> (\<open>merkle.rs\<close>),
    \<open>Keystore\<close> (\<open>keystore.rs\<close>, \<open>mnemonic.rs\<close>): round trips of encodings; inclusion proofs are complete and
    sound; a key file opens with its password.
  \<^item> \<open>Core_Types\<close>, \<open>Transaction\<close>, \<open>Block\<close>, \<open>Validators\<close> (\<open>crates/core\<close>): data, signing, validation, quorum
    (locale \<open>quorum_rule\<close>), genesis. \<open>validate_basic\<close> and \<open>verify\<close> are characterised exactly; two quorums
    overlap outside any minority of less than a third; a block's header does not bind its contents.
  \<^item> \<open>Storage\<close> (\<open>crates/storage\<close>): columns, stores (locale \<open>keyed_table\<close>, interpreted for every store), batches.
  \<^item> \<open>Vm\<close> (\<open>crates/vm\<close>): gas, context, host functions, engine. A run is any sequence of host calls; it is
    confined to its own storage and to the gas limit.
  \<^item> \<open>Mempool\<close>, \<open>Pos\<close>, \<open>Finality\<close> (\<open>consensus/src/tx_pool.rs\<close>, \<open>pos.rs\<close>, \<open>slashing.rs\<close>, \<open>finality.rs\<close>): the pool's
    invariant and selection, the share of the draw, slashing, safety of finality, and how one key
    finalizes any height with forged votes.
  \<^item> \<open>Chain_State\<close> (\<open>state.rs\<close>), \<open>Chain_Correct\<close>, \<open>Ledger\<close>: execution and commit of blocks, restarts and
    epochs. The stored chain is linked in every reachable state (relation \<open>chain_reachable\<close>), commits are
    what was computed, replays fail, tokens are conserved up to two proved defects.
  \<^item> \<open>Engine\<close> (\<open>engine.rs\<close>): production and receipt of blocks, transactions and votes (relation
    \<open>engine_reachable\<close>). Accepted blocks have passed every check; a producer's own chain diverges from
    what it announces.
  \<^item> \<open>Network\<close> (\<open>crates/network\<close>, tasks of \<open>node/src/app.rs\<close>): networks of any number of nodes with lossy,
    repeating, reordering delivery and hostile outsiders (relation \<open>network_run\<close>). Every node keeps its
    invariant; transactions and votes never leave their node.
  \<^item> \<open>Node\<close> (\<open>node/src/config.rs\<close>, \<open>main.rs\<close>, start of \<open>app.rs\<close>): configuration and commands; a validator's key
    file is not read.

  \<^bold>\<open>Bridge and contracts.\<close>
  \<^item> \<open>Bridge_Types\<close> (\<open>bridge/src/types.rs\<close>, \<open>error.rs\<close>, \<open>registry.rs\<close>, \<open>validator.rs\<close>), \<open>Htlc\<close> (\<open>htlc.rs\<close>), \<open>Bridge\<close>
    (\<open>state.rs\<close>, \<open>relay.rs\<close>, \<open>chains/\<close>): in any history of calls a swap pays at most once and whoever is
    due is not refused; a transfer is finalized with its confirmations only, and not again unless it
    was marked as failed; the amounts locked and minted are the sums over the transfers.
  \<^item> \<open>Hash_Lock\<close>: the contract of a hash time lock (locale \<open>timed_lock\<close>: settled once, one party is always due)
    and of two locks on one hash (locale \<open>swap_pair\<close>). The swap manager and the bridge contract both
    meet it; that one secret opens both sides is proved below.
  \<^item> \<open>Sdk\<close>, \<open>Token\<close>, \<open>Sha256\<close>, \<open>Bridge_Contract\<close> (\<open>contracts/\<close>): the token implements an abstract ledger and keeps
    its supply; the contract's SHA-256 is the standard's; wrapped tokens are backed and hash locks are
    settled once, but anyone can drain the contract.

  \<^bold>\<open>Interfaces.\<close>
  \<^item> \<open>Api\<close> (\<open>api/src/error.rs\<close>, \<open>dto.rs\<close>, the chain routes), \<open>Api_Wallet\<close> (\<open>routes/wallet.rs\<close>), \<open>Api_Bridge\<close>
    (\<open>routes/bridge.rs\<close>), \<open>Api_Server\<close> (\<open>config.rs\<close>, \<open>middleware/\<close>, the router of \<open>server.rs\<close>, \<open>ws/\<close>), \<open>Wallet_Cli\<close>
    (\<open>crates/wallet\<close>): pages of blocks, faithful requests, colliding nonces, the bridge service as a
    refinement of the histories of its parts, access by token, the rate limit, WebSocket subscriptions.

  \<^bold>\<open>Bounds.\<close> No definition uses fuel. Loops that are not structural (layers of a Merkle tree, padding and
  blocks of SHA-256) are functions with termination proofs; a service is an inductive relation over any
  number of steps. Where a counter could wrap, the theorem bounds the number of calls by its type
  (\<open>2 ^ 64\<close> transfers, \<open>2 ^ 32\<close> requests) or the amounts by \<open>2 ^ 128\<close>; conservation over a block assumes that
  gas costs fit in 64 bits, as the refund is computed there. Locales are interpreted at the definitions
  of the code: no fact rests on an instance made up for it.

  \<^bold>\<open>Not modelled.\<close> Concurrency inside a node: every handler is one atomic step, as if it held its locks
  throughout. Input and output: opening the database, reading configuration, printing, logging and
  \<open>wallet/src/commands/query.rs\<close>, which only prints. Serving: TCP, TLS, CORS, body limits and the paths of
  routes are calls of axum, hyper, rustls and tower; building the swarm and peer discovery are libp2p;
  command lines are parsed by clap. Metrics (\<open>api/src/metrics.rs\<close>) are counters of a library that no part
  reads, and the explorer is a static page. \<open>KeyPair::generate\<close> draws from the operating system. The
  WASM imports of the SDK are the host functions of \<open>Vm\<close>; contracts are modelled on the native
  environment. Tests are left out.
\<close>

interpretation cross: swap_pair "hash_secret P" swap_lock "swap_claim P" swap_refund
  simple_sha256 contract_lock contract_claim contract_refund for P
  by unfold_locales

lemma swap_claim_iff: "swap_claim P now a i p m \<noteq> None \<longleftrightarrow> (\<exists>s m'. claim_swap P now m i p a = (Ok s, m'))"
  by (auto simp: swap_claim_def split: prod.splits sum.splits)

lemma contract_claim_iff:
  "contract_claim now a h p e \<noteq> None \<longleftrightarrow> (\<exists>e'. claim_htlc p (message a now 0 e) = Some (0, e')) \<and> simple_sha256 p = h"
  by (auto simp: contract_claim_def split: option.splits prod.splits)

text \<open>
  C19 (one secret opens both sides of a swap). The swap manager of the bridge crate takes SHA-256 from a
  library; the bridge contract has its own. Suppose the library computes SHA-256, and a swap of the
  manager and an HTLC of the contract are open under one hash lock. Then a non-empty secret with which
  anyone has claimed on one side is accepted on the other side from its recipient, at any time before
  the timelock there. The empty secret is the exception: if the lock is its hash, the recipient of
  the manager's swap claims with it in time, but the contract refuses it from everyone.
\<close>

theorem secret_opens_both_sides:
  assumes "\<forall>xs. sha256 P xs = sha256_spec xs" "swap_lock m i = Some l" "contract_lock e (lk_hash l) = Some k"
  shows "(\<forall>p now a s m' t. p \<noteq> [] \<and> claim_swap P now m i p a = (Ok s, m') \<and> t < lk_until k \<longrightarrow>
      (\<exists>e'. claim_htlc p (message (lk_taker k) t 0 e) = Some (0, e'))) \<and>
    (\<forall>p now a e' t. claim_htlc p (message a t 0 e) = Some (0, e') \<and> simple_sha256 p = lk_hash l \<and> now < lk_until l \<longrightarrow>
      (\<exists>s m'. claim_swap P now m i p (lk_taker l) = (Ok s, m'))) \<and>
    (\<forall>now. lk_hash l = sha256_spec [] \<and> now < lk_until l \<longrightarrow> (\<exists>s m'. claim_swap P now m i [] (lk_taker l) = (Ok s, m'))) \<and>
    (\<forall>a t e'. claim_htlc [] (message a t 0 e) \<noteq> Some (0, e'))"
proof -
  have hash: "hash_secret P p = simple_sha256 p" for p using assms(1) by (simp add: hash_secret_def simple_sha256_eq)
  have k: "lk_hash k = lk_hash l" using assms(3) by (auto elim: contract_lockD)
  note carries = cross.secret_carries [OF assms(2,3) k hash, unfolded swap_claim_iff contract_claim_iff]
  have empty: "claim_htlc [] (message a t 0 e) \<noteq> Some (0, e')" for a t e' by (simp add: claim_htlc_def)
  then have ne: "p \<noteq> []" if "claim_htlc p (message a t 0 e) = Some (0, e')" for p a t e' using that by auto
  have "\<exists>s m'. claim_swap P now m i [] (lk_taker l) = (Ok s, m')" if "lk_hash l = sha256_spec []" "now < lk_until l" for now
    using swap_claim_taker [OF assms(2), of now P "[]"] that hash [of "[]"] by (simp add: simple_sha256_eq)
  then show ?thesis using carries(1) carries(2) [OF ne] empty by blast
qed

definition example_swap_prims :: htlc_prims where
  "example_swap_prims = example_htlc_prims\<lparr>sha256 := sha256_spec\<rparr>"

theorem secret_opens_both_sides_witness:
  "\<exists>m i l e k s m' e'. swap_lock m i = Some l \<and> contract_lock e (lk_hash l) = Some k \<and>
     claim_swap example_swap_prims 20 m i [1] (lk_taker l) = (Ok s, m') \<and>
     claim_htlc [1] (message (lk_taker k) 20 0 e) = Some (0, e')"
proof -
  let ?P = example_swap_prims and ?h = "sha256_spec [1]"
  let ?i = "hex_encode ?P (to_be_bytes ?h)"
  let ?m = "snd (create_swap ?P 10 (htlc_manager_new 60) 1 2 500 ?h Ethereum ''0xabc'' ''7'' (Some 100))"
  let ?e = "sdk_storage_write mock_env_default (htlc_key (hex_encode_32 ?h)) (encode_htlc 4 5 700 90 0)"
  let ?l = "\<lparr>lk_hash = ?h, lk_giver = 1, lk_taker = 2, lk_until = 100\<rparr>" and ?k = "\<lparr>lk_hash = ?h, lk_giver = 4, lk_taker = 5, lk_until = 90\<rparr>"
  have sha: "\<forall>xs. sha256 ?P xs = sha256_spec xs" by (simp add: example_swap_prims_def)
  have l: "swap_lock ?m ?i = Some ?l"
    by (simp add: swap_lock_def get_swap_def create_swap_def htlc_manager_new_def hm_contains_def Let_def)
  have k: "contract_lock ?e (lk_hash ?l) = Some ?k" by (simp add: contract_lock_def)
  obtain s m' where claim: "claim_swap ?P 20 ?m ?i [1] (lk_taker ?l) = (Ok s, m')"
    using swap_claim_taker [OF l, of 20 ?P "[1]"] sha by (auto simp: hash_secret_def)
  then obtain e' where "claim_htlc [1] (message (lk_taker ?k) 20 0 ?e) = Some (0, e')"
    using secret_opens_both_sides [OF sha l k] by fastforce
  then show ?thesis using l k claim by blast
qed

end
